(* ===== verification/Prelude.thy ===== *)
theory Prelude
  imports Main "HOL-Library.Word" "HOL-Library.Monad_Syntax" "HOL-Library.List_Lexorder"
    "HOL-Library.Char_ord" "HOL-Library.Product_Lexorder"
begin

text \<open>
  Shared vocabulary of the development.  Bytes and the machine integers of the C++ sources are
  words of their width; indexed reads and writes go through \<open>rd\<close>, \<open>wr\<close> and \<open>rd_bytes\<close>, whose
  value \<open>None\<close> stands for an access outside the array, so that the absence of such accesses is a
  theorem and not a convention.  A \<^verbatim>\<open>std::map\<close> is an association list kept in key order, because the sources
  iterate their maps and the iteration order is observable; its interface is the locale
  \<open>ordered_map\<close>, which is interpreted on that list model below.
\<close>

unbundle bit_operations_syntax

named_theorems rd_simps \<open>successful buffer reads\<close>
named_theorems inv_intros \<open>preservation of the components' invariants\<close>
named_theorems ops \<open>definitions of the small operations a component is unfolded with\<close>

type_synonym u8 = "8 word"
type_synonym u16 = "16 word"
type_synonym u32 = "32 word"
type_synonym u64 = "64 word"
type_synonym s64 = "64 word" \<comment> \<open>read with \<open>sint\<close>\<close>
type_synonym bytes = "u8 list"

section \<open>Bounds-checked buffer reads\<close>

definition rd :: "'a list \<Rightarrow> nat \<Rightarrow> 'a option" where
  "rd p i = (if i < length p then Some (p ! i) else None)"

definition wr :: "'a list \<Rightarrow> nat \<Rightarrow> 'a \<Rightarrow> 'a list option" where
  "wr p i v = (if i < length p then Some (p[i := v]) else None)"

text \<open>\<^verbatim>\<open>memcpy(dst, p + i, n)\<close>: \<open>n\<close> bytes from offset \<open>i\<close>.\<close>

definition rd_bytes :: "bytes \<Rightarrow> nat \<Rightarrow> nat \<Rightarrow> bytes option" where
  "rd_bytes p i n = (if i + n \<le> length p then Some (take n (drop i p)) else None)"

lemma rd_in_range [rd_simps]: "i < length p \<Longrightarrow> rd p i = Some (p ! i)"
  by (simp add: rd_def)

lemma wr_in_range [rd_simps]: "i < length p \<Longrightarrow> wr p i v = Some (p[i := v])"
  by (simp add: wr_def)

lemma rd_bytes_in_range [rd_simps]: "i + n \<le> length p \<Longrightarrow> rd_bytes p i n = Some (take n (drop i p))"
  by (simp add: rd_bytes_def)

lemma rd_bytes_length: "rd_bytes p i n = Some b \<Longrightarrow> length b = n"
  by (auto simp: rd_bytes_def split: if_splits)

section \<open>Outcomes\<close>

text \<open>
  What a C++ expression comes to: a value, an exception, or behaviour the language does not
  define.  The exceptions that occur are caught by one kind of handler, so they carry no data.
\<close>

datatype 'a outcome = Val 'a | Throw | Undef

fun bindO :: "'a outcome \<Rightarrow> ('a \<Rightarrow> 'b outcome) \<Rightarrow> 'b outcome" where
  "bindO (Val x) f = f x"
| "bindO Throw f = Throw"
| "bindO Undef f = Undef"

lemma bindO_Val [simp]: "bindO m f = Val y \<longleftrightarrow> (\<exists>x. m = Val x \<and> f x = Val y)"
  by (cases m) auto

lemma bindO_Val_right [simp]: "bindO m Val = m"
  by (cases m) auto

lemma bindO_cong [fundef_cong]:
  "m = m' \<Longrightarrow> (\<And>x. m' = Val x \<Longrightarrow> f x = f' x) \<Longrightarrow> bindO m f = bindO m' f'"
  by (cases m') auto

text \<open>A \<^verbatim>\<open>try\<close> block whose handler gives \<open>d\<close>.\<close>

fun catchO :: "'a outcome \<Rightarrow> 'a \<Rightarrow> 'a outcome" where
  "catchO Throw d = Val d"
| "catchO m d = m"

section \<open>Big-endian fields\<close>

definition be16 :: "u8 \<Rightarrow> u8 \<Rightarrow> u16" where
  "be16 a b = push_bit 8 (ucast a) OR ucast b"

definition be32 :: "u8 \<Rightarrow> u8 \<Rightarrow> u8 \<Rightarrow> u8 \<Rightarrow> u32" where
  "be32 a b c d = push_bit 24 (ucast a) OR push_bit 16 (ucast b) OR push_bit 8 (ucast c) OR ucast d"

text \<open>The bytes the senders write: \<^verbatim>\<open>n >> 8\<close>, \<^verbatim>\<open>n & 0xff\<close> and their 32-bit kin.\<close>

definition hi8 :: "u16 \<Rightarrow> u8" where
  "hi8 n = ucast (drop_bit 8 n)"

definition lo8 :: "u16 \<Rightarrow> u8" where
  "lo8 n = ucast (n AND 0xff)"

definition byte32 :: "nat \<Rightarrow> u32 \<Rightarrow> u8" where
  "byte32 k n = ucast (drop_bit k n AND 0xff)"

lemma mask_0xff:
  "(0xff :: 16 word) = mask 8" "(0xff :: 32 word) = mask 8"
  by (simp_all add: mask_eq_exp_minus_1)

lemma lo8_ucast: "lo8 n = ucast n"
  unfolding lo8_def mask_0xff by (rule bit_word_eqI) (simp add: bit_simps)

lemma byte32_ucast: "byte32 k n = ucast (drop_bit k n)"
  unfolding byte32_def mask_0xff by (rule bit_word_eqI) (simp add: bit_simps)

lemma be16_split: "be16 (hi8 n) (lo8 n) = n"
  unfolding be16_def hi8_def lo8_ucast
  by (rule bit_word_eqI) (auto simp: bit_simps)

lemma be32_split: "be32 (byte32 24 n) (byte32 16 n) (byte32 8 n) (byte32 0 n) = n"
proof (rule bit_word_eqI)
  fix i assume "i < LENGTH(32)"
  then consider "i < 8" | "8 \<le> i" "i < 16" | "16 \<le> i" "i < 24" | "24 \<le> i" "i < 32" by fastforce
  then show "bit (be32 (byte32 24 n) (byte32 16 n) (byte32 8 n) (byte32 0 n)) i = bit n i"
    by cases (auto simp: be32_def byte32_ucast bit_simps)
qed

section \<open>Ordered maps\<close>

text \<open>
  What the sources rely on of \<^verbatim>\<open>std::map\<close>: a lookup sees the latest insertion and no erased key,
  and an iteration visits every entry once, in increasing key order.
\<close>

locale ordered_map =
  fixes get :: "'m \<Rightarrow> 'k::linorder \<Rightarrow> 'v option"
    and put :: "'k \<Rightarrow> 'v \<Rightarrow> 'm \<Rightarrow> 'm"
    and del :: "'k \<Rightarrow> 'm \<Rightarrow> 'm"
    and items :: "'m \<Rightarrow> ('k \<times> 'v) list"
    and ok :: "'m \<Rightarrow> bool"
  assumes in_order: "ok m \<Longrightarrow> sorted_wrt (<) (map fst (items m))"
    and get_iff: "ok m \<Longrightarrow> get m k = Some v \<longleftrightarrow> (k, v) \<in> set (items m)"
    and get_put: "ok m \<Longrightarrow> get (put k v m) k' = (if k' = k then Some v else get m k')"
    and get_del: "ok m \<Longrightarrow> get (del k m) k' = (if k' = k then None else get m k')"
    and ok_put: "ok m \<Longrightarrow> ok (put k v m)"
    and ok_del: "ok m \<Longrightarrow> ok (del k m)"
begin

lemma keys_distinct: "ok m \<Longrightarrow> distinct (map fst (items m))"
  using in_order strict_sorted_imp_sorted strict_sorted_iff by blast

lemma get_None_iff: "ok m \<Longrightarrow> get m k = None \<longleftrightarrow> k \<notin> fst ` set (items m)"
  using get_iff by (metis (no_types, lifting) fst_conv image_iff not_None_eq prod.collapse)

lemma put_items:
  assumes "ok m"
  shows "set (items (put k v m)) = insert (k, v) {e \<in> set (items m). fst e \<noteq> k}"
proof -
  have "(k', v') \<in> set (items (put k v m)) \<longleftrightarrow> (k', v') \<in> insert (k, v) {e \<in> set (items m). fst e \<noteq> k}"
    for k' v'
    using assms by (auto simp: ok_put get_put simp flip: get_iff split: if_splits)
  then show ?thesis by auto
qed

lemma del_items:
  assumes "ok m"
  shows "set (items (del k m)) = {e \<in> set (items m). fst e \<noteq> k}"
proof -
  have "(k', v') \<in> set (items (del k m)) \<longleftrightarrow> (k', v') \<in> {e \<in> set (items m). fst e \<noteq> k}" for k' v'
    using assms by (auto simp: ok_del get_del simp flip: get_iff split: if_splits)
  then show ?thesis by auto
qed

lemma put_keys: "ok m \<Longrightarrow> fst ` set (items (put k v m)) = insert k (fst ` set (items m))"
  by (auto simp: put_items)

end

subsection \<open>The list model of \<^verbatim>\<open>std::map\<close>\<close>

type_synonym ('k, 'v) omap = "('k \<times> 'v) list"

fun omap_put :: "'k::linorder \<Rightarrow> 'v \<Rightarrow> ('k, 'v) omap \<Rightarrow> ('k, 'v) omap" where
  "omap_put k v [] = [(k, v)]"
| "omap_put k v ((k', v') # m) =
     (if k < k' then (k, v) # (k', v') # m
      else if k = k' then (k, v) # m
      else (k', v') # omap_put k v m)"

definition omap_del :: "'k \<Rightarrow> ('k, 'v) omap \<Rightarrow> ('k, 'v) omap" where
  "omap_del k m = filter (\<lambda>e. fst e \<noteq> k) m"

definition omap_ok :: "('k::linorder, 'v) omap \<Rightarrow> bool" where
  "omap_ok m \<longleftrightarrow> sorted_wrt (<) (map fst m)"

lemma omap_ok_Nil [simp]: "omap_ok []"
  by (simp add: omap_ok_def)

lemma omap_put_keys [simp]: "fst ` set (omap_put k v m) = insert k (fst ` set m)"
  by (induction k v m rule: omap_put.induct) auto

lemma omap_ok_put [simp, inv_intros]: "omap_ok m \<Longrightarrow> omap_ok (omap_put k v m)"
proof (induction k v m rule: omap_put.induct)
  case (2 k v k' v' m)
  then show ?case by (auto simp: omap_ok_def)
qed (simp add: omap_ok_def)

lemma omap_ok_filter [simp, inv_intros]: "omap_ok m \<Longrightarrow> omap_ok (filter P m)"
  unfolding omap_ok_def by (metis sorted_wrt_filter sorted_wrt_map)

lemma omap_ok_del [simp, inv_intros]: "omap_ok m \<Longrightarrow> omap_ok (omap_del k m)"
  by (simp add: omap_del_def)

lemma omap_ok_map [simp, inv_intros]:
  "omap_ok m \<Longrightarrow> omap_ok (map (\<lambda>(k, v). (k, f k v)) m)"
  by (simp add: omap_ok_def case_prod_unfold comp_def)

lemma omap_ok_distinct: "omap_ok m \<Longrightarrow> distinct (map fst m)"
  using strict_sorted_iff unfolding omap_ok_def by blast

lemma map_of_omap_put: "omap_ok m \<Longrightarrow> map_of (omap_put k v m) k' = (if k' = k then Some v else map_of m k')"
  by (induction k v m rule: omap_put.induct) (auto simp: omap_ok_def)

lemma map_of_omap_del: "map_of (omap_del k m) k' = (if k' = k then None else map_of m k')"
  by (induction m) (auto simp: omap_del_def)

interpretation cmap: ordered_map map_of omap_put omap_del "\<lambda>m. m" omap_ok
  by unfold_locales
    (auto simp: map_of_omap_put map_of_omap_del omap_ok_distinct, simp_all add: omap_ok_def)

end
