(* ===== verification/Cxx_Float.thy ===== *)
theory Cxx_Float
  imports Complex_Main Prelude "HOL-Library.Log_Nat"
begin

text \<open>
  The floating point arithmetic the sources use.  A finite \<^verbatim>\<open>double\<close> or \<^verbatim>\<open>float\<close> is the rational
  number it denotes, and every operation rounds its exact result to the nearest representable
  value, ties to even, with gradual underflow (\<open>rnd\<close>).  Overflow to infinity and NaN do not
  arise: every operand below is bounded by the range of a 64-bit integer, and the divisors are
  nonzero constants.  The lemmas give what the components need of rounding: it is the identity on
  representable values, monotone, and off by at most half a unit in the last place.
\<close>

type_synonym double = rat
type_synonym float32 = rat

definition ilog2 :: "rat \<Rightarrow> int" where
  "ilog2 x = (let (n, d) = quotient_of x; k = bitlen n - bitlen d
              in if 2 powi k \<le> x then k else k - 1)"

text \<open>Round half to even.\<close>

definition rne :: "rat \<Rightarrow> int" where
  "rne x = (let f = \<lfloor>x\<rfloor>; r = x - of_int f
            in if r < 1/2 then f else if 1/2 < r then f + 1 else if even f then f else f + 1)"

definition quantum :: "nat \<Rightarrow> int \<Rightarrow> rat \<Rightarrow> rat" where
  "quantum p emin x = 2 powi (max (ilog2 \<bar>x\<bar> - (int p - 1)) emin)"

definition rnd :: "nat \<Rightarrow> int \<Rightarrow> rat \<Rightarrow> rat" where
  "rnd p emin x = (if x = 0 then 0 else quantum p emin x * of_int (rne (x / quantum p emin x)))"

abbreviation rnd64 :: "rat \<Rightarrow> double" where
  "rnd64 \<equiv> rnd 53 (-1074)"

abbreviation rnd32 :: "rat \<Rightarrow> float32" where
  "rnd32 \<equiv> rnd 24 (-149)"

text \<open>Conversion of a floating point value to an integer type drops the fraction.\<close>

definition trunc :: "rat \<Rightarrow> int" where
  "trunc x = (if 0 \<le> x then \<lfloor>x\<rfloor> else \<lceil>x\<rceil>)"

section \<open>The binary exponent\<close>

lemma powi_less_iff [simp]: "(2::rat) powi m < 2 powi n \<longleftrightarrow> m < n"
  using power_int_strict_increasing [of m n "2::rat"] power_int_increasing [of n m "2::rat"]
  by (cases "m < n") auto

lemma powi_le_iff [simp]: "(2::rat) powi m \<le> 2 powi n \<longleftrightarrow> m \<le> n"
  using powi_less_iff [of n m] by (simp only: not_less [symmetric])

lemma powi_nat_rat: "0 \<le> k \<Longrightarrow> (2::rat) powi k = of_int (2 ^ nat k)"
  by (simp add: power_int_def)

lemma powi_quotient: "b \<le> a \<Longrightarrow> (2::rat) powi a / 2 powi b = of_int (2 ^ nat (a - b))"
  using powi_nat_rat [of "a - b"] by (simp add: power_int_diff)

lemma bitlen_rat_bounds:
  assumes "0 < n"
  shows "(2::rat) powi (bitlen n - 1) \<le> of_int n" and "of_int n < (2::rat) powi (bitlen n)"
proof -
  have pos: "0 \<le> bitlen n - 1" using bitlen_ge_iff_power [of 1 n] assms by simp
  have "2 ^ nat (bitlen n - 1) \<le> n" "n < 2 ^ nat (bitlen n)"
    using bitlen_bounds [OF assms] by auto
  then show "(2::rat) powi (bitlen n - 1) \<le> of_int n" "of_int n < (2::rat) powi (bitlen n)"
    using pos by (simp_all add: powi_nat_rat flip: of_int_less_iff of_int_le_iff)
qed

lemma ilog2_bounds:
  assumes "0 < x"
  shows "2 powi (ilog2 x) \<le> x" and "x < 2 powi (ilog2 x + 1)"
proof -
  obtain n d where nd: "quotient_of x = (n, d)" by (cases "quotient_of x")
  have d: "0 < d" and x: "x = of_int n / of_int d"
    using quotient_of_denom_pos [OF nd] quotient_of_div [OF nd] by simp_all
  with assms have n: "0 < n" by (simp add: zero_less_divide_iff)
  let ?k = "bitlen n - bitlen d"
  have "x < 2 powi (bitlen n) / 2 powi (bitlen d - 1)"
    unfolding x using bitlen_rat_bounds [OF n] bitlen_rat_bounds [OF d] n d
    by (intro frac_less) auto
  also have "\<dots> = 2 powi (?k + 1)" by (simp add: power_int_diff power_int_add)
  finally have up: "x < 2 powi (?k + 1)" .
  have "2 powi (bitlen n - 1) / 2 powi (bitlen d) < x"
    unfolding x using bitlen_rat_bounds [OF n] bitlen_rat_bounds [OF d] n d
    by (intro frac_less2) auto
  also have "2 powi (bitlen n - 1) / 2 powi (bitlen d) = (2::rat) powi (?k - 1)"
    by (simp add: power_int_diff power_int_add)
  finally have lo: "2 powi (?k - 1) < x" .
  show "2 powi (ilog2 x) \<le> x" "x < 2 powi (ilog2 x + 1)"
    using up lo by (auto simp: ilog2_def nd Let_def)
qed

lemma ilog2_unique:
  assumes "2 powi k \<le> x" and "x < 2 powi (k + 1)"
  shows "ilog2 x = k"
proof -
  have "0 < x" using assms(1) by (rule less_le_trans [rotated]) simp
  then have b: "2 powi (ilog2 x) \<le> x" "x < 2 powi (ilog2 x + 1)" by (rule ilog2_bounds)+
  have "(2::rat) powi (ilog2 x) < 2 powi (k + 1)" "(2::rat) powi k < 2 powi (ilog2 x + 1)"
    using assms b by linarith+
  then have "ilog2 x < k + 1" "k < ilog2 x + 1"
    by simp_all
  then show ?thesis by simp
qed

lemma ilog2_mono:
  assumes "0 < x" "x \<le> y"
  shows "ilog2 x \<le> ilog2 y"
proof -
  have "2 powi (ilog2 x) \<le> x" by (rule ilog2_bounds) fact
  also have "x < 2 powi (ilog2 y + 1)" using assms ilog2_bounds(2) [of y] by linarith
  finally have "ilog2 x < ilog2 y + 1" by simp
  then show ?thesis by simp
qed

section \<open>Rounding to an integer\<close>

lemma rne_of_int [simp]: "rne (of_int n) = n"
  by (simp add: rne_def)

lemma rne_zero [simp]: "rne 0 = 0"
  using rne_of_int [of 0] by simp

lemma rne_bounds: "\<lfloor>x\<rfloor> \<le> rne x" "rne x \<le> \<lfloor>x\<rfloor> + 1"
  by (simp_all add: rne_def Let_def)

lemma rne_error: "\<bar>of_int (rne x) - x\<bar> \<le> 1/2"
proof -
  have "of_int \<lfloor>x\<rfloor> \<le> x" "x < of_int \<lfloor>x\<rfloor> + 1" by linarith+
  then show ?thesis by (simp add: rne_def Let_def abs_le_iff)
qed

lemma rne_mono: "x \<le> y \<Longrightarrow> rne x \<le> rne y"
proof -
  assume le: "x \<le> y"
  then have "\<lfloor>x\<rfloor> \<le> \<lfloor>y\<rfloor>" by (rule floor_mono)
  then consider "\<lfloor>x\<rfloor> = \<lfloor>y\<rfloor>" | "\<lfloor>x\<rfloor> + 1 \<le> \<lfloor>y\<rfloor>" by linarith
  then show ?thesis
  proof cases
    case 1
    with le show ?thesis by (simp add: rne_def Let_def)
  next
    case 2
    with rne_bounds [of x] rne_bounds [of y] show ?thesis by linarith
  qed
qed

lemma rne_eqI:
  assumes "\<bar>of_int n - x\<bar> < 1/2"
  shows "rne x = n"
proof -
  have "\<bar>of_int (rne x) - (of_int n :: rat)\<bar> < 1"
    using rne_error [of x] assms by linarith
  then have "\<bar>rne x - n\<bar> < 1" by (metis of_int_abs of_int_diff of_int_less_1_iff)
  then show ?thesis by simp
qed

lemma rne_minus: "rne (- x) = - rne x"
proof (cases "x - of_int \<lfloor>x\<rfloor> = 1/2")
  case True
  then have x: "x = of_int \<lfloor>x\<rfloor> + 1/2" by simp
  have "\<lfloor>- x\<rfloor> = - \<lfloor>x\<rfloor> - 1"
    by (subst x) (simp add: floor_eq_iff)
  moreover have "- x - of_int (- \<lfloor>x\<rfloor> - 1) = 1/2" using True by simp
  ultimately show ?thesis using True by (simp add: rne_def Let_def)
next
  case False
  have fl: "of_int \<lfloor>x\<rfloor> \<le> x" "x < of_int \<lfloor>x\<rfloor> + 1" by linarith+
  have "\<bar>of_int (rne x) - x\<bar> < 1/2"
    using False fl by (simp add: rne_def Let_def abs_less_iff)
  then have "\<bar>of_int (- rne x) - (- x)\<bar> < 1/2" by (simp add: abs_minus_commute)
  then show ?thesis by (rule rne_eqI)
qed

section \<open>Rounding to a representable value\<close>

lemma quantum_pos [simp]: "0 < quantum p emin x"
  by (simp add: quantum_def)

lemma quantum_nonneg [simp]: "0 \<le> quantum p emin x"
  by (rule less_imp_le) (rule quantum_pos)

lemma quantum_nonzero [simp]: "quantum p emin x \<noteq> 0"
  using quantum_pos [of p emin x] by linarith

lemma quantum_minus [simp]: "quantum p emin (- x) = quantum p emin x"
  by (simp add: quantum_def)

lemma rnd_zero [simp]: "rnd p emin 0 = 0"
  by (simp add: rnd_def)

lemma rnd_minus: "rnd p emin (- x) = - rnd p emin x"
  by (simp add: rnd_def rne_minus)

text \<open>A value of at most \<open>p\<close> significant bits is represented exactly.\<close>

definition representable :: "nat \<Rightarrow> int \<Rightarrow> rat \<Rightarrow> bool" where
  "representable p emin x \<longleftrightarrow> (\<exists>m e. x = of_int m * 2 powi e \<and> emin \<le> e \<and> \<bar>m\<bar> < 2 ^ p)"

lemma ilog2_scaled: "0 < x \<Longrightarrow> ilog2 (x * 2 powi e) = ilog2 x + e"
  using ilog2_bounds [of x] by (intro ilog2_unique) (simp_all add: power_int_add)

lemma ilog2_int_less:
  assumes "0 < m" "m < 2 ^ p"
  shows "ilog2 (of_int m) < int p"
proof -
  have "2 powi (ilog2 (of_int m)) \<le> (of_int m :: rat)" using assms by (intro ilog2_bounds) simp
  also have "(of_int m :: rat) < of_int (2 ^ p)" using assms(2) by (simp only: of_int_less_iff)
  also have "(of_int (2 ^ p) :: rat) = 2 powi (int p)" by simp
  finally show ?thesis by (simp only: powi_less_iff)
qed

lemma rnd_multiple:
  assumes "x = of_int m * 2 powi e" "x \<noteq> 0" "max (ilog2 \<bar>x\<bar> - (int p - 1)) emin \<le> e"
  shows "rnd p emin x = x"
proof -
  let ?e = "max (ilog2 \<bar>x\<bar> - (int p - 1)) emin"
  have "x / quantum p emin x = of_int m * 2 powi (e - ?e)"
    by (simp add: quantum_def assms(1) power_int_diff)
  also have "\<dots> = of_int (m * 2 ^ nat (e - ?e))"
    using assms(3) by (simp add: powi_nat_rat)
  finally obtain n where "x / quantum p emin x = of_int n" by blast
  then have "rne (x / quantum p emin x) = n" "quantum p emin x * of_int n = x"
    by (simp_all only: rne_of_int) (simp add: field_simps)
  then show ?thesis using assms(2) by (simp only: rnd_def if_False)
qed

lemma rnd_representable:
  assumes "representable p emin x"
  shows "rnd p emin x = x"
proof (cases "x = 0")
  case False
  obtain m e where x: "x = of_int m * 2 powi e" and e: "emin \<le> e" and m: "\<bar>m\<bar> < 2 ^ p"
    using assms by (auto simp: representable_def)
  have m0: "0 < \<bar>m\<bar>" using False x by auto
  have "ilog2 \<bar>x\<bar> = ilog2 (of_int \<bar>m\<bar>) + e"
    unfolding x abs_mult of_int_abs [symmetric] using m0 by (simp add: ilog2_scaled del: of_int_abs)
  then have "max (ilog2 \<bar>x\<bar> - (int p - 1)) emin \<le> e"
    using ilog2_int_less [OF m0 m] e by simp
  then show ?thesis by (rule rnd_multiple [OF x False])
qed simp

lemma representable_int: "\<bar>n\<bar> < 2 ^ p \<Longrightarrow> emin \<le> 0 \<Longrightarrow> representable p emin (of_int n)"
  unfolding representable_def by (intro exI [of _ n] exI [of _ 0]) simp

lemma rnd_int: "\<bar>n\<bar> < 2 ^ p \<Longrightarrow> emin \<le> 0 \<Longrightarrow> rnd p emin (of_int n) = of_int n"
  by (intro rnd_representable representable_int)

lemma rnd_error: "\<bar>rnd p emin x - x\<bar> \<le> quantum p emin x / 2"
proof (cases "x = 0")
  case False
  let ?q = "quantum p emin x"
  have "rnd p emin x - x = ?q * (of_int (rne (x / ?q)) - x / ?q)"
    using False quantum_pos [of p emin x] by (simp add: rnd_def field_simps)
  then have "\<bar>rnd p emin x - x\<bar> = ?q * \<bar>of_int (rne (x / ?q)) - x / ?q\<bar>"
    using abs_of_pos [OF quantum_pos, of p emin x] by (simp only: abs_mult)
  also have "\<dots> \<le> ?q * (1/2)"
    using rne_error [of "x / ?q"] by (intro mult_left_mono less_imp_le [OF quantum_pos])
  finally show ?thesis by simp
qed simp

lemma rnd_pos_mono:
  assumes "0 < x" "x \<le> y" "0 < p"
  shows "rnd p emin x \<le> rnd p emin y"
proof -
  let ?ex = "max (ilog2 x - (int p - 1)) emin" and ?ey = "max (ilog2 y - (int p - 1)) emin"
  have y: "0 < y" using assms by simp
  have ex: "?ex \<le> ?ey" using ilog2_mono [OF assms(1,2)] by simp
  show ?thesis
  proof (cases "?ex = ?ey")
    case True
    then have q: "quantum p emin x = quantum p emin y" using assms(1) y by (simp add: quantum_def)
    have "rne (x / quantum p emin y) \<le> rne (y / quantum p emin y)"
      using assms(2) by (intro rne_mono divide_right_mono less_imp_le [OF quantum_pos])
    then show ?thesis using assms(1) y by (simp add: rnd_def q)
  next
    case False
    let ?B = "2 powi (ilog2 y) :: rat"
    have less: "ilog2 x < ilog2 y" and ey: "?ey = ilog2 y - (int p - 1)" and exl: "?ex \<le> ilog2 y"
      using False ilog2_mono [OF assms(1,2)] assms(3) by linarith+
    have xB: "x \<le> ?B"
      using ilog2_bounds(2) [OF assms(1)] less powi_le_iff [of "ilog2 x + 1" "ilog2 y"] by linarith
    have "x / quantum p emin x \<le> ?B / 2 powi ?ex"
      using xB assms(1) by (simp add: quantum_def divide_right_mono)
    also have "?B / 2 powi ?ex = of_int (2 ^ nat (ilog2 y - ?ex))"
      using exl by (rule powi_quotient)
    finally have "rne (x / quantum p emin x) \<le> 2 ^ nat (ilog2 y - ?ex)"
      using rne_mono rne_of_int by metis
    then have "of_int (rne (x / quantum p emin x)) \<le> (2::rat) powi (ilog2 y - ?ex)"
      using exl by (simp add: powi_nat_rat flip: of_int_le_iff)
    then have "rnd p emin x \<le> 2 powi ?ex * 2 powi (ilog2 y - ?ex)"
      using assms(1) by (simp add: rnd_def quantum_def)
    also have "\<dots> = ?B" by (simp flip: power_int_add)
    also have "?B = 2 powi ?ey * of_int (2 ^ (p - 1))"
    proof -
      have "ilog2 y = ?ey + int (p - 1)" using ey assms(3) by simp
      then show ?thesis by (metis power_int_add of_int_power of_int_numeral power_int_of_nat zero_neq_numeral)
    qed
    also have "\<dots> \<le> rnd p emin y"
    proof -
      have "of_int (2 ^ (p - 1)) = ?B / 2 powi ?ey"
        unfolding ey using assms(3) by (simp add: power_int_diff flip: power_int_of_nat)
      also have "\<dots> \<le> y / quantum p emin y"
        using ilog2_bounds(1) [OF y] y by (simp add: quantum_def divide_right_mono)
      finally have "2 ^ (p - 1) \<le> rne (y / quantum p emin y)"
        using rne_mono rne_of_int by metis
      then have "(of_int (2 ^ (p - 1)) :: rat) \<le> of_int (rne (y / quantum p emin y))"
        by (simp only: of_int_le_iff)
      then show ?thesis using y by (simp add: rnd_def quantum_def)
    qed
    finally show ?thesis .
  qed
qed

lemma rnd_nonneg: "0 \<le> x \<Longrightarrow> 0 \<le> rnd p emin x"
proof -
  assume "0 \<le> x"
  then have "rne 0 \<le> rne (x / quantum p emin x)"
    by (intro rne_mono divide_nonneg_pos quantum_pos)
  then show ?thesis using quantum_pos [of p emin x] by (simp add: rnd_def)
qed

lemma rnd_mono:
  assumes "x \<le> y" "0 < p"
  shows "rnd p emin x \<le> rnd p emin y"
proof -
  consider "0 < x" | "y < 0" | "x \<le> 0" "0 \<le> y" by linarith
  then show ?thesis
  proof cases
    case 1
    with assms show ?thesis by (intro rnd_pos_mono)
  next
    case 2
    then have "rnd p emin (- y) \<le> rnd p emin (- x)" using assms by (intro rnd_pos_mono) simp_all
    then show ?thesis by (simp add: rnd_minus)
  next
    case 3
    then have "0 \<le> rnd p emin (- x)" "0 \<le> rnd p emin y" by (simp_all add: rnd_nonneg)
    then show ?thesis by (simp add: rnd_minus)
  qed
qed

text \<open>Bounds that are themselves representable survive rounding.\<close>

lemma rnd_le_representable: "representable p emin b \<Longrightarrow> 0 < p \<Longrightarrow> x \<le> b \<Longrightarrow> rnd p emin x \<le> b"
  using rnd_mono [of x b p emin] rnd_representable by fastforce

lemma rnd_ge_representable: "representable p emin b \<Longrightarrow> 0 < p \<Longrightarrow> b \<le> x \<Longrightarrow> b \<le> rnd p emin x"
  using rnd_mono [of b x p emin] rnd_representable by fastforce

lemma quantum_bound:
  assumes "x \<noteq> 0"
  shows "quantum p emin x \<le> \<bar>x\<bar> * 2 powi (1 - int p) + 2 powi emin"
proof -
  have "2 powi (ilog2 \<bar>x\<bar>) \<le> \<bar>x\<bar>" using assms by (intro ilog2_bounds) simp
  then have "2 powi (ilog2 \<bar>x\<bar>) * 2 powi (1 - int p) \<le> \<bar>x\<bar> * 2 powi (1 - int p)"
    by (rule mult_right_mono) simp
  then have "2 powi (ilog2 \<bar>x\<bar> - (int p - 1)) \<le> \<bar>x\<bar> * 2 powi (1 - int p)"
    by (simp add: algebra_simps flip: power_int_add)
  then show ?thesis
    using zero_le_power_int [of "2::rat" emin] by (auto simp: quantum_def max_def add_increasing2)
qed

lemma rnd_rel_error:
  "\<bar>rnd p emin x - x\<bar> \<le> (\<bar>x\<bar> * 2 powi (1 - int p) + 2 powi emin) / 2"
proof (cases "x = 0")
  case False
  show ?thesis
    by (rule order_trans [OF rnd_error]) (intro divide_right_mono quantum_bound False, simp)
qed simp

section \<open>Truncation\<close>

lemma trunc_of_int [simp]: "trunc (of_int n) = n"
  by (simp add: trunc_def)

lemma trunc_minus: "trunc (- x) = - trunc x"
  by (auto simp: trunc_def ceiling_def)

lemma trunc_mono: "x \<le> y \<Longrightarrow> trunc x \<le> trunc y"
  unfolding trunc_def using floor_mono [of x y]
  by (auto simp: not_le intro: order_trans [of _ 0] ceiling_mono)

lemma trunc_error: "\<bar>of_int (trunc x) - x\<bar> < 1"
  unfolding trunc_def by (simp, linarith)

end
