(* ===== verification/Cxx_Text.thy ===== *)
theory Cxx_Text
  imports Cxx_Float
begin

text \<open>
  The text functions of the C and C++ standard libraries the sources use, on strings as lists of
  characters: decimal printing and parsing of integers, splitting into lines and words, searching
  and trimming.
\<close>

section \<open>Integers as text\<close>

definition digit_char :: "nat \<Rightarrow> char" where
  "digit_char d = char_of (48 + d)"

definition is_digit :: "char \<Rightarrow> bool" where
  "is_digit c \<longleftrightarrow> 48 \<le> (of_char c :: nat) \<and> (of_char c :: nat) \<le> 57"

definition digit_val :: "char \<Rightarrow> int" where
  "digit_val c = int (of_char c) - 48"

fun nat_str :: "nat \<Rightarrow> string" where
  "nat_str n = (if n < 10 then [digit_char n] else nat_str (n div 10) @ [digit_char (n mod 10)])"

declare nat_str.simps [simp del]

definition to_string :: "int \<Rightarrow> string" where
  "to_string n = (if n < 0 then CHR ''-'' # nat_str (nat (- n)) else nat_str (nat n))"

fun digits_val :: "int \<Rightarrow> string \<Rightarrow> int" where
  "digits_val acc [] = acc"
| "digits_val acc (c # cs) = digits_val (acc * 10 + digit_val c) cs"

lemma digit_char_props [simp]:
  assumes "d < 10"
  shows "is_digit (digit_char d)" "digit_val (digit_char d) = int d"
  using assms by (simp_all add: is_digit_def digit_val_def digit_char_def)

lemma nat_str_digits: "c \<in> set (nat_str n) \<Longrightarrow> is_digit c"
proof (induction n rule: nat_str.induct)
  case (1 n)
  then show ?case by (subst (asm) (2) nat_str.simps) (auto split: if_splits)
qed

lemma nat_str_nonempty [simp]: "nat_str n \<noteq> []"
  by (subst nat_str.simps) simp

lemma digits_val_append: "digits_val acc (xs @ ys) = digits_val (digits_val acc xs) ys"
  by (induction xs arbitrary: acc) auto

lemma digits_val_nat_str: "digits_val 0 (nat_str n) = int n"
proof (induction n rule: nat_str.induct)
  case (1 n)
  show ?case
  proof (cases "n < 10")
    case False
    then have "digits_val 0 (nat_str n) = int (n div 10) * 10 + int (n mod 10)"
      using 1 by (subst nat_str.simps) (simp add: digits_val_append)
    then show ?thesis by (simp add: zdiv_int zmod_int)
  qed (subst nat_str.simps, simp)
qed

section \<open>Splitting and searching\<close>

text \<open>The pieces between the separators; an empty text has one empty piece.\<close>

fun split_on :: "char \<Rightarrow> string \<Rightarrow> string list" where
  "split_on c [] = [[]]"
| "split_on c (x # xs) =
     (if x = c then [] # split_on c xs
      else case split_on c xs of [] \<Rightarrow> [[x]] | w # ws \<Rightarrow> (x # w) # ws)"

lemma split_on_nonempty [simp]: "split_on c s \<noteq> []"
  by (induction s) (auto split: list.splits)

lemma split_on_append: "c \<notin> set a \<Longrightarrow> split_on c (a @ c # b) = a # split_on c b"
  by (induction a) auto

lemma split_on_single: "c \<notin> set a \<Longrightarrow> split_on c a = [a]"
  by (induction a) auto

definition rfind :: "char \<Rightarrow> string \<Rightarrow> nat option" where
  "rfind c s = (let n = length (takeWhile (\<lambda>x. x \<noteq> c) (rev s)) in if n < length s then Some (length s - n - 1) else None)"

definition find_from :: "char \<Rightarrow> nat \<Rightarrow> string \<Rightarrow> nat option" where
  "find_from c i s = (let n = i + length (takeWhile (\<lambda>x. x \<noteq> c) (drop i s)) in if n < length s then Some n else None)"

definition starts_with :: "string \<Rightarrow> string \<Rightarrow> bool" where
  "starts_with p s \<longleftrightarrow> take (length p) s = p"

definition is_space :: "char \<Rightarrow> bool" where
  "is_space c \<longleftrightarrow> (let n = of_char c :: nat in n = 32 \<or> (9 \<le> n \<and> n \<le> 13))"

definition skip_space :: "string \<Rightarrow> string" where
  "skip_space s = dropWhile is_space s"

text \<open>A string as a C function sees it, and the lines and words of an input stream.\<close>

definition c_str :: "string \<Rightarrow> string" where
  "c_str s = takeWhile (\<lambda>c. c \<noteq> CHR 0x00) s"

definition getlines :: "string \<Rightarrow> string list" where
  "getlines s = (let ls = split_on (CHR 0x0A) s in if last ls = [] then butlast ls else ls)"

function stream_words :: "string \<Rightarrow> string list" where
  "stream_words s =
    (let s = skip_space s in
     if s = [] then [] else takeWhile (\<lambda>c. \<not> is_space c) s # stream_words (dropWhile (\<lambda>c. \<not> is_space c) s))"
  by auto

lemma skip_space_length: "length (skip_space s) \<le> length s"
  by (simp add: skip_space_def length_dropWhile_le)

lemma skip_space_hd: "skip_space s = c # r \<Longrightarrow> \<not> is_space c"
  unfolding skip_space_def by (metis hd_dropWhile list.discI list.sel(1))

termination stream_words
proof (relation "measure length")
  fix s x :: string assume x: "x = skip_space s" "x \<noteq> []"
  obtain c r where cr: "x = c # r" using x(2) by (cases x) simp_all
  have "\<not> is_space c" using skip_space_hd x cr by metis
  then have "length (dropWhile (\<lambda>c. \<not> is_space c) x) \<le> length r" by (simp add: cr length_dropWhile_le)
  then show "(dropWhile (\<lambda>c. \<not> is_space c) x, s) \<in> measure length"
    using skip_space_length [of s] unfolding x(1) [symmetric] cr by simp
qed simp

declare stream_words.simps [simp del]

section \<open>Reading numbers\<close>

definition scan_sign :: "string \<Rightarrow> bool \<times> string" where
  "scan_sign s = (case s of c # r \<Rightarrow> if c = CHR ''-'' then (True, r) else if c = CHR ''+'' then (False, r) else (False, s) | [] \<Rightarrow> (False, s))"

text \<open>
  \<open>scan_int\<close> is the conversion \<^verbatim>\<open>%d\<close>: the number and the rest of the text, or no number.  A number
  outside the range of \<^verbatim>\<open>int\<close> has no defined result.
\<close>

definition scan_int :: "string \<Rightarrow> (int \<times> string) option outcome" where
  "scan_int s =
    (let (neg, s) = scan_sign (skip_space s); ds = takeWhile is_digit s;
         n = (if neg then - digits_val 0 ds else digits_val 0 ds)
     in if ds = [] then Val None
        else if -2147483648 \<le> n \<and> n \<le> 2147483647 then Val (Some (n, dropWhile is_digit s)) else Undef)"

definition atoi :: "string \<Rightarrow> int outcome" where
  "atoi s = bindO (scan_int (c_str s)) (\<lambda>r. Val (case r of Some (n, rest) \<Rightarrow> n | None \<Rightarrow> 0))"

datatype directive = Literal char | Blank | Decimal | Character

fun format :: "string \<Rightarrow> directive list" where
  "format [] = []"
| "format (c # cs) =
    (if c = CHR ''%'' \<and> cs \<noteq> [] then (if hd cs = CHR ''c'' then Character else Decimal) # format (tl cs)
     else (if c = CHR '' '' then Blank else Literal c) # format cs)"

text \<open>
  \<open>sscanf\<close> with the conversions \<^verbatim>\<open>%d\<close> and \<^verbatim>\<open>%c\<close>: what was converted until the input stops
  matching, a character as its code.
\<close>

fun scan :: "directive list \<Rightarrow> string \<Rightarrow> int list outcome" where
  "scan [] s = Val []"
| "scan (Blank # ds) s = scan ds (skip_space s)"
| "scan (Literal c # ds) s = (case s of x # r \<Rightarrow> if x = c then scan ds r else Val [] | [] \<Rightarrow> Val [])"
| "scan (Decimal # ds) s =
    (case scan_int s of
       Val (Some (n, r)) \<Rightarrow> bindO (scan ds r) (\<lambda>ns. Val (n # ns))
     | Val None \<Rightarrow> Val []
     | Throw \<Rightarrow> Throw
     | Undef \<Rightarrow> Undef)"
| "scan (Character # ds) s = (case s of x # r \<Rightarrow> bindO (scan ds r) (\<lambda>ns. Val (of_char x # ns)) | [] \<Rightarrow> Val [])"

definition sscanf :: "string \<Rightarrow> string \<Rightarrow> int list outcome" where
  "sscanf s fmt = scan (format fmt) (c_str s)"

text \<open>
  \<open>atof\<close> reads decimal and hexadecimal numbers.  Infinities and NaN are not values of the type
  \<open>double\<close> of this development; a text that denotes one has the result \<open>Undef\<close> here.
\<close>

definition is_hex :: "char \<Rightarrow> bool" where
  "is_hex c \<longleftrightarrow> (let n = of_char c :: nat in is_digit c \<or> (65 \<le> n \<and> n \<le> 70) \<or> (97 \<le> n \<and> n \<le> 102))"

definition hex_val :: "char \<Rightarrow> int" where
  "hex_val c = (let n = of_char c :: nat in if n \<le> 57 then int n - 48 else if n \<le> 70 then int n - 55 else int n - 87)"

definition lower :: "char \<Rightarrow> char" where
  "lower c = (let n = of_char c :: nat in if 65 \<le> n \<and> n \<le> 90 then char_of (n + 32) else c)"

definition mantissa :: "(char \<Rightarrow> bool) \<Rightarrow> string \<Rightarrow> string \<times> string \<times> string" where
  "mantissa digit s =
    (let ds = takeWhile digit s; r = dropWhile digit s
     in case r of c # r' \<Rightarrow> if c = CHR ''.'' then (ds, takeWhile digit r', dropWhile digit r') else (ds, [], r) | [] \<Rightarrow> (ds, [], []))"

definition exponent :: "char \<Rightarrow> string \<Rightarrow> int" where
  "exponent e s =
    (case s of
       c # r \<Rightarrow> if lower c = e then let (neg, r) = scan_sign r; ds = takeWhile is_digit r
                 in if neg then - digits_val 0 ds else digits_val 0 ds
               else 0
     | [] \<Rightarrow> 0)"

definition scan_float :: "string \<Rightarrow> rat option" where
  "scan_float s =
    (if map lower (take 3 s) = ''inf'' \<or> map lower (take 3 s) = ''nan'' then None
     else let (hi, hf, hr) = mantissa is_hex (drop 2 s) in
     if map lower (take 2 s) = ''0x'' \<and> hi @ hf \<noteq> [] then
       Some (of_int (fold (\<lambda>c n. n * 16 + hex_val c) (hi @ hf) 0) * 2 powi (exponent (CHR ''p'') hr - 4 * int (length hf)))
     else
       let (di, df, dr) = mantissa is_digit s in
       if di @ df = [] then Some 0
       else Some (of_int (digits_val 0 (di @ df)) * 10 powi (exponent (CHR ''e'') dr - int (length df))))"

definition atof :: "string \<Rightarrow> double outcome" where
  "atof s =
    (let (neg, r) = scan_sign (skip_space (c_str s)) in
     case scan_float r of
       None \<Rightarrow> Undef
     | Some x \<Rightarrow> let d = rnd64 x in if 2 powi 1024 \<le> d then Undef else Val (if neg then - d else d))"

section \<open>Printing floating point numbers\<close>

definition ilog10 :: "rat \<Rightarrow> int" where
  "ilog10 x = (let (n, d) = quotient_of x; k = int (length (nat_str (nat n))) - int (length (nat_str (nat d)))
               in if 10 powi k \<le> x then k else k - 1)"

definition strip_zeros :: "string \<Rightarrow> string" where
  "strip_zeros s = rev (dropWhile (\<lambda>c. c = CHR ''0'') (rev s))"

definition point :: "string \<Rightarrow> string \<Rightarrow> string" where
  "point a b = (let b = strip_zeros b in if b = [] then a else a @ CHR ''.'' # b)"

text \<open>Output of a \<^verbatim>\<open>double\<close> to a stream: six significant digits, as \<^verbatim>\<open>%g\<close>.\<close>

definition show_positive :: "rat \<Rightarrow> string" where
  "show_positive x =
    (let k = ilog10 x; m = rne (x * 10 powi (5 - k));
         (k, m) = (if m = 1000000 then (k + 1, 100000) else (k, m));
         ds = nat_str (nat m)
     in if 0 \<le> k \<and> k < 6 then point (take (nat k + 1) ds) (drop (nat k + 1) ds)
        else if -4 \<le> k \<and> k < 0 then point ''0'' (replicate (nat (- k - 1)) (CHR ''0'') @ ds)
        else point (take 1 ds) (drop 1 ds) @ CHR ''e'' # (if k < 0 then CHR ''-'' else CHR ''+'')
               # (let e = nat_str (nat \<bar>k\<bar>) in if length e < 2 then CHR ''0'' # e else e))"

definition show_double :: "double \<Rightarrow> string" where
  "show_double x = (if x = 0 then ''0'' else if x < 0 then CHR ''-'' # show_positive (- x) else show_positive x)"
section \<open>What was printed is read back\<close>

lemma getlines_Nil [simp]: "getlines [] = []"
  by (simp add: getlines_def)

lemma getlines_line: "CHR 0x0A \<notin> set l \<Longrightarrow> getlines (l @ CHR 0x0A # r) = l # getlines r"
  by (simp add: getlines_def split_on_append Let_def)

lemma starts_with_append [simp]: "starts_with p (p @ s)"
  by (simp add: starts_with_def)

lemma rfind_last: "c \<notin> set b \<Longrightarrow> rfind c (a @ c # b) = Some (length a)"
proof -
  assume "c \<notin> set b"
  then have "takeWhile (\<lambda>x. x \<noteq> c) (rev (a @ c # b)) = rev b"
    by (simp, subst takeWhile_append2) auto
  then show ?thesis by (simp add: rfind_def del: rev_append)
qed

lemma takeWhile_digits: "list_all is_digit ds \<Longrightarrow> r = [] \<or> \<not> is_digit (hd r) \<Longrightarrow> takeWhile is_digit (ds @ r) = ds \<and> dropWhile is_digit (ds @ r) = r"
  by (cases r) (auto simp: list_all_iff)

lemma digit_not_space: "is_digit c \<Longrightarrow> \<not> is_space c"
  by (simp add: is_digit_def is_space_def Let_def)

lemma to_string_nonempty [simp]: "to_string n \<noteq> []"
  by (simp add: to_string_def)

lemma to_string_chars: "c \<in> set (to_string n) \<Longrightarrow> is_digit c \<or> c = CHR ''-''"
  using nat_str_digits by (auto simp: to_string_def split: if_splits)

lemma scan_int_to_string:
  assumes "-2147483648 \<le> n" "n \<le> 2147483647" "r = [] \<or> \<not> is_digit (hd r)"
  shows "scan_int (to_string n @ r) = Val (Some (n, r))"
proof -
  have split: "takeWhile is_digit (nat_str m @ r) = nat_str m" "dropWhile is_digit (nat_str m @ r) = r" for m
    using takeWhile_digits [of "nat_str m" r] assms(3) nat_str_digits [of _ m] by (auto simp only: list_all_iff)
  have minus: "\<not> is_space (CHR ''-'')" "\<not> is_digit (CHR ''-'')" "\<not> is_digit (CHR ''+'')" by code_simp+
  obtain d ds where d: "nat_str (nat n) = d # ds" by (cases "nat_str (nat n)") auto
  then have dd: "is_digit d" using nat_str_digits [of d "nat n"] by simp
  then have "d \<noteq> CHR ''-''" "d \<noteq> CHR ''+''" "\<not> is_space d" using minus digit_not_space by auto
  then have plain: "scan_sign (skip_space (nat_str (nat n) @ r)) = (False, nat_str (nat n) @ r)"
    by (simp add: d skip_space_def scan_sign_def)
  show ?thesis
  proof (cases "n < 0")
    case True
    then show ?thesis
      using assms(1,2) by (simp add: scan_int_def to_string_def skip_space_def minus scan_sign_def split digits_val_nat_str)
  next
    case False
    then show ?thesis
      using assms(1,2) by (simp add: scan_int_def to_string_def plain split digits_val_nat_str)
  qed
qed

lemma to_string_nul: "CHR 0x00 \<notin> set (to_string n)"
proof
  assume "CHR 0x00 \<in> set (to_string n)"
  moreover have "\<not> is_digit (CHR 0x00)" by code_simp
  ultimately show False using to_string_chars by blast
qed

lemma c_str_id: "CHR 0x00 \<notin> set s \<Longrightarrow> c_str s = s"
  unfolding c_str_def by (rule takeWhile_eq_all_conv [THEN iffD2]) auto

lemma atoi_to_string: "-2147483648 \<le> n \<Longrightarrow> n \<le> 2147483647 \<Longrightarrow> atoi (to_string n) = Val n"
  using scan_int_to_string [of n "[]"] by (simp add: atoi_def c_str_id to_string_nul)

lemma scan_Literals: "scan (map Literal p @ ds) (p @ s) = scan ds s"
  by (induction p) auto

lemma scan_Decimal_to_string:
  "-2147483648 \<le> n \<Longrightarrow> n \<le> 2147483647 \<Longrightarrow> r = [] \<or> \<not> is_digit (hd r)
    \<Longrightarrow> scan (Decimal # ds) (to_string n @ r) = bindO (scan ds r) (\<lambda>ns. Val (n # ns))"
  by (simp add: scan_int_to_string)

lemma stream_words_word:
  assumes "w \<noteq> []" "\<forall>c \<in> set w. \<not> is_space c"
  shows "stream_words (CHR '' '' # w @ CHR '' '' # r) = w # stream_words (CHR '' '' # r)"
    and "stream_words (CHR '' '' # w) = [w]"
proof -
  obtain c cs where w: "w = c # cs" using assms(1) by (cases w) auto
  have sp: "is_space (CHR '' '')" by code_simp
  have skip: "skip_space (CHR '' '' # w @ r) = w @ r" for r using assms(2) sp by (simp add: skip_space_def w)
  have cut: "takeWhile (\<lambda>c. \<not> is_space c) (w @ CHR '' '' # r) = w" "dropWhile (\<lambda>c. \<not> is_space c) (w @ CHR '' '' # r) = CHR '' '' # r"
    "takeWhile (\<lambda>c. \<not> is_space c) w = w" "dropWhile (\<lambda>c. \<not> is_space c) w = []"
    using assms(2) sp by simp_all
  have unf: "stream_words s = (let x = skip_space s in if x = [] then []
      else takeWhile (\<lambda>c. \<not> is_space c) x # stream_words (dropWhile (\<lambda>c. \<not> is_space c) x))" for s
    by (rule stream_words.simps)
  have none: "stream_words [] = []" by (subst unf) (simp add: skip_space_def)
  show "stream_words (CHR '' '' # w @ CHR '' '' # r) = w # stream_words (CHR '' '' # r)"
    using assms(1) by (subst unf) (simp only: skip cut Let_def append_is_Nil_conv simp_thms if_False)
  show "stream_words (CHR '' '' # w) = [w]"
    using assms(1) none skip [of "[]"] by (subst unf) (simp only: append_Nil2 cut Let_def simp_thms if_False)
qed

section \<open>Searching for a text\<close>

text \<open>\<^verbatim>\<open>s.find(p)\<close>: the first position where \<open>p\<close> occurs.\<close>

fun find_str :: "string \<Rightarrow> string \<Rightarrow> nat option" where
  "find_str p s = (if starts_with p s then Some 0 else case s of [] \<Rightarrow> None | c # r \<Rightarrow> map_option Suc (find_str p r))"

declare find_str.simps [simp del]

lemma starts_with_Cons: "starts_with (c # p) s \<longleftrightarrow> (\<exists>r. s = c # r \<and> starts_with p r)"
  by (cases s) (auto simp: starts_with_def)

lemma find_str_None: "find_str p s = None \<longleftrightarrow> (\<forall>a b. s \<noteq> a @ p @ b)"
proof (induction p s rule: find_str.induct)
  case (1 p s)
  have split: "(\<exists>a b. s = a @ p @ b) \<longleftrightarrow> starts_with p s \<or> (\<exists>c r. s = c # r \<and> (\<exists>a b. r = a @ p @ b))"
  proof
    assume "\<exists>a b. s = a @ p @ b"
    then obtain a b where "s = a @ p @ b" by blast
    then show "starts_with p s \<or> (\<exists>c r. s = c # r \<and> (\<exists>a b. r = a @ p @ b))" by (cases a) auto
  next
    assume "starts_with p s \<or> (\<exists>c r. s = c # r \<and> (\<exists>a b. r = a @ p @ b))"
    then show "\<exists>a b. s = a @ p @ b"
    proof
      assume "starts_with p s"
      then have "s = [] @ p @ drop (length p) s" by (simp add: starts_with_def) (metis append_take_drop_id)
      then show ?thesis by blast
    qed (metis append_Cons)
  qed
  show ?case
  proof (cases s)
    case (Cons c r)
    then show ?thesis using 1 [of c r] split by (subst find_str.simps) auto
  qed (use split in \<open>subst find_str.simps, auto\<close>)
qed

text \<open>The first character of the text found occurs only there.\<close>

lemma find_str_first: "c \<notin> set a \<Longrightarrow> find_str (c # p) (a @ c # p @ b) = Some (length a)"
proof (induction a)
  case Nil
  then show ?case by (subst find_str.simps) (simp add: starts_with_def)
next
  case (Cons x a)
  then show ?case by (subst find_str.simps) (auto simp: starts_with_Cons)
qed

end
