(* ===== verification/Json.thy ===== *)
theory Json
  imports Cxx_Text
begin

text \<open>
  JSON documents and the operations of \<^verbatim>\<open>nlohmann::json\<close> (\<^verbatim>\<open>src/third_party/json.hpp\<close>, version 3.11.3)
  that the sources use.  An object is a list of members kept in key order, as the library's
  \<^verbatim>\<open>std::map\<close>.  An operation either gives a value, or throws one of the library's exceptions, or
  has no defined behaviour (the constant subscript of a missing member); the outcome type of
  \<open>Prelude\<close> keeps the three apart.
\<close>

section \<open>Documents\<close>

datatype json =
    JNull
  | JBool bool
  | JInt int
  | JFloat double
  | JStr string
  | JArr "json list"
  | JObj "(string \<times> json) list"

definition is_object :: "json \<Rightarrow> bool" where
  "is_object js \<longleftrightarrow> (case js of JObj m \<Rightarrow> True | _ \<Rightarrow> False)"

definition is_array :: "json \<Rightarrow> bool" where
  "is_array js \<longleftrightarrow> (case js of JArr xs \<Rightarrow> True | _ \<Rightarrow> False)"

definition is_string :: "json \<Rightarrow> bool" where
  "is_string js \<longleftrightarrow> (case js of JStr s \<Rightarrow> True | _ \<Rightarrow> False)"

definition is_boolean :: "json \<Rightarrow> bool" where
  "is_boolean js \<longleftrightarrow> (case js of JBool b \<Rightarrow> True | _ \<Rightarrow> False)"

definition is_number :: "json \<Rightarrow> bool" where
  "is_number js \<longleftrightarrow> (case js of JInt n \<Rightarrow> True | JFloat d \<Rightarrow> True | _ \<Rightarrow> False)"

lemma json_kinds [simp]:
  "is_object (JObj m)" "\<not> is_object JNull" "\<not> is_object (JBool b)" "\<not> is_object (JInt n)"
  "\<not> is_object (JFloat d)" "\<not> is_object (JStr s)" "\<not> is_object (JArr xs)"
  "is_array (JArr xs)" "\<not> is_array JNull" "\<not> is_array (JObj m)"
  "is_string (JStr s)" "\<not> is_string JNull" "\<not> is_string (JObj m)" "\<not> is_string (JArr xs)"
  "is_boolean (JBool b)" "is_number (JInt n)" "is_number (JFloat d)" "\<not> is_number JNull"
  by (simp_all add: is_object_def is_array_def is_string_def is_boolean_def is_number_def)

lemma is_object_iff: "is_object js \<longleftrightarrow> (\<exists>m. js = JObj m)"
  by (cases js) auto

text \<open>Conversions.  \<^verbatim>\<open>int\<close> accepts every number and booleans and drops the high bits.\<close>

definition to_int32 :: "int \<Rightarrow> int" where
  "to_int32 n = sint (word_of_int n :: 32 word)"

fun get_int :: "json \<Rightarrow> int outcome" where
  "get_int (JInt n) = Val (to_int32 n)"
| "get_int (JBool b) = Val (if b then 1 else 0)"
| "get_int (JFloat d) = (if \<bar>trunc d\<bar> \<le> 2147483647 then Val (trunc d) else Undef)"
| "get_int js = Throw"

fun get_double :: "json \<Rightarrow> double outcome" where
  "get_double (JInt n) = Val (rnd64 (of_int n))"
| "get_double (JFloat d) = Val d"
| "get_double js = Throw"

fun get_bool :: "json \<Rightarrow> bool outcome" where
  "get_bool (JBool b) = Val b"
| "get_bool js = Throw"

fun get_string :: "json \<Rightarrow> string outcome" where
  "get_string (JStr s) = Val s"
| "get_string js = Throw"

section \<open>Members and elements\<close>

definition jfind :: "string \<Rightarrow> json \<Rightarrow> json option" where
  "jfind key js = (case js of JObj m \<Rightarrow> map_of m key | _ \<Rightarrow> None)"

definition jcontains :: "string \<Rightarrow> json \<Rightarrow> bool" where
  "jcontains key js \<longleftrightarrow> jfind key js \<noteq> None"

lemma jfind_simps [simp]:
  "jfind k (JObj m) = map_of m k" "jfind k JNull = None" "jfind k (JArr xs) = None"
  "jfind k (JBool b) = None" "jfind k (JInt n) = None" "jfind k (JFloat d) = None" "jfind k (JStr s) = None"
  by (simp_all add: jfind_def)

text \<open>\<^verbatim>\<open>js.value(key, d)\<close> with the conversion of the type of \<open>d\<close>.\<close>

definition jvalue :: "(json \<Rightarrow> 'a outcome) \<Rightarrow> string \<Rightarrow> 'a \<Rightarrow> json \<Rightarrow> 'a outcome" where
  "jvalue get key d js =
    (if is_object js then case jfind key js of Some v \<Rightarrow> get v | None \<Rightarrow> Val d else Throw)"

text \<open>The subscripts: on a constant document, and as the target of an assignment.\<close>

definition jat :: "string \<Rightarrow> json \<Rightarrow> json outcome" where
  "jat key js = (if is_object js then case jfind key js of Some v \<Rightarrow> Val v | None \<Rightarrow> Undef else Throw)"

definition jat_index :: "nat \<Rightarrow> json \<Rightarrow> json outcome" where
  "jat_index i js = (case js of JArr xs \<Rightarrow> if i < length xs then Val (xs ! i) else Undef | _ \<Rightarrow> Throw)"

definition jput :: "string \<Rightarrow> json \<Rightarrow> json \<Rightarrow> json outcome" where
  "jput key v js =
    (case js of JObj m \<Rightarrow> Val (JObj (omap_put key v m)) | JNull \<Rightarrow> Val (JObj [(key, v)]) | _ \<Rightarrow> Throw)"

definition jsize :: "json \<Rightarrow> nat" where
  "jsize js = (case js of JNull \<Rightarrow> 0 | JArr xs \<Rightarrow> length xs | JObj m \<Rightarrow> length m | _ \<Rightarrow> 1)"

text \<open>Iteration, over the values and over keys with values.\<close>

definition jelems :: "json \<Rightarrow> json list" where
  "jelems js = (case js of JNull \<Rightarrow> [] | JArr xs \<Rightarrow> xs | JObj m \<Rightarrow> map snd m | _ \<Rightarrow> [js])"

definition jitems :: "json \<Rightarrow> (string \<times> json) list" where
  "jitems js =
    (case js of
       JNull \<Rightarrow> []
     | JArr xs \<Rightarrow> map (\<lambda>(i, v). (to_string (int i), v)) (zip [0..<length xs] xs)
     | JObj m \<Rightarrow> m
     | _ \<Rightarrow> [([], js)])"

text \<open>An object from its members, and well-formed documents: every object in key order.\<close>

definition obj :: "(string \<times> json) list \<Rightarrow> json" where
  "obj ms = JObj (fold (\<lambda>(k, v) m. if k \<in> fst ` set m then m else omap_put k v m) ms [])"

fun json_ok :: "json \<Rightarrow> bool" where
  "json_ok (JArr xs) = (\<forall>x \<in> set xs. json_ok x)"
| "json_ok (JObj m) = (omap_ok m \<and> (\<forall>(k, v) \<in> set m. json_ok v))"
| "json_ok js = True"

lemma omap_put_values: "set (omap_put k v m) \<subseteq> insert (k, v) (set m)"
  by (induction k v m rule: omap_put.induct) auto

lemma json_ok_put: "omap_ok m \<Longrightarrow> \<forall>(k, v) \<in> set m. json_ok v \<Longrightarrow> json_ok v \<Longrightarrow> json_ok (JObj (omap_put k v m))"
  using omap_put_values [of k v m] by auto

lemma jput_ok: "json_ok js \<Longrightarrow> json_ok v \<Longrightarrow> jput k v js = Val js' \<Longrightarrow> json_ok js'"
  using json_ok_put [of _ v k] by (cases js) (auto simp: jput_def omap_ok_def)

lemma jfind_ok: "json_ok js \<Longrightarrow> jfind k js = Some v \<Longrightarrow> json_ok v"
  by (cases js) (auto dest!: map_of_SomeD)

lemma jfind_jput: "json_ok js \<Longrightarrow> jput k v js = Val js' \<Longrightarrow> jfind k' js' = (if k' = k then Some v else jfind k' js)"
  by (cases js) (auto simp: jput_def map_of_omap_put)

text \<open>A member of an object built from its members: the first of that name.\<close>

lemma jfind_obj: "jfind key (obj ms) = map_of ms key"
proof -
  let ?add = "\<lambda>(k, v) m. if k \<in> fst ` set m then m else omap_put k v m"
  have "omap_ok m \<Longrightarrow> map_of (fold ?add ms m) key = (case map_of m key of Some v \<Rightarrow> Some v | None \<Rightarrow> map_of ms key)" for m
  proof (induction ms arbitrary: m)
    case (Cons x ms)
    obtain k v where x: "x = (k, v)" by (cases x)
    show ?case
    proof (cases "k \<in> fst ` set m")
      case True
      then have "map_of m k \<noteq> None" by (simp add: map_of_eq_None_iff)
      with True show ?thesis using Cons x by (auto split: option.split)
    next
      case False
      have "omap_ok (omap_put k v m)" using Cons.prems by (rule cmap.ok_put)
      moreover have "map_of m k = None" using False by (simp add: map_of_eq_None_iff)
      ultimately show ?thesis using False Cons x by (auto simp: map_of_omap_put split: option.split)
    qed
  qed (simp split: option.split)
  from this [of "[]"] show ?thesis by (simp add: obj_def omap_ok_def)
qed

end
