(* ===== verification/Config.thy ===== *)
theory Config
  imports Json
begin

text \<open>
  The configuration, \<^verbatim>\<open>src/src/config.h\<close> and \<^verbatim>\<open>src/src/config.cpp\<close>: a JSON document with defaults merged
  in, read and written through dotted paths.  Reading the file and parsing it are an argument of
  \<open>Load\<close>; writing it is a result, the document handed to the file.
\<close>

section \<open>Pointers into a document\<close>

text \<open>
  A pointer is a list of reference tokens.  Tokens index arrays as well, with the library's rules
  for numbers.
\<close>

definition array_index :: "string \<Rightarrow> nat outcome" where
  "array_index t =
    (if t = [] \<or> \<not> list_all is_digit t \<or> (1 < length t \<and> hd t = CHR ''0'') then Throw
     else if 18446744073709551615 \<le> digits_val 0 t then Throw else Val (nat (digits_val 0 t)))"

text \<open>\<open>pfind\<close> is \<^verbatim>\<open>contains\<close> followed by \<^verbatim>\<open>at\<close>: the value a pointer resolves to, if it does.\<close>

fun pfind :: "string list \<Rightarrow> json \<Rightarrow> json option outcome" where
  "pfind [] js = Val (Some js)"
| "pfind (t # ts) (JObj m) = (case map_of m t of None \<Rightarrow> Val None | Some v \<Rightarrow> pfind ts v)"
| "pfind (t # ts) (JArr xs) =
     (if t = ''-'' \<or> (length t = 1 \<and> \<not> is_digit (hd t))
         \<or> (1 < length t \<and> \<not> (is_digit (hd t) \<and> hd t \<noteq> CHR ''0'' \<and> list_all is_digit (tl t))) then Val None
      else bindO (array_index t) (\<lambda>i. if i < length xs then pfind ts (xs ! i) else Val None))"
| "pfind (t # ts) js = Val None"

text \<open>
  Assignment through a pointer creates what is missing.  The result says whether the assignment
  was reached; when an exception ends it, what was created before stays.
\<close>

definition as_container :: "string \<Rightarrow> json \<Rightarrow> json" where
  "as_container t js =
    (if js = JNull then (if list_all is_digit t \<or> t = ''-'' then JArr [] else JObj []) else js)"

fun pput :: "string list \<Rightarrow> json \<Rightarrow> json \<Rightarrow> bool \<times> json" where
  "pput [] v js = (True, v)"
| "pput (t # ts) v js =
    (case as_container t js of
       JObj m \<Rightarrow>
         (let (ok, x) = pput ts v (case map_of m t of None \<Rightarrow> JNull | Some x \<Rightarrow> x)
          in (ok, JObj (omap_put t x m)))
     | JArr xs \<Rightarrow>
         (case (if t = ''-'' then Val (length xs) else array_index t) of
            Val i \<Rightarrow>
              (let xs = xs @ replicate (Suc i - length xs) JNull; (ok, x) = pput ts v (xs ! i)
               in (ok, JArr (xs[i := x])))
          | _ \<Rightarrow> (False, JArr xs))
     | other \<Rightarrow> (False, other))"

fun unescape :: "string \<Rightarrow> string outcome" where
  "unescape [] = Val []"
| "unescape (c # cs) =
     (if c \<noteq> CHR ''~'' then bindO (unescape cs) (\<lambda>r. Val (c # r))
      else case cs of
        d # ds \<Rightarrow> if d = CHR ''0'' then bindO (unescape ds) (\<lambda>r. Val (CHR ''~'' # r))
                  else if d = CHR ''1'' then bindO (unescape ds) (\<lambda>r. Val (CHR ''/'' # r))
                  else Throw
      | [] \<Rightarrow> Throw)"

fun unescape_all :: "string list \<Rightarrow> string list outcome" where
  "unescape_all [] = Val []"
| "unescape_all (t # ts) = bindO (unescape t) (\<lambda>t. bindO (unescape_all ts) (\<lambda>ts. Val (t # ts)))"

definition Dotted :: "string \<Rightarrow> string" where
  "Dotted sPath = map (\<lambda>c. if c = CHR ''.'' then CHR ''/'' else c) sPath"

text \<open>The pointer of a dotted path: \<^verbatim>\<open>json_pointer("/" + Dotted(sPath))\<close>.\<close>

definition pointer :: "string \<Rightarrow> string list outcome" where
  "pointer sPath = unescape_all (split_on (CHR ''/'') (Dotted sPath))"

section \<open>Defaults\<close>

definition Defaults :: json where
  "Defaults = obj
    [(''device'', obj [(''label'', JStr ''pi-audio-node''), (''description'', JStr ''Raspberry Pi AES67 sender/receiver'')]),
     (''network'', obj [(''interface_primary'', JStr ''eth0''), (''interface_secondary'', JStr ''eth1'')]),
     (''ptp'', obj [(''domain'', JInt 0), (''announce_timeout_ms'', JInt 6000), (''delay_req_interval_ms'', JInt 1000)]),
     (''receiver'', obj
       [(''enabled'', JBool True), (''playout_delay_ms'', JInt 20), (''gain_db'', JFloat 0), (''monitor_left'', JInt (-1)),
        (''monitor_right'', JInt (-1)), (''alsa_device'', JStr ''default:CARD=sndrpihifiberry'')]),
     (''sender'', obj
       [(''label'', JStr ''''), (''enabled'', JBool False), (''source'', JStr ''tone''), (''tone_hz'', JFloat 440),
        (''tone_level_db'', JFloat (-18)), (''file'', JStr ''''), (''loop'', JBool True),
        (''multicast_primary'', JStr ''239.69.145.10''), (''multicast_secondary'', JStr ''239.69.146.10''),
        (''leg1_enabled'', JBool True), (''leg2_enabled'', JBool True), (''port'', JInt 5004),
        (''packet_time_us'', JInt 1000), (''payload_type'', JInt 96), (''channels'', JInt 2)]),
     (''nmos'', obj [(''enabled'', JBool True), (''http_port'', JInt 8080), (''registry_override'', JStr '''')]),
     (''web'', obj [(''port'', JInt 80), (''webui_path'', JStr ''/usr/local/share/pi-audio-node/webui''),
        (''audio_files_path'', JStr '''')])]"

fun MergeDefaults :: "json \<Rightarrow> json \<Rightarrow> json outcome"
  and merge_members :: "json \<Rightarrow> (string \<times> json) list \<Rightarrow> json outcome" where
  "MergeDefaults jsTarget (JObj ms) = merge_members jsTarget ms"
| "MergeDefaults jsTarget js = Val jsTarget"
| "merge_members jsTarget [] = Val jsTarget"
| "merge_members jsTarget ((sKey, jsValue) # ms) =
     (case jfind sKey jsTarget of
        None \<Rightarrow> bindO (jput sKey jsValue jsTarget) (\<lambda>t. merge_members t ms)
      | Some v \<Rightarrow>
          if is_object jsValue \<and> is_object v
          then bindO (MergeDefaults v jsValue) (\<lambda>v. bindO (jput sKey v jsTarget) (\<lambda>t. merge_members t ms))
          else merge_members jsTarget ms)"

section \<open>Operations\<close>

record Config =
  m_json :: json
  m_sPath :: string

text \<open>
  \<open>file\<close> is what the file of that name holds: \<open>None\<close> when it cannot be opened, and within that the
  result of the parser, \<open>None\<close> for a syntax error.
\<close>

definition Load :: "(string \<Rightarrow> json option option) \<Rightarrow> string \<Rightarrow> Config outcome" where
  "Load file sPath =
    (let js = (case file sPath of Some (Some js) \<Rightarrow> js | _ \<Rightarrow> JObj [])
     in bindO (MergeDefaults js Defaults) (\<lambda>js. Val \<lparr>m_json = js, m_sPath = sPath\<rparr>))"

definition Save :: "Config \<Rightarrow> (string \<times> json) option" where
  "Save c = (if m_sPath c = [] then None else Some (m_sPath c, m_json c))"

definition GetValue :: "(json \<Rightarrow> 'a outcome) \<Rightarrow> string \<Rightarrow> 'a \<Rightarrow> Config \<Rightarrow> 'a outcome" where
  "GetValue get sPath d c =
    bindO (pointer sPath) (\<lambda>p. bindO (pfind p (m_json c)) (\<lambda>r.
      case r of None \<Rightarrow> Val d | Some v \<Rightarrow> catchO (get v) d))"

text \<open>The configuration and what was saved, or an exception with the configuration it leaves.\<close>

definition SetValue :: "string \<Rightarrow> json \<Rightarrow> Config \<Rightarrow> bool \<times> Config \<times> (string \<times> json) option" where
  "SetValue sPath value c =
    (case pointer sPath of
       Val p \<Rightarrow>
         (let (ok, js) = pput p value (m_json c); c = c\<lparr>m_json := js\<rparr>
          in if ok then (True, c, Save c) else (False, c, None))
     | _ \<Rightarrow> (False, c, None))"

fun update_members :: "(string \<times> json) list \<Rightarrow> Config \<Rightarrow> bool \<times> Config" where
  "update_members [] c = (True, c)"
| "update_members ((sKey, v) # ms) c =
     (case pointer sKey of
        Val p \<Rightarrow>
          (let (ok, js) = pput p v (m_json c); c = c\<lparr>m_json := js\<rparr>
           in if ok then update_members ms c else (False, c))
      | _ \<Rightarrow> (False, c))"

definition Update_config :: "json \<Rightarrow> Config \<Rightarrow> bool \<times> Config \<times> (string \<times> json) option" where
  "Update_config jsUpdates c =
    (let (ok, c) = update_members (jitems jsUpdates) c
     in if ok then (True, c, Save c) else (False, c, None))"

section \<open>Merging\<close>

text \<open>Following member names through objects.\<close>

fun olookup :: "string list \<Rightarrow> json \<Rightarrow> json option" where
  "olookup [] js = Some js"
| "olookup (k # ks) js = (case jfind k js of None \<Rightarrow> None | Some v \<Rightarrow> olookup ks v)"

definition merged :: "json \<Rightarrow> json \<Rightarrow> json" where
  "merged v w = (case MergeDefaults v w of Val r \<Rightarrow> r | _ \<Rightarrow> v)"

definition overlay :: "json option \<Rightarrow> json option \<Rightarrow> json option" where
  "overlay x y =
    (case x of
       None \<Rightarrow> y
     | Some v \<Rightarrow> (case y of Some w \<Rightarrow> if is_object w \<and> is_object v then Some (merged v w) else Some v | None \<Rightarrow> Some v))"

definition merges :: "json \<Rightarrow> (string \<times> json) list \<Rightarrow> json \<Rightarrow> bool" where
  "merges t ms r \<longleftrightarrow> json_ok r \<and> is_object r \<and> (\<forall>k. jfind k r = overlay (jfind k t) (map_of ms k))"

lemma overlay_simps [simp]: "overlay None y = y" "overlay (Some v) None = Some v"
  by (simp_all add: overlay_def)

lemma merges_step:
  assumes "json_ok t" "is_object t" "json_ok x" "k \<notin> fst ` set ms" "Some x = overlay (jfind k t) (Some v)"
    and IH: "\<And>t'. jput k x t = Val t' \<Longrightarrow> json_ok t' \<Longrightarrow> is_object t' \<Longrightarrow> \<exists>r. merge_members t' ms = Val r \<and> merges t' ms r"
  shows "\<exists>r. bindO (jput k x t) (\<lambda>t. merge_members t ms) = Val r \<and> merges t ((k, v) # ms) r"
proof -
  obtain m where t: "t = JObj m" using assms(2) by (auto simp: is_object_iff)
  let ?t = "JObj (omap_put k x m)"
  have put: "jput k x t = Val ?t" by (simp add: jput_def t)
  have ok: "json_ok ?t" using jput_ok [OF assms(1,3) put] .
  from IH [OF put ok] obtain r where r: "merge_members ?t ms = Val r" "merges ?t ms r" by auto
  have "jfind k' r = overlay (jfind k' t) (map_of ((k, v) # ms) k')" for k'
  proof (cases "k' = k")
    case True
    have "map_of ms k = None" using assms(4) by (simp add: map_of_eq_None_iff)
    moreover have "jfind k ?t = Some x" using jfind_jput [OF assms(1) put, of k] by (simp only: simp_thms if_True)
    ultimately have "jfind k r = Some x" using r(2) by (simp only: merges_def overlay_simps)
    then show ?thesis using True assms(5) by (simp only: map_of_Cons_code simp_thms if_True)
  next
    case False
    then have "jfind k' ?t = jfind k' t" using jfind_jput [OF assms(1) put, of k'] by (simp only: if_False)
    then show ?thesis using r(2) False by (simp add: merges_def del: jfind_simps)
  qed
  then show ?thesis using put r by (auto simp: merges_def)
qed

lemma merge_spec:
  "json_ok t \<Longrightarrow> is_object t \<Longrightarrow> json_ok d \<Longrightarrow> d = JObj ms' \<Longrightarrow> \<exists>r. MergeDefaults t d = Val r \<and> merges t ms' r"
  "json_ok t \<Longrightarrow> is_object t \<Longrightarrow> distinct (map fst ms) \<Longrightarrow> \<forall>(k, v) \<in> set ms. json_ok v
    \<Longrightarrow> \<exists>r. merge_members t ms = Val r \<and> merges t ms r"
proof (induction t d and t ms arbitrary: ms' rule: MergeDefaults_merge_members.induct)
  case (1 t ms)
  then show ?case by (auto dest!: omap_ok_distinct)
next
  case (3 t)
  then show ?case by (auto simp: merges_def overlay_def split: option.splits)
next
  case (4 t k v ms)
  have nk: "k \<notin> fst ` set ms" "distinct (map fst ms)" "json_ok v" "\<forall>(k, v) \<in> set ms. json_ok v"
    using "4.prems" by auto
  show ?case
  proof (cases "jfind k t")
    case None
    have "\<exists>r. bindO (jput k v t) (\<lambda>t. merge_members t ms) = Val r \<and> merges t ((k, v) # ms) r"
      using "4.prems"(1,2) nk None "4.IH"(1) [OF None] by (intro merges_step) auto
    then show ?thesis using None by simp
  next
    case (Some x)
    show ?thesis
    proof (cases "is_object v \<and> is_object x")
      case True
      then obtain ms2 where v: "v = JObj ms2" by (auto simp: is_object_iff)
      have x: "json_ok x" using "4.prems"(1) Some by (rule jfind_ok)
      obtain r where r: "MergeDefaults x v = Val r" "json_ok r"
        using "4.IH"(2) [OF Some True x _ nk(3) v] True by (auto simp: merges_def)
      have "\<exists>r'. bindO (jput k r t) (\<lambda>t. merge_members t ms) = Val r' \<and> merges t ((k, v) # ms) r'"
        using "4.prems"(1,2) nk r(2) True Some r(1) "4.IH"(3) [OF Some True r(1)]
        by (intro merges_step) (auto simp: overlay_def merged_def)
      then show ?thesis using Some True r by simp
    next
      case False
      have "Some x = overlay (jfind k t) (Some v)" using False Some by (auto simp: overlay_def)
      moreover obtain r where r: "merge_members t ms = Val r" "merges t ms r"
        using "4.IH"(4) [OF Some False "4.prems"(1,2) nk(2,4)] by blast
      moreover have "map_of ms k = None" using nk(1) by (simp add: map_of_eq_None_iff)
      ultimately have "merges t ((k, v) # ms) r" using Some by (auto simp: merges_def)
      then show ?thesis using r False Some by auto
    qed
  qed
qed simp_all

lemma merge_keeps_leaf:
  "json_ok t \<Longrightarrow> is_object t \<Longrightarrow> json_ok d \<Longrightarrow> is_object d \<Longrightarrow> MergeDefaults t d = Val r
    \<Longrightarrow> olookup p t = Some v \<Longrightarrow> \<not> is_object v \<Longrightarrow> olookup p r = Some v"
proof (induction p arbitrary: t d r)
  case (Cons k ks)
  obtain ms where d: "d = JObj ms" using Cons.prems(4) by (auto simp: is_object_iff)
  have m: "jfind k' r = overlay (jfind k' t) (map_of ms k')" for k'
    using merge_spec(1) [OF Cons.prems(1,2,3) d] Cons.prems(5) by (auto simp: merges_def)
  obtain x where x: "jfind k t = Some x" "olookup ks x = Some v" using Cons.prems(6) by (auto split: option.splits)
  show ?case
  proof (cases "\<exists>w. map_of ms k = Some w \<and> is_object w \<and> is_object x")
    case False
    then have "jfind k r = Some x" using m [of k] x by (auto simp: overlay_def split: option.splits)
    then show ?thesis using x by simp
  next
    case True
    then obtain w where w: "map_of ms k = Some w" "is_object w" "is_object x" by blast
    have ok: "json_ok x" "json_ok w"
      using jfind_ok [OF Cons.prems(1) x(1)] jfind_ok [OF Cons.prems(3), of k w] w d by auto
    obtain ms2 where "w = JObj ms2" using w(2) by (auto simp: is_object_iff)
    then obtain r2 where "MergeDefaults x w = Val r2" using merge_spec(1) [OF ok(1) w(3) ok(2)] by blast
    then have "jfind k r = Some r2" "olookup ks r2 = Some v"
      using m [of k] x w Cons.IH [OF ok(1) w(3) ok(2) w(2) _ x(2) Cons.prems(7)] by (auto simp: overlay_def merged_def)
    then show ?thesis by simp
  qed
qed simp

text \<open>A default is hidden by a value of the target that is not an object, on the way to it or in its place.\<close>

definition hidden :: "string list \<Rightarrow> json \<Rightarrow> bool" where
  "hidden p t \<longleftrightarrow> (\<exists>n v. olookup (take n p) t = Some v \<and> \<not> is_object v)"

lemma merge_adds_default:
  "json_ok t \<Longrightarrow> is_object t \<Longrightarrow> json_ok d \<Longrightarrow> is_object d \<Longrightarrow> MergeDefaults t d = Val r
    \<Longrightarrow> olookup p d = Some v \<Longrightarrow> \<not> is_object v \<Longrightarrow> olookup p r = Some v \<or> hidden p t \<or> (\<exists>m. olookup p t = Some (JObj m))"
proof (induction p arbitrary: t d r)
  case (Cons k ks)
  obtain ms where d: "d = JObj ms" using Cons.prems(4) by (auto simp: is_object_iff)
  have m: "jfind k' r = overlay (jfind k' t) (map_of ms k')" for k'
    using merge_spec(1) [OF Cons.prems(1,2,3) d] Cons.prems(5) by (auto simp: merges_def)
  obtain w where w: "map_of ms k = Some w" "olookup ks w = Some v" using Cons.prems(6) d by (auto split: option.splits)
  show ?case
  proof (cases "jfind k t")
    case None
    then show ?thesis using m [of k] w by simp
  next
    case (Some x)
    show ?thesis
    proof (cases "is_object x \<and> is_object w")
      case False
      show ?thesis
      proof (cases "is_object x")
        case True
        then have "ks = []" using False w(2) by (cases ks; cases w) (auto split: option.splits)
        then show ?thesis using Some True by (auto simp: is_object_iff)
      next
        case False
        then have "hidden (k # ks) t" unfolding hidden_def using Some by (intro exI [of _ 1] exI [of _ x]) simp
        then show ?thesis by simp
      qed
    next
      case True
      have ok: "json_ok x" "json_ok w"
        using jfind_ok [OF Cons.prems(1) Some] jfind_ok [OF Cons.prems(3), of k w] w d by auto
      obtain ms2 where "w = JObj ms2" using True by (auto simp: is_object_iff)
      then obtain r2 where r2: "MergeDefaults x w = Val r2" using merge_spec(1) [OF ok(1) _ ok(2)] True by blast
      then have "jfind k r = Some r2" using m [of k] Some w True by (auto simp: overlay_def merged_def)
      moreover have "olookup ks r2 = Some v \<or> hidden ks x \<or> (\<exists>m. olookup ks x = Some (JObj m))"
        using Cons.IH [OF ok(1) _ ok(2) _ r2 w(2) Cons.prems(7)] True by blast
      moreover have "hidden (k # ks) t" if h: "hidden ks x"
      proof -
        obtain n y where "olookup (take n ks) x = Some y" "\<not> is_object y" using h by (auto simp: hidden_def)
        then show ?thesis unfolding hidden_def using Some by (intro exI [of _ "Suc n"] exI [of _ y]) simp
      qed
      ultimately show ?thesis using Some by auto
    qed
  qed
qed simp

lemma Defaults_ok: "json_ok Defaults" "is_object Defaults"
  by code_simp+

section \<open>Reading back what was written\<close>

lemma array_index_token:
  "array_index t = Val i \<Longrightarrow> t \<noteq> [] \<and> list_all is_digit t \<and> (1 < length t \<longrightarrow> hd t \<noteq> CHR ''0'')"
  by (auto simp: array_index_def split: if_splits)

lemma pfind_pput:
  "pput p v js = (True, js') \<Longrightarrow> json_ok js \<Longrightarrow> ''-'' \<notin> set p \<Longrightarrow> pfind p js' = Val (Some v)"
proof (induction p v js arbitrary: js' rule: pput.induct)
  case (2 t ts v js)
  have ok: "json_ok (as_container t js)" using "2.prems"(2) by (auto simp: as_container_def)
  show ?case
  proof (cases "as_container t js")
    case (JObj m)
    let ?x = "case map_of m t of None \<Rightarrow> JNull | Some x \<Rightarrow> x"
    obtain o1 x where x: "pput ts v ?x = (o1, x)" by fastforce
    then have js': "js' = JObj (omap_put t x m)" "o1" using "2.prems"(1) JObj by simp_all
    have "omap_ok m" "json_ok ?x" using ok JObj jfind_ok [of "JObj m" t] by (auto split: option.splits)
    then have "pfind ts x = Val (Some v)" using "2.IH"(2) [OF JObj] x js'(2) "2.prems"(3) by simp
    then show ?thesis using \<open>omap_ok m\<close> by (simp add: js' map_of_omap_put)
  next
    case (JArr xs)
    have nt: "t \<noteq> ''-''" using "2.prems"(3) by auto
    then obtain i where i: "array_index t = Val i"
      using "2.prems" JArr by (cases "array_index t") auto
    let ?xs = "xs @ replicate (Suc i - length xs) JNull"
    have len: "i < length ?xs" by simp
    obtain o1 x where x: "pput ts v (?xs ! i) = (o1, x)" by fastforce
    have e: "js' = JArr (?xs[i := x])" "o1" using "2.prems"(1) JArr i x nt by (simp_all add: Let_def)
    have "json_ok (?xs ! i)" using ok JArr by (auto simp: nth_append)
    then have f: "pfind ts x = Val (Some v)"
      using "2.IH"(1) [OF JArr _ refl] i x e(2) "2.prems"(3) nt by simp
    have "\<not> (t = ''-'' \<or> (length t = 1 \<and> \<not> is_digit (hd t))
         \<or> (1 < length t \<and> \<not> (is_digit (hd t) \<and> hd t \<noteq> CHR ''0'' \<and> list_all is_digit (tl t))))"
      using array_index_token [OF i] "2.prems"(3) by (cases t) auto
    then show ?thesis using i e f len by simp
  qed (use "2.prems"(1) in simp_all)
qed simp

section \<open>Properties\<close>

text \<open>
  C27. Loading: a configuration file that holds an object is always accepted; every value it sets
  is kept, and every default is in force unless the file sets that path, or one of its parents, to
  something else.
\<close>

theorem Load_merges:
  assumes "file sPath = Some (Some js)" "json_ok js" "is_object js"
  shows "\<exists>c. Load file sPath = Val c
    \<and> (\<forall>p v. olookup p js = Some v \<and> \<not> is_object v \<longrightarrow> olookup p (m_json c) = Some v)
    \<and> (\<forall>p v. olookup p Defaults = Some v \<and> \<not> is_object v \<longrightarrow>
         olookup p (m_json c) = Some v \<or> hidden p js \<or> (\<exists>m. olookup p js = Some (JObj m)))"
proof -
  obtain ds where "Defaults = JObj ds" using Defaults_ok(2) by (auto simp: is_object_iff)
  then obtain r where r: "MergeDefaults js Defaults = Val r"
    using merge_spec(1) [OF assms(2,3) Defaults_ok(1)] by blast
  then have "Load file sPath = Val \<lparr>m_json = r, m_sPath = sPath\<rparr>" using assms(1) by (simp add: Load_def)
  moreover note merge_keeps_leaf [OF assms(2,3) Defaults_ok r] merge_adds_default [OF assms(2,3) Defaults_ok r]
  ultimately show ?thesis by auto
qed

theorem Load_merges_witness:
  "\<exists>c. Load (\<lambda>f. Some (Some (obj [(''ptp'', obj [(''domain'', JInt 5)])]))) ''cfg'' = Val c
    \<and> olookup [''ptp'', ''domain''] (m_json c) = Some (JInt 5)"
proof -
  let ?js = "obj [(''ptp'', obj [(''domain'', JInt 5)])]"
  have "json_ok ?js" "is_object ?js" "olookup [''ptp'', ''domain''] ?js = Some (JInt 5)" by code_simp+
  then show ?thesis using Load_merges [of "\<lambda>f. Some (Some ?js)" "''cfg''" ?js] by (auto simp del: olookup.simps) 
qed

text \<open>
  A configuration file that is valid JSON but neither an object nor null ends loading with an
  exception: the handler covers the parser only, not the merge of the defaults.
\<close>

theorem Load_rejects:
  assumes "file sPath = Some (Some js)" "\<not> is_object js" "js \<noteq> JNull"
  shows "Load file sPath = Throw"
proof -
  obtain k v ms where D: "Defaults = JObj ((k, v) # ms)" by (simp add: Defaults_def obj_def)
  have "jput k' v' js = Throw" "jfind k' js = None" for k' v'
    using assms(2,3) by (cases js; simp add: jput_def)+
  then have "MergeDefaults js Defaults = Throw" unfolding D by simp
  then show ?thesis using assms(1) by (simp add: Load_def)
qed

theorem Load_rejects_witness: "Load (\<lambda>f. Some (Some (JArr []))) ''cfg'' = Throw"
  by (rule Load_rejects [of _ _ "JArr []"]) simp_all

text \<open>
  A value that was set through a dotted path is read back through it, converted as the reader
  asks or replaced by the reader's default when it does not convert, and the document saved is the
  one it was set in.
\<close>

theorem SetValue_GetValue:
  assumes "SetValue sPath v c = (True, c', saved)" "json_ok (m_json c)" "pointer sPath = Val p" "''-'' \<notin> set p"
  shows "GetValue get sPath d c' = catchO (get v) d \<and> saved = Save c' \<and> m_sPath c' = m_sPath c"
proof -
  obtain ok js where js: "pput p v (m_json c) = (ok, js)" by fastforce
  then have c': "ok" "c' = c\<lparr>m_json := js\<rparr>" "saved = Save c'"
    using assms(1,3) by (auto simp: SetValue_def Let_def split: if_splits)
  then have "pfind p js = Val (Some v)" using pfind_pput [OF _ assms(2,4)] js by simp
  then show ?thesis using assms(3) c' by (simp add: GetValue_def)
qed

theorem SetValue_GetValue_witness:
  "\<exists>c' saved. SetValue ''sender.port'' (JInt 5006) \<lparr>m_json = Defaults, m_sPath = ''cfg''\<rparr> = (True, c', saved)
    \<and> GetValue get_int ''sender.port'' 0 c' = Val (to_int32 5006)"
proof -
  obtain ok c' saved where s: "SetValue ''sender.port'' (JInt 5006) \<lparr>m_json = Defaults, m_sPath = ''cfg''\<rparr> = (ok, c', saved)"
    by (metis prod_cases3)
  have "fst (SetValue ''sender.port'' (JInt 5006) \<lparr>m_json = Defaults, m_sPath = ''cfg''\<rparr>)" by code_simp
  moreover have "pointer ''sender.port'' = Val [''sender'', ''port'']" by code_simp
  ultimately show ?thesis
    using SetValue_GetValue [of "''sender.port''" "JInt 5006" "\<lparr>m_json = Defaults, m_sPath = ''cfg''\<rparr>" c' saved _ get_int 0]
      s Defaults_ok by simp
qed

end
