(* ===== verification/Audio.thy ===== *)
theory Audio
  imports Cxx_Text
begin

text \<open>
  The audio components of \<^verbatim>\<open>src/src/audio\<close>: the peak meters (\<^verbatim>\<open>meters.h\<close>), the sample sources the
  sender reads from (\<^verbatim>\<open>sources.cpp\<close>) and the playback device (\<^verbatim>\<open>alsaout.cpp\<close>).  Audio is a list of
  interleaved stereo samples, a sample the rational value of a \<^verbatim>\<open>float\<close>.  The functions of the C
  mathematics library whose last bit the standard leaves open (\<open>pow\<close>, \<open>sin\<close>), the sample rate
  converter, the file decoders and the ALSA library are arguments.
\<close>

section \<open>Peak meters\<close>

record Meters =
  m_fLeft :: float32
  m_fRight :: float32

definition init_meters :: Meters where
  "init_meters = \<lparr>m_fLeft = 0, m_fRight = 0\<rparr>"

text \<open>\<open>feed_peaks p i n\<close> is the loop over the remaining \<open>n\<close> frames from frame \<open>i\<close> on.\<close>

fun feed_peaks :: "float32 list \<Rightarrow> nat \<Rightarrow> nat \<Rightarrow> float32 \<Rightarrow> float32 \<Rightarrow> (float32 \<times> float32) option" where
  "feed_peaks p i 0 fPeakL fPeakR = Some (fPeakL, fPeakR)"
| "feed_peaks p i (Suc n) fPeakL fPeakR = do {
     l \<leftarrow> rd p (i * 2);
     r \<leftarrow> rd p (i * 2 + 1);
     feed_peaks p (Suc i) n (max fPeakL \<bar>l\<bar>) (max fPeakR \<bar>r\<bar>)
   }"

definition Update :: "float32 \<Rightarrow> float32 \<Rightarrow> float32 \<Rightarrow> float32" where
  "Update fCurrent fPeak fDecay = max fPeak (rnd32 (fCurrent * fDecay))"

text \<open>The exponent of the decay, every operation in single precision.\<close>

definition decay_exponent :: "nat \<Rightarrow> float32" where
  "decay_exponent nFrames
     = rnd32 (rnd32 (rnd32 (- rnd32 (133/10) * rnd32 (of_nat nFrames)) / 48000) / 20)"

definition Feed ::
  "(float32 \<Rightarrow> float32 \<Rightarrow> float32) \<Rightarrow> float32 list \<Rightarrow> nat \<Rightarrow> Meters \<Rightarrow> Meters option" where
  "Feed powf pInterleaved nFrames m = do {
     (fPeakL, fPeakR) \<leftarrow> feed_peaks pInterleaved 0 nFrames 0 0;
     let fDecay = powf 10 (decay_exponent nFrames);
     Some (m\<lparr>m_fLeft := Update (m_fLeft m) fPeakL fDecay, m_fRight := Update (m_fRight m) fPeakR fDecay\<rparr>)
   }"

definition Reset :: "Meters \<Rightarrow> Meters" where
  "Reset m = m\<lparr>m_fLeft := 0, m_fRight := 0\<rparr>"

section \<open>Playback device\<close>

record 'p AlsaOut =
  m_pPcm :: "'p option"
  m_nUnderruns :: u64
  m_vConvert :: "32 word list"

definition init_alsa :: "'p AlsaOut" where
  "init_alsa = \<lparr>m_pPcm = None, m_nUnderruns = 0, m_vConvert = []\<rparr>"

definition clamp :: "'a::linorder \<Rightarrow> 'a \<Rightarrow> 'a \<Rightarrow> 'a" where
  "clamp x lo hi = (if x < lo then lo else if hi < x then hi else x)"

definition convert_sample :: "float32 \<Rightarrow> float32 \<Rightarrow> 32 word" where
  "convert_sample fGain x
     = word_of_int (trunc (rnd32 (clamp (rnd32 (x * fGain)) (-1) 1 * 2147483392)))"

text \<open>\<open>vector::resize\<close> to a larger size appends zeros.\<close>

definition resize_up :: "nat \<Rightarrow> 'a::zero list \<Rightarrow> 'a list" where
  "resize_up n xs = (if length xs < n then xs @ replicate (n - length xs) 0 else xs)"

fun convert_loop :: "float32 \<Rightarrow> float32 list \<Rightarrow> nat \<Rightarrow> nat \<Rightarrow> 32 word list \<Rightarrow> 32 word list option" where
  "convert_loop fGain p i 0 v = Some v"
| "convert_loop fGain p i (Suc n) v = do {
     x \<leftarrow> rd p i;
     v \<leftarrow> wr v i (convert_sample fGain x);
     convert_loop fGain p (Suc i) n v
   }"

text \<open>
  The loop around \<^verbatim>\<open>snd_pcm_writei\<close>.  A device that never accepts a frame keeps the loop going, so
  the loop is a partial function: \<open>None\<close> stands for not returning.  The result is the return value,
  the underrun counter and the device.
\<close>

partial_function (option) write_loop ::
  "('p \<Rightarrow> 32 word list \<Rightarrow> nat \<Rightarrow> int \<times> 'p) \<Rightarrow> ('p \<Rightarrow> int \<Rightarrow> int \<times> 'p)
    \<Rightarrow> 32 word list \<Rightarrow> nat \<Rightarrow> nat \<Rightarrow> u64 \<Rightarrow> 'p \<Rightarrow> (bool \<times> u64 \<times> 'p) option" where
  "write_loop writei recover v nFrames nWritten nUnder p =
    (if nWritten < nFrames then
       let (nResult, p) = writei p (drop (nWritten * 2) v) (nFrames - nWritten) in
       if nResult < 0 then
         let (nResult, p) = recover p nResult in
         if nResult < 0 then Some (False, nUnder + 1, p)
         else write_loop writei recover v nFrames nWritten (nUnder + 1) p
       else write_loop writei recover v nFrames (nWritten + nat nResult) nUnder p
     else Some (True, nUnder, p))"

declare write_loop.simps [code]

text \<open>\<open>pow\<close> is the C library's function on doubles.\<close>

definition AlsaWrite ::
  "('p \<Rightarrow> 32 word list \<Rightarrow> nat \<Rightarrow> int \<times> 'p) \<Rightarrow> ('p \<Rightarrow> int \<Rightarrow> int \<times> 'p) \<Rightarrow> (double \<Rightarrow> double \<Rightarrow> double)
    \<Rightarrow> float32 list \<Rightarrow> nat \<Rightarrow> double \<Rightarrow> 'p AlsaOut \<Rightarrow> (bool \<times> 'p AlsaOut) option" where
  "AlsaWrite writei recover pow pInterleaved nFrames dGainDb a =
    (case m_pPcm a of
       None \<Rightarrow> Some (False, a)
     | Some p \<Rightarrow> do {
         let fGain = rnd32 (pow 10 (rnd64 (dGainDb / 20)));
         v \<leftarrow> convert_loop fGain pInterleaved 0 (nFrames * 2) (resize_up (nFrames * 2) (m_vConvert a));
         (ok, nUnder, p) \<leftarrow> write_loop writei recover v nFrames 0 (m_nUnderruns a) p;
         Some (ok, a\<lparr>m_pPcm := Some p, m_nUnderruns := nUnder, m_vConvert := v\<rparr>)
       })"

definition DelayFrames :: "('p \<Rightarrow> int \<times> int) \<Rightarrow> 'p AlsaOut \<Rightarrow> int" where
  "DelayFrames pcm_delay a =
    (case m_pPcm a of
       None \<Rightarrow> 0
     | Some p \<Rightarrow> (let (nError, nDelay) = pcm_delay p in if nError < 0 then 0 else nDelay))"

text \<open>
  Opening the device: \<open>pcm_open\<close> gives the handle or an error, \<open>hw_params\<close> and \<open>set_params\<close> install
  the explicit and the generic layout, \<open>sw_params\<close> sets the start threshold.  The handle of an
  earlier device is closed first, whatever follows.
\<close>

definition AlsaOpen ::
  "(string \<Rightarrow> 'p option) \<Rightarrow> ('p \<Rightarrow> int \<times> 'p) \<Rightarrow> ('p \<Rightarrow> int \<times> 'p) \<Rightarrow> ('p \<Rightarrow> 'p)
    \<Rightarrow> string \<Rightarrow> 'p AlsaOut \<Rightarrow> bool \<times> 'p AlsaOut" where
  "AlsaOpen pcm_open hw_params set_params sw_params sDevice a =
    (case pcm_open sDevice of
       None \<Rightarrow> (False, a\<lparr>m_pPcm := None\<rparr>)
     | Some p \<Rightarrow>
         (let (nError, p) = hw_params p in
          if nError < 0 then
            let (nError, p) = set_params p in
            if nError < 0 then (False, a\<lparr>m_pPcm := None\<rparr>) else (True, a\<lparr>m_pPcm := Some p\<rparr>)
          else (True, a\<lparr>m_pPcm := Some (sw_params p)\<rparr>)))"

definition AlsaClose :: "'p AlsaOut \<Rightarrow> 'p AlsaOut" where
  "AlsaClose a = a\<lparr>m_pPcm := None\<rparr>"

section \<open>Sample sources\<close>

definition two_pi :: double where
  "two_pi = 884279719003555 / 140737488355328" \<comment> \<open>\<^verbatim>\<open>2.0*M_PI\<close>: the double \<^verbatim>\<open>M_PI\<close> is this over two\<close>

datatype Source =
    ToneSource (tone_frequency: double) (tone_amplitude: double) (tone_phase: double)
  | SweepSource (sweep_amplitude: double) (sweep_phase: double) (sweep_position: nat)
  | MemorySource (mem_samples: "float32 list") (mem_description: string) (mem_loop: bool) (mem_position: nat)

definition advance_phase :: "double \<Rightarrow> double \<Rightarrow> double" where
  "advance_phase dFreq dPhase =
     (let dPhase = rnd64 (dPhase + rnd64 (rnd64 (two_pi * dFreq) / 48000))
      in if two_pi < dPhase then rnd64 (dPhase - two_pi) else dPhase)"

definition tone_sample :: "(double \<Rightarrow> double) \<Rightarrow> double \<Rightarrow> double \<Rightarrow> float32" where
  "tone_sample c_sin dAmplitude dPhase = rnd32 (rnd64 (dAmplitude * c_sin dPhase))"

fun tone_read :: "(double \<Rightarrow> double) \<Rightarrow> double \<Rightarrow> double \<Rightarrow> nat \<Rightarrow> double \<Rightarrow> float32 list \<times> double" where
  "tone_read c_sin dFrequency dAmplitude 0 dPhase = ([], dPhase)"
| "tone_read c_sin dFrequency dAmplitude (Suc n) dPhase =
     (let fSample = tone_sample c_sin dAmplitude dPhase;
          (out, dPhase) = tone_read c_sin dFrequency dAmplitude n (advance_phase dFrequency dPhase)
      in (fSample # fSample # out, dPhase))"

definition sweep_frequency :: "(double \<Rightarrow> double \<Rightarrow> double) \<Rightarrow> nat \<Rightarrow> double" where
  "sweep_frequency pow nPosition = rnd64 (20 * pow 1000 (rnd64 (rnd64 (of_nat nPosition / 48000) / 10)))"

fun sweep_read ::
  "(double \<Rightarrow> double) \<Rightarrow> (double \<Rightarrow> double \<Rightarrow> double) \<Rightarrow> double \<Rightarrow> nat \<Rightarrow> double \<Rightarrow> nat
    \<Rightarrow> float32 list \<times> double \<times> nat" where
  "sweep_read c_sin pow dAmplitude 0 dPhase nPosition = ([], dPhase, nPosition)"
| "sweep_read c_sin pow dAmplitude (Suc n) dPhase nPosition =
     (let dPhase = advance_phase (sweep_frequency pow nPosition) dPhase;
          fSample = tone_sample c_sin dAmplitude dPhase;
          nPosition = (if 480000 \<le> Suc nPosition then 0 else Suc nPosition);
          (out, st) = sweep_read c_sin pow dAmplitude n dPhase nPosition
      in (fSample # fSample # out, st))"

text \<open>
  The copy loop of \<^verbatim>\<open>MemorySource::Read\<close>; \<open>out\<close> is what is written of the output buffer.  Every
  round copies at least one sample.
\<close>

function mem_read :: "float32 list \<Rightarrow> bool \<Rightarrow> nat \<Rightarrow> nat \<Rightarrow> float32 list \<Rightarrow> bool \<times> float32 list \<times> nat" where
  "mem_read vs bLoop nWanted nPosition out =
    (if length out < nWanted then
       if length vs \<le> nPosition \<and> (\<not> bLoop \<or> vs = []) then
         (False, out @ replicate (nWanted - length out) 0, nPosition)
       else
         let nPosition = (if length vs \<le> nPosition then 0 else nPosition);
             nChunk = min (nWanted - length out) (length vs - nPosition)
         in mem_read vs bLoop nWanted (nPosition + nChunk) (out @ take nChunk (drop nPosition vs))
     else (True, out, nPosition))"
  by pat_completeness auto

termination
  by (relation "measure (\<lambda>(vs, bLoop, nWanted, nPosition, out). nWanted - length out)")
    (auto simp: min_def simp flip: length_greater_0_conv split: if_splits)

declare mem_read.simps [simp del]

definition Read ::
  "(double \<Rightarrow> double) \<Rightarrow> (double \<Rightarrow> double \<Rightarrow> double) \<Rightarrow> nat \<Rightarrow> Source \<Rightarrow> bool \<times> float32 list \<times> Source" where
  "Read c_sin pow nFrames src =
    (case src of
       ToneSource f a ph \<Rightarrow> (let (out, ph) = tone_read c_sin f a nFrames ph in (True, out, ToneSource f a ph))
     | SweepSource a ph pos \<Rightarrow>
         (let (out, ph, pos) = sweep_read c_sin pow a nFrames ph pos in (True, out, SweepSource a ph pos))
     | MemorySource vs d bLoop pos \<Rightarrow>
         (let (ok, out, pos) = mem_read vs bLoop (nFrames * 2) pos [] in (ok, out, MemorySource vs d bLoop pos)))"

definition Describe :: "Source \<Rightarrow> string" where
  "Describe src =
    (case src of
       ToneSource f a ph \<Rightarrow> ''tone '' @ to_string (trunc f) @ '' Hz''
     | SweepSource a ph pos \<Rightarrow> ''sweep 20 Hz - 20 kHz''
     | MemorySource vs d bLoop pos \<Rightarrow> d)"

definition CreateTone :: "(double \<Rightarrow> double \<Rightarrow> double) \<Rightarrow> double \<Rightarrow> double \<Rightarrow> Source" where
  "CreateTone pow dFrequencyHz dLevelDb = ToneSource dFrequencyHz (pow 10 (rnd64 (dLevelDb / 20))) 0"

definition CreateSweep :: "(double \<Rightarrow> double \<Rightarrow> double) \<Rightarrow> double \<Rightarrow> Source" where
  "CreateSweep pow dLevelDb = SweepSource (pow 10 (rnd64 (dLevelDb / 20))) 0 0"

section \<open>Files\<close>

fun to_stereo :: "float32 list \<Rightarrow> nat \<Rightarrow> nat \<Rightarrow> nat \<Rightarrow> float32 list option" where
  "to_stereo pIn nChannels i 0 = Some []"
| "to_stereo pIn nChannels i (Suc n) = do {
     (l, r) \<leftarrow> (if nChannels = 1 then do { x \<leftarrow> rd pIn i; Some (x, x) }
               else do { l \<leftarrow> rd pIn (i * nChannels); r \<leftarrow> rd pIn (i * nChannels + 1); Some (l, r) });
     rest \<leftarrow> to_stereo pIn nChannels (Suc i) n;
     Some (l # r # rest)
   }"

definition ToStereo :: "float32 list \<Rightarrow> nat \<Rightarrow> nat \<Rightarrow> float32 list option" where
  "ToStereo pIn nFrames nChannels = to_stereo pIn nChannels 0 nFrames"

text \<open>
  \<open>src_simple\<close> is libsamplerate's converter: from the input, the ratio and the room for output
  frames it gives the output samples, or \<open>None\<close> for an error.  A rate of zero makes the ratio
  infinite, and the conversion of an infinite or negative size is undefined: \<open>None\<close>.
\<close>

definition Resample ::
  "(float32 list \<Rightarrow> double \<Rightarrow> nat \<Rightarrow> float32 list option) \<Rightarrow> float32 list \<Rightarrow> int \<Rightarrow> float32 list option" where
  "Resample src_simple vIn nInRate =
    (if nInRate = 48000 then Some vIn
     else if nInRate = 0 then None
     else
       let dRatio = rnd64 (48000 / of_int nInRate);
           dSize = rnd64 (rnd64 (of_nat (length vIn)) * dRatio)
       in if dSize \<le> -1 then None
          else case src_simple vIn dRatio ((nat (trunc dSize) + 16) div 2) of None \<Rightarrow> Some vIn | Some vOut \<Rightarrow> Some vOut)"

text \<open>
  The decoders: \<open>mp3\<close> gives the 16-bit samples read, the channel count and the rate of a file,
  \<open>wav\<close> the decoded float samples, the frames read, the channel count and the rate; \<open>None\<close> when the
  file cannot be opened.  The outer \<open>None\<close> of the result stands for a division by zero or a read
  outside the decoded samples, the inner one for the null pointer.
\<close>

definition has_suffix :: "string \<Rightarrow> string \<Rightarrow> bool" where
  "has_suffix s suf \<longleftrightarrow> length suf \<le> length s \<and> drop (length s - length suf) s = suf"

definition base_name :: "string \<Rightarrow> string" where
  "base_name sPath = rev (takeWhile (\<lambda>c. c \<noteq> CHR ''/'') (rev sPath))"

definition CreateFile ::
  "(string \<Rightarrow> (16 word list \<times> nat \<times> int) option) \<Rightarrow> (string \<Rightarrow> (float32 list \<times> nat \<times> nat \<times> int) option)
    \<Rightarrow> (float32 list \<Rightarrow> double \<Rightarrow> nat \<Rightarrow> float32 list option) \<Rightarrow> string \<Rightarrow> bool \<Rightarrow> Source option option" where
  "CreateFile mp3 wav src_simple sPath bLoop =
    (if 4 < length sPath \<and> has_suffix sPath ''.mp3'' then
       case mp3 sPath of
         None \<Rightarrow> Some None
       | Some (vPcm, nChannels, nRate) \<Rightarrow>
           if nChannels = 0 \<or> nRate = 0 then None
           else do {
             vStereo \<leftarrow> ToStereo (map (\<lambda>w. rnd32 (rnd32 (of_int (sint w)) / 32768)) vPcm)
                         (length vPcm div nChannels) nChannels;
             v \<leftarrow> Resample src_simple vStereo nRate;
             Some (Some (MemorySource v (base_name sPath) bLoop 0))
           }
     else case wav sPath of
         None \<Rightarrow> Some None
       | Some (vFrames, nFrames, nChannels, nRate) \<Rightarrow> do {
             vStereo \<leftarrow> ToStereo vFrames nFrames nChannels;
             v \<leftarrow> Resample src_simple vStereo nRate;
             Some (Some (MemorySource v (base_name sPath) bLoop 0))
           })"

section \<open>What the components do\<close>

subsection \<open>Meters\<close>

definition channel :: "nat \<Rightarrow> float32 list \<Rightarrow> nat \<Rightarrow> float32 list" where
  "channel c p n = map (\<lambda>i. p ! (i * 2 + c)) [0..<n]"

lemma feed_peaks_fold:
  "2 * (i + n) \<le> length p \<Longrightarrow> feed_peaks p i n l r
     = Some (fold (\<lambda>j m. max m \<bar>p ! (j * 2)\<bar>) [i..<i + n] l, fold (\<lambda>j m. max m \<bar>p ! (j * 2 + 1)\<bar>) [i..<i + n] r)"
proof (induction n arbitrary: i l r)
  case (Suc n)
  have "[i..<i + Suc n] = i # [Suc i..<Suc i + n]"
    using upt_conv_Cons [of i "i + Suc n"] by simp
  with Suc show ?case by (simp add: rd_simps)
qed simp

lemma fold_max_abs: "fold (\<lambda>j m. max m \<bar>f j\<bar>) xs m0 = Max (insert m0 ((\<lambda>j. \<bar>f j\<bar>) ` set xs))"
  for f :: "nat \<Rightarrow> rat"
proof (induction xs arbitrary: m0)
  case (Cons x xs)
  then show ?case
    by (cases "xs = []") (simp_all add: max.assoc max.left_commute max.commute)
qed simp

text \<open>The peak of a channel: the largest magnitude of its samples, zero for no samples.\<close>

definition peak :: "float32 list \<Rightarrow> float32" where
  "peak xs = Max (insert 0 (abs ` set xs))"

lemma peak_upper: "x \<in> set xs \<Longrightarrow> \<bar>x\<bar> \<le> peak xs"
  by (simp add: peak_def)

lemma peak_nonneg: "0 \<le> peak xs"
  by (simp add: peak_def)

lemma feed_peaks_channels:
  assumes "2 * n \<le> length p"
  shows "feed_peaks p 0 n 0 0 = Some (peak (channel 0 p n), peak (channel 1 p n))"
proof -
  have "set (channel c p n) = (\<lambda>j. p ! (j * 2 + c)) ` {0..<n}" for c by (simp add: channel_def)
  with assms show ?thesis
    using feed_peaks_fold [of 0 n p 0 0]
    by (simp add: peak_def fold_max_abs image_image fold_max_abs [where f = "\<lambda>j. p ! Suc (j * 2)"])
qed

lemma Feed_eq:
  "2 * n \<le> length p \<Longrightarrow> Feed powf p n m = Some (m
     \<lparr>m_fLeft := Update (m_fLeft m) (peak (channel 0 p n)) (powf 10 (decay_exponent n)),
      m_fRight := Update (m_fRight m) (peak (channel 1 p n)) (powf 10 (decay_exponent n))\<rparr>)"
  by (simp add: Feed_def feed_peaks_channels Let_def)

subsection \<open>Memory sources\<close>

text \<open>The endless repetition of a list, from position \<open>p\<close> on.\<close>

definition cycle_from :: "'a list \<Rightarrow> nat \<Rightarrow> nat \<Rightarrow> nat \<Rightarrow> 'a list" where
  "cycle_from vs p a b = map (\<lambda>i. vs ! ((p + i) mod length vs)) [a..<b]"

lemma length_cycle_from [simp]: "length (cycle_from vs p a b) = b - a"
  by (simp add: cycle_from_def)

lemma cycle_chunk:
  assumes "q < length vs" "q mod length vs = (p + a) mod length vs" "n \<le> length vs - q"
  shows "take n (drop q vs) = cycle_from vs p a (a + n)"
proof (rule nth_equalityI)
  fix i assume "i < length (take n (drop q vs))"
  then have i: "i < n" using assms by simp
  have "(p + (a + i)) mod length vs = ((p + a) mod length vs + i) mod length vs"
    by (simp add: mod_add_left_eq add.assoc)
  also have "\<dots> = q + i" using assms i by simp
  finally show "take n (drop q vs) ! i = cycle_from vs p a (a + n) ! i"
    using i assms by (simp add: cycle_from_def add.commute [of a])
qed (use assms in \<open>simp add: cycle_from_def\<close>)

lemma cycle_append: "a \<le> b \<Longrightarrow> b \<le> c \<Longrightarrow> cycle_from vs p a b @ cycle_from vs p b c = cycle_from vs p a c"
  unfolding cycle_from_def by (metis map_append le_iff_add upt_add_eq_append)

lemma mem_read_looping:
  assumes "vs \<noteq> []" "length out \<le> n" "q \<le> length vs"
    and "out = cycle_from vs p 0 (length out)" "q mod length vs = (p + length out) mod length vs"
  shows "\<exists>q'. mem_read vs True n q out = (True, cycle_from vs p 0 n, q') \<and> q' \<le> length vs
    \<and> q' mod length vs = (p + n) mod length vs"
  using assms
proof (induction vs True n q out rule: mem_read.induct)
  case (1 vs n q out)
  show ?case
  proof (cases "length out < n")
    case False
    then have "n = length out" using "1.prems" by simp
    with "1.prems" False show ?thesis by (subst mem_read.simps) auto
  next
    case True
    define q0 where "q0 = (if length vs \<le> q then 0 else q)"
    define k where "k = min (n - length out) (length vs - q0)"
    let ?out = "out @ take k (drop q0 vs)"
    have q0: "q0 < length vs" "q0 mod length vs = (p + length out) mod length vs"
      using "1.prems" by (auto simp: q0_def)
    have k: "k \<le> length vs - q0" "k \<le> n - length out" by (auto simp: k_def)
    have len: "length ?out = length out + k" using k q0 by simp
    have "take k (drop q0 vs) = cycle_from vs p (length out) (length out + k)"
      using q0 k by (intro cycle_chunk)
    then have out: "?out = cycle_from vs p 0 (length ?out)"
      using "1.prems"(4) cycle_append [of 0 "length out" "length out + k" vs p] len by simp
    have pos: "(q0 + k) mod length vs = (p + length ?out) mod length vs"
      unfolding len using q0(2) by (metis add.assoc mod_add_left_eq)
    have eq: "mem_read vs True n q out = mem_read vs True n (q0 + k) ?out"
      using True "1.prems"(1) by (subst mem_read.simps) (simp add: q0_def k_def Let_def)
    have "length ?out \<le> n" "q0 + k \<le> length vs" using True len k q0 by linarith+
    then show ?thesis
      unfolding eq using "1.prems"(1) out pos by (intro "1.hyps" [OF True _ q0_def k_def]) simp_all
  qed
qed

lemma mem_read_once:
  assumes "length out \<le> n" "q \<le> length vs"
  shows "mem_read vs False n q out =
    (n - length out \<le> length vs - q, take n (out @ drop q vs @ replicate n 0),
     min (length vs) (q + (n - length out)))"
  using assms
proof (induction vs False n q out rule: mem_read.induct)
  case (1 vs n q out)
  show ?case
  proof (cases "length out < n \<and> q < length vs")
    case False
    with "1.prems" show ?thesis by (subst mem_read.simps) (auto simp: min_def)
  next
    case True
    define k where "k = min (n - length out) (length vs - q)"
    let ?out = "out @ take k (drop q vs)"
    have k: "k \<le> length vs - q" "k \<le> n - length out" "k = n - length out \<or> k = length vs - q"
      by (auto simp: k_def)
    have eq: "mem_read vs False n q out = mem_read vs False n (q + k) ?out"
      using True by (subst mem_read.simps) (simp add: k_def Let_def)
    have "mem_read vs False n (q + k) ?out =
      (n - length ?out \<le> length vs - (q + k), take n (?out @ drop (q + k) vs @ replicate n 0),
       min (length vs) (q + k + (n - length ?out)))"
      using True k by (intro "1.hyps" [of q k]) (auto simp: k_def)
    moreover have "take k (drop q vs) @ drop (q + k) vs = drop q vs"
      using append_take_drop_id [of k "drop q vs"] by (simp add: add.commute)
    then have "?out @ drop (q + k) vs @ replicate n 0 = out @ drop q vs @ replicate n 0"
      by (metis append.assoc)
    moreover have "n - length ?out \<le> length vs - (q + k) \<longleftrightarrow> n - length out \<le> length vs - q"
      "q + k + (n - length ?out) = q + (n - length out)"
      using k True \<open>k = n - length out \<or> k = length vs - q\<close> by auto
    ultimately show ?thesis unfolding eq by (simp only:)
  qed
qed

subsection \<open>The contract of a source\<close>

text \<open>
  What \<^verbatim>\<open>sources.h\<close> promises of \<^verbatim>\<open>Source::Read\<close> and the sender relies on: it fills exactly the
  frames asked for.
\<close>

locale sample_source =
  fixes read :: "nat \<Rightarrow> 's \<Rightarrow> bool \<times> float32 list \<times> 's"
  assumes fills: "read n s = (ok, out, s') \<Longrightarrow> length out = 2 * n"
begin

lemma feed_ok: "read n s = (ok, out, s') \<Longrightarrow> Feed powf out n m \<noteq> None"
  by (simp add: Feed_eq fills)

lemma sample_rd: "read n s = (ok, out, s') \<Longrightarrow> i < 2 * n \<Longrightarrow> rd out i = Some (out ! i)"
  by (simp add: rd_simps fills)

end

lemma tone_read_length: "length (fst (tone_read c_sin f a n ph)) = 2 * n"
  by (induction n arbitrary: ph) (simp_all add: Let_def case_prod_unfold)

lemma sweep_read_length: "length (fst (sweep_read c_sin pow a n ph pos)) = 2 * n"
  by (induction n arbitrary: ph pos) (simp_all add: Let_def case_prod_unfold)

lemma mem_read_length: "length out \<le> n \<Longrightarrow> length (fst (snd (mem_read vs bLoop n q out))) = n"
proof (induction vs bLoop n q out rule: mem_read.induct)
  case (1 vs bLoop n q out)
  show ?case
  proof (cases "length out < n \<and> \<not> (length vs \<le> q \<and> (\<not> bLoop \<or> vs = []))")
    case False
    with "1.prems" show ?thesis by (subst mem_read.simps) auto
  next
    case True
    then show ?thesis
      using "1.IH" [OF _ _ refl refl] by (subst mem_read.simps) (auto simp: Let_def)
  qed
qed

interpretation source: sample_source "Read c_sin pow" for c_sin pow
proof
  fix n s ok out s'
  assume "Read c_sin pow n s = (ok, out, s')"
  then show "length out = 2 * n"
    using tone_read_length [of c_sin] sweep_read_length [of c_sin pow] mem_read_length [of "[]"]
    by (cases s) (auto simp: Read_def Let_def case_prod_unfold mult.commute)
qed

subsection \<open>Playback\<close>

lemma representable_one: "representable 24 (-149) 1" "representable 24 (-149) (-1)"
  using representable_int [of 1 24 "-149", simplified] representable_int [of "-1" 24 "-149", simplified] by auto

lemma representable_full_scale:
  "representable 24 (-149) 2147483392" "representable 24 (-149) (- 2147483392)"
proof -
  show "representable 24 (-149) 2147483392"
    unfolding representable_def by (rule exI [of _ 8388607], rule exI [of _ 8]) simp
  show "representable 24 (-149) (- 2147483392)"
    unfolding representable_def by (rule exI [of _ "-8388607"], rule exI [of _ 8]) simp
qed

lemma clamp_bounds: "lo \<le> hi \<Longrightarrow> lo \<le> clamp x lo hi \<and> clamp x lo hi \<le> hi"
  by (auto simp: clamp_def)

lemma scaled_bound:
  fixes y k :: rat
  assumes "-1 \<le> y" "y \<le> 1" "representable 24 (-149) k" "representable 24 (-149) (- k)" "0 \<le> k"
  shows "\<bar>rnd32 (y * k)\<bar> \<le> k"
proof -
  have "y * k \<le> 1 * k" "-1 * k \<le> y * k" using assms by (intro mult_right_mono; simp)+
  then show ?thesis
    using rnd_le_representable [OF assms(3), of "y * k"] rnd_ge_representable [OF assms(4), of "y * k"]
    by (simp add: abs_le_iff)
qed

lemma trunc_abs: "\<bar>x\<bar> \<le> of_int k \<Longrightarrow> \<bar>trunc x\<bar> \<le> k"
  by (auto simp: trunc_def abs_if floor_le_iff le_ceiling_iff ceiling_le_iff split: if_splits) linarith+

lemma convert_loop_eq:
  "i + n \<le> length p \<Longrightarrow> i + n \<le> length v \<Longrightarrow> convert_loop g p i n v
     = Some (take i v @ map (convert_sample g) (take n (drop i p)) @ drop (i + n) v)"
proof (induction n arbitrary: i v)
  case (Suc n)
  have "take (Suc n) (drop i p) = p ! i # take n (drop (Suc i) p)"
    using Suc.prems by (simp add: Cons_nth_drop_Suc [symmetric])
  moreover have "take (Suc i) (v[i := x]) = take i v @ [x]" for x
    using Suc.prems by (simp add: take_Suc_conv_app_nth)
  ultimately show ?case using Suc by (simp add: rd_simps)
qed simp

text \<open>
  What the ALSA library documents of a blocking stream: \<open>snd_pcm_writei\<close> either takes between one
  and all of the frames offered, in order, or reports an error (an underrun), after which
  \<open>snd_pcm_recover\<close> makes the stream writable again.  \<open>accepted\<close> is what the stream has taken so far
  and \<open>faults\<close> the number of errors it is still going to report.
\<close>

definition pcm_ok ::
  "('p \<Rightarrow> 32 word list \<Rightarrow> nat \<Rightarrow> int \<times> 'p) \<Rightarrow> ('p \<Rightarrow> int \<Rightarrow> int \<times> 'p) \<Rightarrow> ('p \<Rightarrow> 32 word list)
    \<Rightarrow> ('p \<Rightarrow> nat) \<Rightarrow> bool" where
  "pcm_ok writei recover accepted faults \<longleftrightarrow>
    (\<forall>p v n. 0 < n \<and> 2 * n \<le> length v \<longrightarrow>
       (let (r, p') = writei p v n in
        if r < 0 then accepted p' = accepted p \<and> Suc (faults p') = faults p
        else 0 < r \<and> r \<le> int n \<and> accepted p' = accepted p @ take (2 * nat r) v \<and> faults p' = faults p))
    \<and> (\<forall>p r. let (r', p') = recover p r in 0 \<le> r' \<and> accepted p' = accepted p \<and> faults p' = faults p)"

lemma pcm_ok_writei:
  assumes "pcm_ok writei recover accepted faults" "0 < n" "2 * n \<le> length v" "writei p v n = (r, p')"
  shows "r < 0 \<Longrightarrow> accepted p' = accepted p \<and> Suc (faults p') = faults p"
    and "0 \<le> r \<Longrightarrow> 0 < r \<and> r \<le> int n \<and> accepted p' = accepted p @ take (2 * nat r) v \<and> faults p' = faults p"
proof -
  have "if r < 0 then accepted p' = accepted p \<and> Suc (faults p') = faults p
    else 0 < r \<and> r \<le> int n \<and> accepted p' = accepted p @ take (2 * nat r) v \<and> faults p' = faults p"
    using assms unfolding pcm_ok_def by (metis (mono_tags, lifting) case_prod_conv)
  then show "r < 0 \<Longrightarrow> accepted p' = accepted p \<and> Suc (faults p') = faults p"
    and "0 \<le> r \<Longrightarrow> 0 < r \<and> r \<le> int n \<and> accepted p' = accepted p @ take (2 * nat r) v \<and> faults p' = faults p"
    by (auto split: if_splits)
qed

lemma pcm_ok_recover:
  "pcm_ok writei recover accepted faults \<Longrightarrow> recover p r = (r', p')
    \<Longrightarrow> 0 \<le> r' \<and> accepted p' = accepted p \<and> faults p' = faults p"
  unfolding pcm_ok_def by (metis (mono_tags, lifting) case_prod_conv)

lemma write_loop_done: "nFrames \<le> nWritten \<Longrightarrow> write_loop writei recover v nFrames nWritten u p = Some (True, u, p)"
  by (subst write_loop.simps) simp

lemma write_loop_complete:
  assumes ok: "pcm_ok writei recover accepted faults" and "2 * nFrames \<le> length v" "nWritten \<le> nFrames"
  shows "\<exists>p'. write_loop writei recover v nFrames nWritten u p
      = Some (True, u + of_nat (faults p - faults p'), p') \<and> faults p' \<le> faults p
    \<and> accepted p' = accepted p @ take (2 * (nFrames - nWritten)) (drop (2 * nWritten) v)"
  using assms(3)
proof (induction "faults p + (nFrames - nWritten)" arbitrary: nWritten u p rule: less_induct)
  case less
  show ?case
  proof (cases "nWritten < nFrames")
    case False
    then show ?thesis by (simp add: write_loop_done)
  next
    case True
    let ?v = "drop (nWritten * 2) v" and ?n = "nFrames - nWritten"
    obtain r p1 where w: "writei p ?v ?n = (r, p1)" by fastforce
    have len: "0 < ?n" "2 * ?n \<le> length ?v" using True assms(2) by simp_all
    note W = pcm_ok_writei [OF ok len w]
    show ?thesis
    proof (cases "r < 0")
      case neg: True
      obtain r2 p2 where rec: "recover p1 r = (r2, p2)" by fastforce
      note R = pcm_ok_recover [OF ok rec] W(1) [OF neg]
      have eq: "write_loop writei recover v nFrames nWritten u p
          = write_loop writei recover v nFrames nWritten (u + 1) p2"
        using True neg w rec R by (subst write_loop.simps) simp
      have "faults p2 + ?n < faults p + ?n" using R by simp
      from less.hyps [OF this less.prems]
      obtain p' where "write_loop writei recover v nFrames nWritten (u + 1) p2
          = Some (True, (u + 1) + of_nat (faults p2 - faults p'), p')" "faults p' \<le> faults p2"
        "accepted p' = accepted p2 @ take (2 * ?n) (drop (2 * nWritten) v)"
        by blast
      moreover have "faults p = Suc (faults p2)" "accepted p2 = accepted p" using R by simp_all
      ultimately show ?thesis unfolding eq by (intro exI [of _ p']) (simp add: Suc_diff_le)
    next
      case nonneg: False
      then have P: "0 < r" "nat r \<le> ?n" "accepted p1 = accepted p @ take (2 * nat r) ?v" "faults p1 = faults p"
        using W(2) by auto
      have eq: "write_loop writei recover v nFrames nWritten u p
          = write_loop writei recover v nFrames (nWritten + nat r) u p1"
        using True nonneg w by (subst write_loop.simps) simp
      have "take (2 * nat r) ?v @ take (2 * (nFrames - (nWritten + nat r))) (drop (2 * (nWritten + nat r)) v)
          = take (2 * nat r + 2 * (nFrames - (nWritten + nat r))) ?v"
        by (simp add: take_add algebra_simps)
      moreover have "2 * nat r + 2 * (nFrames - (nWritten + nat r)) = 2 * ?n" using P by simp
      ultimately show ?thesis
        using less.hyps [of p1 "nWritten + nat r" u] True P unfolding eq by (auto simp: mult.commute)
    qed
  qed
qed

section \<open>Properties\<close>

text \<open>
  C35. Playback is complete: on a device that behaves as documented, \<open>Write\<close> returns true and the
  device has taken exactly the converted samples of the \<open>nFrames\<close> frames, in order and none twice,
  whatever underruns it reported on the way; every underrun is counted.  A converted sample never
  leaves the range of a 32-bit integer.
\<close>

theorem AlsaWrite_complete:
  assumes "pcm_ok writei recover accepted faults" "m_pPcm a = Some p" "2 * nFrames \<le> length samples"
    and "g = rnd32 (pow 10 (rnd64 (dGainDb / 20)))"
  shows "\<exists>a' p'. AlsaWrite writei recover pow samples nFrames dGainDb a = Some (True, a')
    \<and> m_pPcm a' = Some p'
    \<and> accepted p' = accepted p @ map (convert_sample g) (take (2 * nFrames) samples)
    \<and> m_nUnderruns a' = m_nUnderruns a + of_nat (faults p - faults p')
    \<and> (\<forall>x. \<bar>sint (convert_sample g x)\<bar> \<le> 2147483392)"
proof -
  define v where "v = map (convert_sample g) (take (2 * nFrames) samples)
    @ drop (nFrames * 2) (resize_up (nFrames * 2) (m_vConvert a))"
  have "convert_loop g samples 0 (nFrames * 2) (resize_up (nFrames * 2) (m_vConvert a)) = Some v"
    using assms(3) convert_loop_eq [of 0 "nFrames * 2" samples "resize_up (nFrames * 2) (m_vConvert a)" g]
    by (simp add: resize_up_def v_def mult.commute)
  moreover obtain p' where "write_loop writei recover v nFrames 0 (m_nUnderruns a) p
      = Some (True, m_nUnderruns a + of_nat (faults p - faults p'), p')"
      "accepted p' = accepted p @ take (2 * nFrames) v"
    using write_loop_complete [OF assms(1), of nFrames v 0 "m_nUnderruns a" p] assms(3)
    by (auto simp: v_def)
  moreover have "take (2 * nFrames) v = map (convert_sample g) (take (2 * nFrames) samples)"
    using assms(3) by (simp add: v_def)
  moreover have "\<bar>sint (convert_sample g x)\<bar> \<le> 2147483392" for x
  proof -
    let ?t = "trunc (rnd32 (clamp (rnd32 (x * g)) (-1) 1 * 2147483392))"
    have "\<bar>?t\<bar> \<le> 2147483392"
      using clamp_bounds [of "-1" 1 "rnd32 (x * g)"]
      by (intro trunc_abs) (simp add: scaled_bound representable_full_scale)
    then show ?thesis by (simp add: convert_sample_def sint_sbintrunc' signed_take_bit_int_eq_self)
  qed
  ultimately show ?thesis using assms(2,4) by (simp add: AlsaWrite_def Let_def)
qed

definition demo_writei :: "32 word list \<times> nat \<Rightarrow> 32 word list \<Rightarrow> nat \<Rightarrow> int \<times> 32 word list \<times> nat" where
  "demo_writei p v n = (case p of (acc, k) \<Rightarrow>
     if 0 < k then (-32, (acc, k - 1)) else (1, (acc @ take 2 v, 0)))"

lemma demo_pcm_ok: "pcm_ok demo_writei (\<lambda>p r. (0, p)) fst snd"
  by (auto simp: pcm_ok_def demo_writei_def)

theorem AlsaWrite_complete_witness:
  "\<exists>a' p'. AlsaWrite demo_writei (\<lambda>p r. (0, p)) (\<lambda>x y. 1) [1/2, -1/2, 2, 0] 2 0
      (init_alsa\<lparr>m_pPcm := Some ([7], 3)\<rparr>) = Some (True, a')
    \<and> m_pPcm a' = Some p' \<and> fst p' = [7] @ map (convert_sample (rnd32 1)) (take 4 [1/2, -1/2, 2, 0])
    \<and> m_nUnderruns a' = 0 + of_nat (3 - snd p')
    \<and> (\<forall>x. \<bar>sint (convert_sample (rnd32 1) x)\<bar> \<le> 2147483392)"
  using AlsaWrite_complete [OF demo_pcm_ok,
      of "init_alsa\<lparr>m_pPcm := Some ([7], 3)\<rparr>" "([7], 3)" 2 "[1/2, -1/2, 2, 0]" "rnd32 1" "\<lambda>x y. 1" 0]
  by (simp add: init_alsa_def)

text \<open>
  A memory source delivers its samples in order without a gap: a looping one the endless
  repetition of the file from the read position on, one that does not loop the rest of the file
  padded with silence, returning false as soon as the file does not cover the request.  Both fill
  the request exactly.
\<close>

theorem MemorySource_Read:
  assumes "pos \<le> length vs" "vs \<noteq> []"
  shows "(\<exists>pos'. Read c_sin pow n (MemorySource vs d True pos)
        = (True, map (\<lambda>i. vs ! ((pos + i) mod length vs)) [0..<2 * n], MemorySource vs d True pos')
        \<and> pos' \<le> length vs \<and> pos' mod length vs = (pos + 2 * n) mod length vs)
    \<and> Read c_sin pow n (MemorySource vs d False pos)
        = (pos + 2 * n \<le> length vs, take (2 * n) (drop pos vs @ replicate (2 * n) 0),
           MemorySource vs d False (min (length vs) (pos + 2 * n)))"
proof -
  obtain q where "mem_read vs True (2 * n) pos [] = (True, cycle_from vs pos 0 (2 * n), q)"
    "q \<le> length vs" "q mod length vs = (pos + 2 * n) mod length vs"
    using mem_read_looping [of vs "[]" "2 * n" pos pos] assms by (auto simp: cycle_from_def)
  moreover have "2 * n \<le> length vs - pos \<longleftrightarrow> pos + 2 * n \<le> length vs" using assms by auto
  ultimately show ?thesis
    using mem_read_once [of "[]" "2 * n" pos vs] assms
    by (simp add: Read_def mult.commute [of n] cycle_from_def)
qed

theorem MemorySource_Read_witness:
  "Read id (\<lambda>x y. 0) 2 (MemorySource [1, 2, 3] ''x'' False 1)
     = (False, [2, 3, 0, 0], MemorySource [1, 2, 3] ''x'' False 3)"
  using MemorySource_Read [THEN conjunct2, of 1 "[1, 2, 3]" id "\<lambda>x y. 0" 2 "''x''"]
  by (simp add: numeral_eq_Suc)

text \<open>
  Meter ballistics: feeding \<open>nFrames\<close> frames reads only these frames; afterwards each channel
  shows at least the magnitude of every sample fed, and no more than the larger of this peak and
  the value before.
\<close>

theorem Feed_ballistics:
  assumes "2 * n \<le> length p" "\<And>e. e \<le> 0 \<Longrightarrow> 0 \<le> powf 10 e \<and> powf 10 e \<le> 1"
    and "0 \<le> m_fLeft m" "representable 24 (-149) (m_fLeft m)"
    and "0 \<le> m_fRight m" "representable 24 (-149) (m_fRight m)"
  shows "\<exists>m'. Feed powf p n m = Some m'
    \<and> (\<forall>i. i < n \<longrightarrow> \<bar>p ! (2 * i)\<bar> \<le> m_fLeft m' \<and> \<bar>p ! (2 * i + 1)\<bar> \<le> m_fRight m')
    \<and> m_fLeft m' \<le> max (m_fLeft m) (peak (channel 0 p n))
    \<and> m_fRight m' \<le> max (m_fRight m) (peak (channel 1 p n))"
proof -
  let ?d = "powf 10 (decay_exponent n)"
  have "rnd32 x \<le> 0" if "x \<le> 0" for x using rnd_mono [OF that, of 24 "-149"] by simp
  moreover have "0 \<le> rnd32 (133/10) * rnd32 (of_nat n)" by (intro mult_nonneg_nonneg rnd_nonneg) simp_all
  ultimately have "decay_exponent n \<le> 0" by (simp add: decay_exponent_def divide_nonpos_pos)
  then have d: "0 \<le> ?d" "?d \<le> 1" using assms(2) by simp_all
  have up: "Update c pk ?d \<le> max c pk" if "0 \<le> c" "representable 24 (-149) c" for c pk
  proof -
    have "c * ?d \<le> c" using d that mult_left_le [of ?d c] by simp
    then have "rnd32 (c * ?d) \<le> c" using that by (intro rnd_le_representable) simp_all
    then show ?thesis by (simp add: Update_def)
  qed
  have lo: "\<bar>p ! (i * 2 + c)\<bar> \<le> Update x (peak (channel c p n)) ?d" if "i < n" for i c x
  proof -
    have "p ! (i * 2 + c) \<in> set (channel c p n)" using that by (auto simp: channel_def)
    then show ?thesis using peak_upper by (fastforce simp: Update_def)
  qed
  show ?thesis
    using up [OF assms(3,4)] up [OF assms(5,6)] lo [of _ 0] lo [of _ 1]
    by (simp add: Feed_eq [OF assms(1)] mult.commute)
qed

theorem Feed_ballistics_witness:
  "\<exists>m'. Feed (\<lambda>x y. 1/2) [1/2, -1/4, -3/4, 1/8] 2 init_meters = Some m'
    \<and> (\<forall>i. i < 2 \<longrightarrow> \<bar>[1/2, -1/4, -3/4, 1/8] ! (2 * i)\<bar> \<le> m_fLeft m'
          \<and> \<bar>[1/2, -1/4, -3/4, 1/8] ! (2 * i + 1)\<bar> \<le> m_fRight m')
    \<and> m_fLeft m' \<le> max (m_fLeft init_meters) (peak (channel 0 [1/2, -1/4, -3/4, 1/8] 2))
    \<and> m_fRight m' \<le> max (m_fRight init_meters) (peak (channel 1 [1/2, -1/4, -3/4, 1/8] 2))"
  using representable_int [of 0 24 "-149"] by (intro Feed_ballistics) (simp_all add: init_meters_def)

end
