(* ===== verification/Sdp.thy ===== *)
theory Sdp
  imports Cxx_Text
begin

text \<open>
  Session descriptions, \<^verbatim>\<open>src/src/rtp/sdp.h\<close> and \<^verbatim>\<open>src/src/rtp/sdp.cpp\<close>: the records, the parser
  as a fold over the lines of the text, the printer as the list of lines it writes, and that the
  parser reads back what the printer wrote.
\<close>

record SdpLeg =
  sMid :: string
  sMulticast :: string
  sSourceFilter :: string
  nPort :: u16

record SdpSession =
  sName :: string
  vLegs :: "SdpLeg list"
  nPayloadType :: int
  nSampleRate :: int
  nChannels :: int
  nBitsPerSample :: int
  dPacketTimeMs :: double
  sPtpGrandmaster :: string
  nPtpDomain :: int

definition default_leg :: SdpLeg where
  "default_leg = \<lparr>sMid = [], sMulticast = [], sSourceFilter = [], nPort = 5004\<rparr>"

definition default_session :: SdpSession where
  "default_session = \<lparr>sName = [], vLegs = [], nPayloadType = 96, nSampleRate = 48000, nChannels = 2,
     nBitsPerSample = 24, dPacketTimeMs = 1, sPtpGrandmaster = [], nPtpDomain = 0\<rparr>"

section \<open>Parsing\<close>

definition Trim :: "string \<Rightarrow> string" where
  "Trim s = rev (dropWhile (\<lambda>c. c = CHR 0x0D \<or> c = CHR 0x0A \<or> c = CHR '' '') (rev s))"

text \<open>The locals of the parser; the pointer to the current leg is its index.\<close>

record SdpParser =
  parsed :: SdpSession
  sSessionConnection :: string
  vDupMids :: "string list"
  pCurrentLeg :: "nat option"
  bInMedia :: bool

definition init_parser :: SdpParser where
  "init_parser = \<lparr>parsed = default_session, sSessionConnection = [], vDupMids = [], pCurrentLeg = None, bInMedia = False\<rparr>"

definition update_leg :: "(SdpLeg \<Rightarrow> SdpLeg) \<Rightarrow> nat \<Rightarrow> SdpParser \<Rightarrow> SdpParser" where
  "update_leg f i p = p\<lparr>parsed := (parsed p)\<lparr>vLegs := (vLegs (parsed p))[i := f (vLegs (parsed p) ! i)]\<rparr>\<rparr>"

definition parse_connection :: "string \<Rightarrow> SdpParser \<Rightarrow> SdpParser" where
  "parse_connection sValue p =
    (case rfind (CHR '' '') sValue of
       None \<Rightarrow> p
     | Some nPos \<Rightarrow>
         let sAddr = drop (nPos + 1) sValue;
             sAddr = (case find_from (CHR ''/'') 0 sAddr of Some nSlash \<Rightarrow> take nSlash sAddr | None \<Rightarrow> sAddr)
         in (case (bInMedia p, pCurrentLeg p) of
               (True, Some i) \<Rightarrow> update_leg (\<lambda>leg. leg\<lparr>sMulticast := sAddr\<rparr>) i p
             | _ \<Rightarrow> p\<lparr>sSessionConnection := sAddr\<rparr>))"

definition parse_media :: "string \<Rightarrow> SdpParser \<Rightarrow> SdpParser outcome" where
  "parse_media sValue p =
     bindO (sscanf sValue ''audio %d RTP/AVP %d'') (\<lambda>ns. Val
       (case ns of
          [] \<Rightarrow> p
        | port # pts \<Rightarrow>
            p\<lparr>parsed := (parsed p)
                \<lparr>vLegs := vLegs (parsed p) @ [default_leg\<lparr>nPort := word_of_int port, sMulticast := sSessionConnection p\<rparr>],
                 nPayloadType := (case pts of [] \<Rightarrow> 96 | nPt # _ \<Rightarrow> nPt)\<rparr>,
              pCurrentLeg := Some (length (vLegs (parsed p))), bInMedia := True\<rparr>))"

definition parse_rtpmap :: "string \<Rightarrow> SdpParser \<Rightarrow> SdpParser outcome" where
  "parse_rtpmap sValue p =
     bindO (sscanf sValue ''rtpmap:%d L%d/%d/%d'') (\<lambda>ns. Val
       (if 3 \<le> length ns \<and> ns ! 0 = nPayloadType (parsed p) then
          p\<lparr>parsed := (parsed p)\<lparr>nBitsPerSample := ns ! 1, nSampleRate := ns ! 2,
               nChannels := (if 4 \<le> length ns \<and> 0 < ns ! 3 then ns ! 3 else 1)\<rparr>\<rparr>
        else p))"

definition parse_refclk :: "string \<Rightarrow> SdpParser \<Rightarrow> SdpParser outcome" where
  "parse_refclk sValue p =
    (case find_from (CHR '':'') 14 sValue of
       None \<Rightarrow> Val p
     | Some nColon \<Rightarrow>
         let sRest = drop (nColon + 1) sValue in
         (case rfind (CHR '':'') sRest of
           Some nDomainSep \<Rightarrow>
             bindO (atoi (drop (nDomainSep + 1) sRest)) (\<lambda>n.
               Val (p\<lparr>parsed := (parsed p)\<lparr>sPtpGrandmaster := take nDomainSep sRest, nPtpDomain := n\<rparr>\<rparr>))
         | None \<Rightarrow> Val (p\<lparr>parsed := (parsed p)\<lparr>sPtpGrandmaster := sRest\<rparr>\<rparr>)))"

definition parse_attribute :: "string \<Rightarrow> SdpParser \<Rightarrow> SdpParser outcome" where
  "parse_attribute sValue p =
    (if starts_with ''group:DUP '' sValue then Val (p\<lparr>vDupMids := vDupMids p @ stream_words (drop 10 sValue)\<rparr>)
     else if starts_with ''mid:'' sValue \<and> pCurrentLeg p \<noteq> None then
       Val (update_leg (\<lambda>leg. leg\<lparr>sMid := drop 4 sValue\<rparr>) (the (pCurrentLeg p)) p)
     else if starts_with ''rtpmap:'' sValue then parse_rtpmap sValue p
     else if starts_with ''ptime:'' sValue then
       bindO (atof (drop 6 sValue)) (\<lambda>d. Val (p\<lparr>parsed := (parsed p)\<lparr>dPacketTimeMs := d\<rparr>\<rparr>))
     else if starts_with ''source-filter:'' sValue \<and> pCurrentLeg p \<noteq> None then
       Val (case rfind (CHR '' '') sValue of
              Some nPos \<Rightarrow> update_leg (\<lambda>leg. leg\<lparr>sSourceFilter := drop (nPos + 1) sValue\<rparr>) (the (pCurrentLeg p)) p
            | None \<Rightarrow> p)
     else if starts_with ''ts-refclk:ptp='' sValue then parse_refclk sValue p
     else Val p)"

definition parse_line :: "string \<Rightarrow> SdpParser \<Rightarrow> SdpParser outcome" where
  "parse_line sLine p =
    (case Trim sLine of
       k # e # sValue \<Rightarrow>
         if e \<noteq> CHR ''='' then Val p
         else if k = CHR ''s'' then Val (p\<lparr>parsed := (parsed p)\<lparr>sName := sValue\<rparr>\<rparr>)
         else if k = CHR ''c'' then Val (parse_connection sValue p)
         else if k = CHR ''m'' then parse_media sValue p
         else if k = CHR ''a'' then parse_attribute sValue p
         else Val p
     | _ \<Rightarrow> Val p)"

fun parse_lines :: "string list \<Rightarrow> SdpParser \<Rightarrow> SdpParser outcome" where
  "parse_lines [] p = Val p"
| "parse_lines (l # ls) p = bindO (parse_line l p) (parse_lines ls)"

text \<open>The legs of the duplication group in its order, and at most two of them.\<close>

definition group_legs :: "string list \<Rightarrow> SdpLeg list \<Rightarrow> SdpLeg list" where
  "group_legs mids legs = concat (map (\<lambda>m. filter (\<lambda>leg. sMid leg = m) legs) mids)"

definition finish_session :: "SdpParser \<Rightarrow> SdpSession option" where
  "finish_session p =
    (let s = parsed p in
     if vLegs s = [] then None
     else
       let s = (if 1 < length (vDupMids p) \<and> group_legs (vDupMids p) (vLegs s) \<noteq> []
                then s\<lparr>vLegs := group_legs (vDupMids p) (vLegs s)\<rparr> else s)
       in Some (s\<lparr>vLegs := take 2 (vLegs s)\<rparr>))"

definition ParseSdp :: "string \<Rightarrow> SdpSession option outcome" where
  "ParseSdp sSdp = bindO (parse_lines (getlines sSdp) init_parser) (\<lambda>p. Val (finish_session p))"

section \<open>Printing\<close>

text \<open>The text of the lines, without their ends; \<open>nSessId\<close> is the time of the call.\<close>

definition source_ip :: "SdpLeg \<Rightarrow> nat \<Rightarrow> string \<Rightarrow> string list \<Rightarrow> string" where
  "source_ip leg nLeg sOriginIp vSourceIps =
    (if sSourceFilter leg \<noteq> [] then sSourceFilter leg else if nLeg < length vSourceIps then vSourceIps ! nLeg else sOriginIp)"

definition leg_lines :: "SdpSession \<Rightarrow> SdpLeg \<Rightarrow> string \<Rightarrow> string list" where
  "leg_lines s leg sSourceIp =
    [''m=audio '' @ to_string (uint (nPort leg)) @ '' RTP/AVP '' @ to_string (nPayloadType s),
     ''c=IN IP4 '' @ sMulticast leg @ ''/32'',
     ''a=source-filter: incl IN IP4 '' @ sMulticast leg @ '' '' @ sSourceIp,
     ''a=rtpmap:'' @ to_string (nPayloadType s) @ '' L'' @ to_string (nBitsPerSample s) @ ''/''
       @ to_string (nSampleRate s) @ ''/'' @ to_string (nChannels s),
     ''a=ptime:'' @ show_double (dPacketTimeMs s),
     ''a=recvonly'']
    @ (if sPtpGrandmaster s \<noteq> [] then [''a=ts-refclk:ptp=IEEE1588-2008:'' @ sPtpGrandmaster s @ '':'' @ to_string (nPtpDomain s)] else [])
    @ [''a=mediaclk:direct=0'']
    @ (if 1 < length (vLegs s) then [''a=mid:'' @ sMid leg] else [])"

fun legs_lines :: "SdpSession \<Rightarrow> nat \<Rightarrow> SdpLeg list \<Rightarrow> string \<Rightarrow> string list \<Rightarrow> string list" where
  "legs_lines s nLeg [] sOriginIp vSourceIps = []"
| "legs_lines s nLeg (leg # legs) sOriginIp vSourceIps =
     leg_lines s leg (source_ip leg nLeg sOriginIp vSourceIps) @ legs_lines s (Suc nLeg) legs sOriginIp vSourceIps"

definition header_lines :: "nat \<Rightarrow> SdpSession \<Rightarrow> string \<Rightarrow> string list" where
  "header_lines nSessId s sOriginIp =
    [''v=0'',
     ''o=- '' @ nat_str nSessId @ '' '' @ nat_str nSessId @ '' IN IP4 '' @ sOriginIp,
     ''s='' @ sName s,
     ''t=0 0'']
    @ (if 1 < length (vLegs s) then [''a=group:DUP'' @ concat (map (\<lambda>leg. CHR '' '' # sMid leg) (vLegs s))] else [])"

definition GenerateSdp :: "nat \<Rightarrow> SdpSession \<Rightarrow> string \<Rightarrow> string list \<Rightarrow> string" where
  "GenerateSdp nSessId s sOriginIp vSourceIps =
     concat (map (\<lambda>l. l @ [CHR 0x0D, CHR 0x0A]) (header_lines nSessId s sOriginIp @ legs_lines s 0 (vLegs s) sOriginIp vSourceIps))"

section \<open>What is printed is read back\<close>

definition blank :: "char \<Rightarrow> bool" where
  "blank c \<longleftrightarrow> c = CHR 0x0D \<or> c = CHR 0x0A \<or> c = CHR '' ''"

text \<open>Text without white space and end markers, and the sessions that survive the text format.\<close>

definition plain :: "string \<Rightarrow> bool" where
  "plain s \<longleftrightarrow> (\<forall>c \<in> set s. \<not> is_space c \<and> c \<noteq> CHR 0x00)"

definition int_ok :: "int \<Rightarrow> bool" where
  "int_ok n \<longleftrightarrow> -2147483648 \<le> n \<and> n \<le> 2147483647"

definition leg_ok :: "SdpLeg \<Rightarrow> bool" where
  "leg_ok leg \<longleftrightarrow> plain (sMulticast leg) \<and> CHR ''/'' \<notin> set (sMulticast leg) \<and> plain (sMid leg) \<and> sMid leg \<noteq> []
     \<and> plain (sSourceFilter leg)"

definition session_ok :: "SdpSession \<Rightarrow> bool" where
  "session_ok s \<longleftrightarrow> vLegs s \<noteq> [] \<and> length (vLegs s) \<le> 2 \<and> distinct (map sMid (vLegs s)) \<and> (\<forall>leg \<in> set (vLegs s). leg_ok leg)
     \<and> int_ok (nPayloadType s) \<and> int_ok (nBitsPerSample s) \<and> int_ok (nSampleRate s) \<and> int_ok (nChannels s) \<and> 0 < nChannels s
     \<and> int_ok (nPtpDomain s) \<and> plain (sPtpGrandmaster s) \<and> (sPtpGrandmaster s = [] \<longrightarrow> nPtpDomain s = 0)
     \<and> CHR 0x0A \<notin> set (sName s) \<and> atof (show_double (dPacketTimeMs s)) = Val (dPacketTimeMs s)"

lemma is_space_blank: "blank c \<Longrightarrow> is_space c"
  by (auto simp: blank_def is_space_def Let_def)

lemma plain_append [simp]: "plain (a @ b) \<longleftrightarrow> plain a \<and> plain b" "plain []"
  by (auto simp: plain_def)

lemma digit_plain: "is_digit c \<or> c = CHR ''-'' \<Longrightarrow> \<not> is_space c \<and> c \<noteq> CHR 0x00"
  by (auto simp: is_digit_def is_space_def Let_def)

lemma plain_to_string [simp]: "plain (to_string n)"
  unfolding plain_def using to_string_chars digit_plain by blast

lemma plain_not_blank: "plain s \<Longrightarrow> c \<in> set s \<Longrightarrow> \<not> blank c \<and> c \<noteq> CHR 0x00 \<and> c \<noteq> CHR '' '' \<and> c \<noteq> CHR 0x0A"
  using is_space_blank by (auto simp: plain_def blank_def)

lemma plain_nul [simp]: "plain s \<Longrightarrow> CHR 0x00 \<notin> set s" "plain s \<Longrightarrow> CHR 0x0A \<notin> set s" "plain s \<Longrightarrow> CHR '' '' \<notin> set s"
  using plain_not_blank by blast+

lemma strip_zeros_set: "set (strip_zeros s) \<subseteq> set s"
  by (auto simp: strip_zeros_def dest: set_dropWhileD)

lemma show_double_chars:
  assumes "c \<in> set (show_double x)"
  shows "is_digit c \<or> c \<in> {CHR ''-'', CHR ''+'', CHR ''.'', CHR ''e''}"
proof -
  have zero: "is_digit (CHR ''0'')" by code_simp
  have pt: "is_digit c \<or> c = CHR ''.''" if "c \<in> set (point a b)" "\<forall>c \<in> set a. is_digit c" "\<forall>c \<in> set b. is_digit c" for a b c
    using that strip_zeros_set [of b] by (auto simp: point_def Let_def split: if_splits)
  have "is_digit c \<or> c \<in> {CHR ''-'', CHR ''+'', CHR ''.'', CHR ''e''}" if c: "c \<in> set (show_positive y)" for c y
  proof -
    have dig: "\<forall>c \<in> set (take n (nat_str m)). is_digit c" "\<forall>c \<in> set (drop n (nat_str m)). is_digit c"
      "\<forall>c \<in> set (replicate k (CHR ''0'') @ nat_str m). is_digit c" "\<forall>c \<in> set ''0''. is_digit c" for n m k
      using nat_str_digits zero by (auto dest: in_set_takeD in_set_dropD)
    show ?thesis
      using c zero by (auto simp: show_positive_def Let_def split: if_splits
          dest!: pt [OF _ dig(1,2)] pt [OF _ dig(4,3)] nat_str_digits)
  qed
  then show ?thesis using assms zero by (auto simp: show_double_def split: if_splits)
qed

lemma number_plain:
  assumes "is_digit c \<or> c \<in> {CHR ''-'', CHR ''+'', CHR ''.'', CHR ''e''}"
  shows "\<not> is_space c \<and> c \<noteq> CHR 0x00"
proof -
  have "\<not> is_space (CHR ''-'')" "\<not> is_space (CHR ''+'')" "\<not> is_space (CHR ''.'')" "\<not> is_space (CHR ''e'')" by code_simp+
  then show ?thesis using assms digit_plain [of c] by auto
qed

lemma plain_show_double [simp]: "plain (show_double x)"
  unfolding plain_def by (rule ballI, rule number_plain, rule show_double_chars)

lemma Trim_line:
  assumes "v = [] \<or> \<not> blank (last v)"
  shows "Trim (k # CHR ''='' # v @ [CHR 0x0D]) = k # CHR ''='' # v"
proof -
  have "dropWhile blank (rev v @ [CHR ''='', k]) = rev v @ [CHR ''='', k]"
  proof (cases "rev v")
    case Nil
    then show ?thesis by (simp add: blank_def)
  next
    case (Cons c cs)
    then have "last v = c" by (metis hd_rev list.sel(1))
    then show ?thesis using assms Cons by auto
  qed
  then show ?thesis by (simp add: Trim_def blank_def [abs_def])
qed

lemma last_plain: "plain v \<Longrightarrow> v \<noteq> [] \<Longrightarrow> \<not> blank (last (u @ v))"
  using plain_not_blank by simp
abbreviation cr :: "string \<Rightarrow> string" where
  "cr l \<equiv> l @ [CHR 0x0D]"

lemma getlines_crlf:
  assumes "\<forall>l \<in> set ls. CHR 0x0A \<notin> set l"
  shows "getlines (concat (map (\<lambda>l. l @ [CHR 0x0D, CHR 0x0A]) ls)) = map cr ls"
  using assms
proof (induction ls)
  case (Cons l ls)
  have "concat (map (\<lambda>l. l @ [CHR 0x0D, CHR 0x0A]) (l # ls)) = cr l @ CHR 0x0A # concat (map (\<lambda>l. l @ [CHR 0x0D, CHR 0x0A]) ls)"
    by simp
  moreover have "CHR 0x0A \<notin> set (cr l)" using Cons.prems by simp
  note getlines_line [OF this, of "concat (map (\<lambda>l. l @ [CHR 0x0D, CHR 0x0A]) ls)"]
  ultimately have "getlines (concat (map (\<lambda>l. l @ [CHR 0x0D, CHR 0x0A]) (l # ls)))
      = cr l # getlines (concat (map (\<lambda>l. l @ [CHR 0x0D, CHR 0x0A]) ls))"
    by (simp only:)
  also have "\<dots> = map cr (l # ls)" using Cons by simp
  finally show ?case .
qed simp

lemma parse_lines_append: "parse_lines (a @ b) p = bindO (parse_lines a p) (parse_lines b)"
proof (induction a arbitrary: p)
  case (Cons l a)
  then show ?case by (cases "parse_line l p") simp_all
qed simp

lemma stream_words_skip: "stream_words (CHR '' '' # s) = stream_words s"
proof -
  have "skip_space (CHR '' '' # s) = skip_space s" by (simp add: skip_space_def is_space_def)
  then show ?thesis using stream_words.simps [of s] stream_words.simps [of "CHR '' '' # s"] by simp
qed

lemma stream_words_list:
  "w \<noteq> [] \<Longrightarrow> plain w \<Longrightarrow> \<forall>w \<in> set ws. w \<noteq> [] \<and> plain w \<Longrightarrow> stream_words (w @ concat (map (\<lambda>w. CHR '' '' # w) ws)) = w # ws"
proof (induction ws arbitrary: w)
  case Nil
  then show ?case using stream_words_word(2) [of w] stream_words_skip [of w] by (simp add: plain_def)
next
  case (Cons v ws)
  have "stream_words (w @ concat (map (\<lambda>w. CHR '' '' # w) (v # ws)))
      = w # stream_words (CHR '' '' # v @ concat (map (\<lambda>w. CHR '' '' # w) ws))"
    using stream_words_word(1) [of w "v @ concat (map (\<lambda>w. CHR '' '' # w) ws)"] Cons.prems
      stream_words_skip [of "w @ CHR '' '' # v @ concat (map (\<lambda>w. CHR '' '' # w) ws)"]
    by (simp add: plain_def)
  then show ?case using Cons by (simp add: stream_words_skip)
qed

text \<open>The effect of each kind of line.\<close>

lemma parse_line_value:
  "v = [] \<or> \<not> blank (last v) \<Longrightarrow> parse_line (cr (k # CHR ''='' # v)) p =
    (if k = CHR ''s'' then Val (p\<lparr>parsed := (parsed p)\<lparr>sName := v\<rparr>\<rparr>)
     else if k = CHR ''c'' then Val (parse_connection v p)
     else if k = CHR ''m'' then parse_media v p
     else if k = CHR ''a'' then parse_attribute v p
     else Val p)"
  using Trim_line [of v k] by (simp add: parse_line_def)

lemma skip_space_Cons: "skip_space (c # s) = (if is_space c then skip_space s else c # s)"
  by (simp add: skip_space_def)

lemma skip_space_to_string: "skip_space (to_string n @ r) = to_string n @ r"
proof (cases "to_string n")
  case (Cons c cs)
  then show ?thesis using to_string_chars [of c n] digit_plain [of c] by (simp add: skip_space_Cons)
qed simp

lemma sscanf_media:
  assumes "int_ok port" "int_ok pt"
  shows "sscanf (''audio '' @ to_string port @ '' RTP/AVP '' @ to_string pt) ''audio %d RTP/AVP %d'' = Val [port, pt]"
proof -
  have "c_str (''audio '' @ to_string port @ '' RTP/AVP '' @ to_string pt) = ''audio '' @ to_string port @ '' RTP/AVP '' @ to_string pt"
    by (rule c_str_id) (simp add: to_string_nul)
  moreover have nd: "\<not> is_digit (CHR '' '')" "is_space (CHR '' '')" "\<not> is_space (CHR ''R'')" by code_simp+
  moreover have "scan_int (to_string port @ '' RTP/AVP '' @ to_string pt) = Val (Some (port, '' RTP/AVP '' @ to_string pt))"
    "scan_int (to_string pt) = Val (Some (pt, []))"
    using assms nd scan_int_to_string [of pt "[]"] by (auto simp: int_ok_def intro!: scan_int_to_string)
  ultimately show ?thesis
    using skip_space_to_string [of pt "[]"] by (simp add: sscanf_def skip_space_to_string skip_space_Cons)
qed

lemma sscanf_rtpmap:
  assumes "int_ok pt" "int_ok bits" "int_ok rate" "int_ok ch"
  shows "sscanf (''rtpmap:'' @ to_string pt @ '' L'' @ to_string bits @ ''/'' @ to_string rate @ ''/'' @ to_string ch) ''rtpmap:%d L%d/%d/%d''
    = Val [pt, bits, rate, ch]"
proof -
  let ?s = "''rtpmap:'' @ to_string pt @ '' L'' @ to_string bits @ ''/'' @ to_string rate @ ''/'' @ to_string ch"
  have nul: "c_str ?s = ?s" by (rule c_str_id) (simp add: to_string_nul)
  have nd: "\<not> is_digit (CHR '' '')" "\<not> is_digit (CHR ''/'')" "is_space (CHR '' '')" "\<not> is_space (CHR ''L'')" by code_simp+
  have ints: "scan_int (to_string pt @ CHR '' '' # r) = Val (Some (pt, CHR '' '' # r))"
    "scan_int (to_string bits @ CHR ''/'' # r) = Val (Some (bits, CHR ''/'' # r))"
    "scan_int (to_string rate @ CHR ''/'' # r) = Val (Some (rate, CHR ''/'' # r))"
    "scan_int (to_string ch) = Val (Some (ch, []))" for r
    using assms nd scan_int_to_string [of ch "[]"] by (auto simp: int_ok_def intro!: scan_int_to_string)
  show ?thesis unfolding sscanf_def nul using nd by (simp add: ints skip_space_Cons)
qed
lemma find_slash: "CHR ''/'' \<notin> set a \<Longrightarrow> find_from (CHR ''/'') 0 (a @ CHR ''/'' # r) = Some (length a)"
proof -
  assume "CHR ''/'' \<notin> set a"
  then have "takeWhile (\<lambda>x. x \<noteq> CHR ''/'') (a @ CHR ''/'' # r) = a" by (subst takeWhile_append2) auto
  then show ?thesis by (simp add: find_from_def)
qed

lemma parse_connection_leg:
  assumes "plain a" "CHR ''/'' \<notin> set a" "bInMedia p" "pCurrentLeg p = Some i"
  shows "parse_connection (''IN IP4 '' @ a @ ''/32'') p = update_leg (\<lambda>leg. leg\<lparr>sMulticast := a\<rparr>) i p"
proof -
  have "rfind (CHR '' '') (''IN IP4'' @ CHR '' '' # (a @ ''/32'')) = Some (length ''IN IP4'')"
    by (rule rfind_last) (use assms(1) in simp)
  then have "rfind (CHR '' '') (''IN IP4 '' @ a @ ''/32'') = Some 6" by simp
  then show ?thesis using assms find_slash [of a "''32''"] by (simp add: parse_connection_def)
qed

lemma parse_attribute_filter:
  assumes "plain src" "pCurrentLeg p = Some i"
  shows "parse_attribute (''source-filter: incl IN IP4 '' @ a @ '' '' @ src) p
    = Val (update_leg (\<lambda>leg. leg\<lparr>sSourceFilter := src\<rparr>) i p)"
proof -
  let ?v = "''source-filter: incl IN IP4 '' @ a @ '' '' @ src"
  have "rfind (CHR '' '') ((''source-filter: incl IN IP4 '' @ a) @ CHR '' '' # src) = Some (length (''source-filter: incl IN IP4 '' @ a))"
    by (rule rfind_last) (use assms(1) in simp)
  then have r: "rfind (CHR '' '') ?v = Some (length (''source-filter: incl IN IP4 '' @ a))" by simp
  have d: "drop (length (''source-filter: incl IN IP4 '' @ a) + 1) ?v = src" by simp
  have "\<not> starts_with ''group:DUP '' ?v" "\<not> starts_with ''mid:'' ?v" "\<not> starts_with ''rtpmap:'' ?v" "\<not> starts_with ''ptime:'' ?v"
    "starts_with ''source-filter:'' ?v"
    by (simp_all add: starts_with_def)
  then show ?thesis using assms(2) unfolding parse_attribute_def r option.case d by simp
qed

lemma parse_attribute_refclk:
  assumes "int_ok n"
  shows "parse_attribute (''ts-refclk:ptp=IEEE1588-2008:'' @ gm @ '':'' @ to_string n) p
    = Val (p\<lparr>parsed := (parsed p)\<lparr>sPtpGrandmaster := gm, nPtpDomain := n\<rparr>\<rparr>)"
proof -
  let ?v = "''ts-refclk:ptp=IEEE1588-2008:'' @ gm @ '':'' @ to_string n"
  have f: "find_from (CHR '':'') 14 ?v = Some 27" by (simp add: find_from_def)
  have d: "drop (27 + 1) ?v = gm @ '':'' @ to_string n" by simp
  have "CHR '':'' \<notin> set (to_string n)"
  proof
    assume "CHR '':'' \<in> set (to_string n)"
    moreover have "\<not> is_digit (CHR '':'')" by code_simp
    ultimately show False using to_string_chars by fastforce
  qed
  then have r: "rfind (CHR '':'') (gm @ '':'' @ to_string n) = Some (length gm)" using rfind_last [of "CHR '':''" "to_string n" gm] by simp
  have a: "atoi (drop (length gm + 1) (gm @ '':'' @ to_string n)) = Val n" using assms atoi_to_string by (simp add: int_ok_def)
  have "parse_refclk ?v p = Val (p\<lparr>parsed := (parsed p)\<lparr>sPtpGrandmaster := gm, nPtpDomain := n\<rparr>\<rparr>)"
    unfolding parse_refclk_def f option.case d Let_def r a by simp
  moreover have "parse_attribute ?v p = parse_refclk ?v p" by (simp add: parse_attribute_def starts_with_def)
  ultimately show ?thesis by simp
qed

lemma parse_attribute_others:
  "pCurrentLeg p = Some i \<Longrightarrow> parse_attribute (''mid:'' @ m) p = Val (update_leg (\<lambda>leg. leg\<lparr>sMid := m\<rparr>) i p)"
  "parse_attribute ''recvonly'' p = Val p" "parse_attribute ''mediaclk:direct=0'' p = Val p"
  "atof t = Val d \<Longrightarrow> parse_attribute (''ptime:'' @ t) p = Val (p\<lparr>parsed := (parsed p)\<lparr>dPacketTimeMs := d\<rparr>\<rparr>)"
  by (simp_all add: parse_attribute_def starts_with_def)

lemma parse_attribute_rtpmap:
  assumes "int_ok pt" "int_ok bits" "int_ok rate" "int_ok ch" "0 < ch" "nPayloadType (parsed p) = pt"
  shows "parse_attribute (''rtpmap:'' @ to_string pt @ '' L'' @ to_string bits @ ''/'' @ to_string rate @ ''/'' @ to_string ch) p
    = Val (p\<lparr>parsed := (parsed p)\<lparr>nBitsPerSample := bits, nSampleRate := rate, nChannels := ch\<rparr>\<rparr>)"
proof -
  let ?v = "''rtpmap:'' @ to_string pt @ '' L'' @ to_string bits @ ''/'' @ to_string rate @ ''/'' @ to_string ch"
  have "parse_attribute ?v p = parse_rtpmap ?v p" by (simp add: parse_attribute_def starts_with_def)
  also have "\<dots> = Val (p\<lparr>parsed := (parsed p)\<lparr>nBitsPerSample := bits, nSampleRate := rate, nChannels := ch\<rparr>\<rparr>)"
    unfolding parse_rtpmap_def sscanf_rtpmap [OF assms(1-4)] using assms(5,6) by simp
  finally show ?thesis .
qed

definition read_leg :: "SdpSession \<Rightarrow> SdpLeg \<Rightarrow> string \<Rightarrow> SdpLeg" where
  "read_leg s leg src = leg\<lparr>sMid := (if 1 < length (vLegs s) then sMid leg else []), sSourceFilter := src\<rparr>"

definition read_formats :: "SdpSession \<Rightarrow> SdpSession \<Rightarrow> SdpSession" where
  "read_formats s t = t\<lparr>nPayloadType := nPayloadType s, nSampleRate := nSampleRate s, nChannels := nChannels s,
     nBitsPerSample := nBitsPerSample s, dPacketTimeMs := dPacketTimeMs s,
     sPtpGrandmaster := (if sPtpGrandmaster s = [] then sPtpGrandmaster t else sPtpGrandmaster s),
     nPtpDomain := (if sPtpGrandmaster s = [] then nPtpDomain t else nPtpDomain s)\<rparr>"

lemma parse_line_plain:
  "plain w \<Longrightarrow> w \<noteq> [] \<Longrightarrow> parse_line (cr (k # CHR ''='' # u @ w)) p =
    (if k = CHR ''s'' then Val (p\<lparr>parsed := (parsed p)\<lparr>sName := u @ w\<rparr>\<rparr>)
     else if k = CHR ''c'' then Val (parse_connection (u @ w) p)
     else if k = CHR ''m'' then parse_media (u @ w) p
     else if k = CHR ''a'' then parse_attribute (u @ w) p
     else Val p)"
  using last_plain [of w u] by (intro parse_line_value) simp

lemma show_double_nonempty [simp]: "show_double x \<noteq> []"
proof -
  have "nat_str m \<noteq> []" for m by simp
  then have "point (take (Suc n) (nat_str m)) b \<noteq> []" "point ''0'' b \<noteq> []" for n m b
    by (simp_all add: point_def Let_def)
  then show ?thesis by (simp add: show_double_def show_positive_def Let_def split: prod.split)
qed

lemma leg_line_media:
  assumes "int_ok (uint port)" "int_ok pt"
  shows "parse_line (cr (''m=audio '' @ to_string (uint port) @ '' RTP/AVP '' @ to_string pt)) p
    = Val (p\<lparr>parsed := (parsed p)\<lparr>vLegs := vLegs (parsed p) @ [default_leg\<lparr>nPort := port, sMulticast := sSessionConnection p\<rparr>],
        nPayloadType := pt\<rparr>, pCurrentLeg := Some (length (vLegs (parsed p))), bInMedia := True\<rparr>)"
  using parse_line_plain [of "to_string pt" "CHR ''m''" "''audio '' @ to_string (uint port) @ '' RTP/AVP ''" p] sscanf_media [OF assms]
  by (simp add: parse_media_def)

lemma leg_line_connection:
  "plain a \<Longrightarrow> CHR ''/'' \<notin> set a \<Longrightarrow> bInMedia p \<Longrightarrow> pCurrentLeg p = Some i
    \<Longrightarrow> parse_line (cr (''c=IN IP4 '' @ a @ ''/32'')) p = Val (update_leg (\<lambda>leg. leg\<lparr>sMulticast := a\<rparr>) i p)"
  using parse_line_plain [of "''/32''" "CHR ''c''" "''IN IP4 '' @ a" p] parse_connection_leg [of a p i]
  by (simp add: plain_def is_space_def)

lemma leg_line_filter:
  "plain src \<Longrightarrow> src \<noteq> [] \<Longrightarrow> pCurrentLeg p = Some i
    \<Longrightarrow> parse_line (cr (''a=source-filter: incl IN IP4 '' @ a @ '' '' @ src)) p = Val (update_leg (\<lambda>leg. leg\<lparr>sSourceFilter := src\<rparr>) i p)"
  using parse_line_plain [of src "CHR ''a''" "''source-filter: incl IN IP4 '' @ a @ '' ''" p] parse_attribute_filter [of src p i a] by simp

lemma leg_line_rtpmap:
  assumes "int_ok pt" "int_ok bits" "int_ok rate" "int_ok ch" "0 < ch" "nPayloadType (parsed p) = pt"
  shows "parse_line (cr (''a=rtpmap:'' @ to_string pt @ '' L'' @ to_string bits @ ''/'' @ to_string rate @ ''/'' @ to_string ch)) p
    = Val (p\<lparr>parsed := (parsed p)\<lparr>nBitsPerSample := bits, nSampleRate := rate, nChannels := ch\<rparr>\<rparr>)"
  using parse_line_plain [of "to_string ch" "CHR ''a''" "''rtpmap:'' @ to_string pt @ '' L'' @ to_string bits @ ''/'' @ to_string rate @ ''/''" p]
    parse_attribute_rtpmap [OF assms] by simp

lemma leg_line_ptime:
  "atof (show_double d) = Val d \<Longrightarrow> parse_line (cr (''a=ptime:'' @ show_double d)) p = Val (p\<lparr>parsed := (parsed p)\<lparr>dPacketTimeMs := d\<rparr>\<rparr>)"
  using parse_line_plain [of "show_double d" "CHR ''a''" "''ptime:''" p] parse_attribute_others(4) [of "show_double d" d p] by simp

lemma leg_line_refclk:
  "int_ok n \<Longrightarrow> parse_line (cr (''a=ts-refclk:ptp=IEEE1588-2008:'' @ gm @ '':'' @ to_string n)) p
    = Val (p\<lparr>parsed := (parsed p)\<lparr>sPtpGrandmaster := gm, nPtpDomain := n\<rparr>\<rparr>)"
  using parse_line_plain [of "to_string n" "CHR ''a''" "''ts-refclk:ptp=IEEE1588-2008:'' @ gm @ '':''" p] parse_attribute_refclk [of n gm p] by simp

lemma leg_line_mid:
  "plain m \<Longrightarrow> m \<noteq> [] \<Longrightarrow> pCurrentLeg p = Some i \<Longrightarrow> parse_line (cr (''a=mid:'' @ m)) p = Val (update_leg (\<lambda>leg. leg\<lparr>sMid := m\<rparr>) i p)"
  using parse_line_plain [of m "CHR ''a''" "''mid:''" p] parse_attribute_others(1) [of p i m] by simp

lemma leg_line_fixed:
  "parse_line (cr ''a=recvonly'') p = Val p" "parse_line (cr ''a=mediaclk:direct=0'') p = Val p"
  using parse_line_plain [of "''recvonly''" "CHR ''a''" "[]" p] parse_line_plain [of "''mediaclk:direct=0''" "CHR ''a''" "[]" p]
    parse_attribute_others(2,3) [of p] by (simp_all add: plain_def is_space_def)
lemma parse_leg_lines:
  assumes s: "session_ok s" and leg: "leg_ok leg" and src: "plain src" "src \<noteq> []"
  shows "\<exists>p'. parse_lines (map cr (leg_lines s leg src)) p = Val p'
    \<and> parsed p' = read_formats s ((parsed p)\<lparr>vLegs := vLegs (parsed p) @ [read_leg s leg src]\<rparr>) \<and> vDupMids p' = vDupMids p"
proof -
  have ok: "int_ok (nPayloadType s)" "int_ok (nBitsPerSample s)" "int_ok (nSampleRate s)" "int_ok (nChannels s)" "0 < nChannels s"
    "int_ok (nPtpDomain s)" and pt: "atof (show_double (dPacketTimeMs s)) = Val (dPacketTimeMs s)"
    and lg: "plain (sMulticast leg)" "CHR ''/'' \<notin> set (sMulticast leg)" "plain (sMid leg)" "sMid leg \<noteq> []"
    using s leg by (auto simp: session_ok_def leg_ok_def)
  have "uint (nPort leg) < 65536" "0 \<le> uint (nPort leg)" using uint_lt2p [of "nPort leg"] by simp_all
  then have port: "int_ok (uint (nPort leg))" unfolding int_ok_def by linarith
  let ?n = "length (vLegs (parsed p))"
  note lines = leg_line_media [OF port ok(1)] leg_line_connection [OF lg(1,2), where i = ?n] leg_line_filter [OF src, where i = ?n]
    leg_line_rtpmap [OF ok(1-5)] leg_line_ptime [OF pt] leg_line_refclk [OF ok(6)] leg_line_mid [OF lg(3,4), where i = ?n] leg_line_fixed
  let ?leg = "leg\<lparr>sMid := [], sSourceFilter := src\<rparr>"
  let ?a = "[''m=audio '' @ to_string (uint (nPort leg)) @ '' RTP/AVP '' @ to_string (nPayloadType s),
     ''c=IN IP4 '' @ sMulticast leg @ ''/32'', ''a=source-filter: incl IN IP4 '' @ sMulticast leg @ '' '' @ src,
     ''a=rtpmap:'' @ to_string (nPayloadType s) @ '' L'' @ to_string (nBitsPerSample s) @ ''/''
       @ to_string (nSampleRate s) @ ''/'' @ to_string (nChannels s),
     ''a=ptime:'' @ show_double (dPacketTimeMs s), ''a=recvonly'']"
  let ?p1 = "p\<lparr>parsed := (parsed p)\<lparr>vLegs := vLegs (parsed p) @ [?leg], nPayloadType := nPayloadType s, nSampleRate := nSampleRate s,
    nChannels := nChannels s, nBitsPerSample := nBitsPerSample s, dPacketTimeMs := dPacketTimeMs s\<rparr>, pCurrentLeg := Some ?n, bInMedia := True\<rparr>"
  have a: "parse_lines (map cr ?a) p = Val ?p1"
    by (simp add: lines update_leg_def default_leg_def del: append_Cons append_Nil append_assoc)
  show ?thesis
    unfolding leg_lines_def map_append parse_lines_append a bindO.simps
    by (cases "sPtpGrandmaster s = []"; cases "1 < length (vLegs s)")
      (simp_all add: lines update_leg_def read_formats_def read_leg_def del: append_Cons append_Nil append_assoc)
qed
fun read_legs :: "SdpSession \<Rightarrow> nat \<Rightarrow> SdpLeg list \<Rightarrow> string \<Rightarrow> string list \<Rightarrow> SdpLeg list" where
  "read_legs s nLeg [] sOriginIp vSourceIps = []"
| "read_legs s nLeg (leg # legs) sOriginIp vSourceIps =
     read_leg s leg (source_ip leg nLeg sOriginIp vSourceIps) # read_legs s (Suc nLeg) legs sOriginIp vSourceIps"

lemma read_formats_twice:
  "read_formats s ((read_formats s (t\<lparr>vLegs := x\<rparr>))\<lparr>vLegs := y\<rparr>) = read_formats s (t\<lparr>vLegs := y\<rparr>)" "vLegs (read_formats s t) = vLegs t"
  by (simp_all add: read_formats_def)

lemma source_ip_plain:
  "leg_ok leg \<Longrightarrow> plain origin \<Longrightarrow> origin \<noteq> [] \<Longrightarrow> \<forall>ip \<in> set ips. plain ip \<and> ip \<noteq> []
    \<Longrightarrow> plain (source_ip leg n origin ips) \<and> source_ip leg n origin ips \<noteq> []"
  by (simp add: source_ip_def leg_ok_def)

lemma parse_legs_lines:
  assumes "session_ok s" "plain origin" "origin \<noteq> []" "\<forall>ip \<in> set ips. plain ip \<and> ip \<noteq> []" "\<forall>leg \<in> set legs. leg_ok leg"
  shows "\<exists>p'. parse_lines (map cr (legs_lines s n legs origin ips)) p = Val p' \<and> vDupMids p' = vDupMids p
    \<and> parsed p' = (if legs = [] then parsed p else read_formats s ((parsed p)\<lparr>vLegs := vLegs (parsed p) @ read_legs s n legs origin ips\<rparr>))"
  using assms(5)
proof (induction legs arbitrary: n p)
  case (Cons leg legs)
  let ?src = "source_ip leg n origin ips"
  have "plain ?src" "?src \<noteq> []" using source_ip_plain [of leg] Cons.prems assms(2-4) by auto
  from parse_leg_lines [OF assms(1) _ this, of leg p] Cons.prems obtain p1 where
    p1: "parse_lines (map cr (leg_lines s leg ?src)) p = Val p1" "vDupMids p1 = vDupMids p"
      "parsed p1 = read_formats s ((parsed p)\<lparr>vLegs := vLegs (parsed p) @ [read_leg s leg ?src]\<rparr>)" by auto
  from Cons.IH [of "Suc n" p1] Cons.prems obtain p2 where
    p2: "parse_lines (map cr (legs_lines s (Suc n) legs origin ips)) p1 = Val p2" "vDupMids p2 = vDupMids p1"
      "parsed p2 = (if legs = [] then parsed p1 else read_formats s ((parsed p1)\<lparr>vLegs := vLegs (parsed p1) @ read_legs s (Suc n) legs origin ips\<rparr>))"
    by auto
  show ?case using p1 p2 by (auto simp: parse_lines_append read_formats_twice)
qed simp

lemma Trim_value: "Trim (k # CHR ''='' # v @ [CHR 0x0D]) = k # CHR ''='' # Trim v"
proof -
  have "dropWhile blank (rev v @ [CHR ''='', k]) = dropWhile blank (rev v) @ [CHR ''='', k]"
    by (induction "rev v" arbitrary: v) (auto simp: dropWhile_append blank_def)
  then show ?thesis by (simp add: Trim_def blank_def [abs_def])
qed

lemma parse_header_lines:
  assumes "session_ok s"
  shows "parse_lines (map cr (header_lines nSessId s origin)) init_parser
    = Val (init_parser\<lparr>parsed := default_session\<lparr>sName := Trim (sName s)\<rparr>,
                       vDupMids := (if 1 < length (vLegs s) then map sMid (vLegs s) else [])\<rparr>)"
proof -
  have other: "parse_line (cr (k # CHR ''='' # v)) p = Val p" if "k \<notin> {CHR ''s'', CHR ''c'', CHR ''m'', CHR ''a''}" for k v p
    using that by (simp add: parse_line_def Trim_value)
  have nm: "parse_line (cr (CHR ''s'' # CHR ''='' # v)) p = Val (p\<lparr>parsed := (parsed p)\<lparr>sName := Trim v\<rparr>\<rparr>)" for v p
    by (simp add: parse_line_def Trim_value)
  let ?g = "concat (map (\<lambda>leg. CHR '' '' # sMid leg) (vLegs s))"
  have group: "parse_line (cr (''a=group:DUP'' @ ?g)) p = Val (p\<lparr>vDupMids := vDupMids p @ map sMid (vLegs s)\<rparr>)" for p
  proof -
    obtain leg legs where l: "vLegs s = leg # legs" using assms by (cases "vLegs s") (auto simp: session_ok_def)
    have mids: "\<forall>w \<in> set (map sMid (vLegs s)). w \<noteq> [] \<and> plain w" using assms by (auto simp: session_ok_def leg_ok_def)
    obtain ys y where y: "vLegs s = ys @ [y]" using l by (metis list.distinct(1) rev_exhaust)
    have uw: "?g = (concat (map (\<lambda>leg. CHR '' '' # sMid leg) ys) @ '' '') @ sMid y" "plain (sMid y)" "sMid y \<noteq> []"
      using mids by (simp_all add: y)
    have "parse_line (cr (''a=group:DUP'' @ ?g)) p = parse_attribute (''group:DUP'' @ ?g) p"
      using parse_line_plain [OF uw(2,3), of "CHR ''a''" "''group:DUP'' @ concat (map (\<lambda>leg. CHR '' '' # sMid leg) ys) @ '' ''" p] by (simp add: uw(1))
    also have "\<dots> = Val (p\<lparr>vDupMids := vDupMids p @ stream_words (sMid leg @ concat (map (\<lambda>leg. CHR '' '' # sMid leg) legs))\<rparr>)"
      by (simp add: parse_attribute_def starts_with_def l)
    also have "stream_words (sMid leg @ concat (map (\<lambda>leg. CHR '' '' # sMid leg) legs)) = map sMid (vLegs s)"
      using stream_words_list [of "sMid leg" "map sMid legs"] mids by (simp add: l o_def)
    finally show ?thesis .
  qed
  have lines: "parse_line (cr ''v=0'') p = Val p" "parse_line (cr (''o=- '' @ v)) p = Val p" "parse_line (cr ''t=0 0'') p = Val p"
    "parse_line (cr (''s='' @ v)) p = Val (p\<lparr>parsed := (parsed p)\<lparr>sName := Trim v\<rparr>\<rparr>)" for v p
    using other [of "CHR ''v''" "''0''" p] other [of "CHR ''o''" "''- '' @ v" p] other [of "CHR ''t''" "''0 0''" p] nm [of v p] by simp_all
  show ?thesis by (simp add: header_lines_def parse_lines_append lines group init_parser_def
        del: append_Cons append_Nil append_assoc)
qed

lemma group_legs_same: "distinct (map sMid legs) \<Longrightarrow> group_legs (map sMid legs) legs = legs"
proof -
  have one: "filter (\<lambda>l. sMid l = sMid leg) legs = [leg]" if "distinct (map sMid legs)" "leg \<in> set legs" for leg :: SdpLeg and legs
    using that by (induction legs) (auto simp: filter_empty_conv image_iff)
  show ?thesis if "distinct (map sMid legs)"
    using one [OF that] unfolding group_legs_def map_map o_def
    by (subst map_cong [OF refl, of legs _ "\<lambda>l. [l]"]) auto
qed

lemma lines_no_newline:
  assumes s: "session_ok s" and ips: "plain origin" "origin \<noteq> []" "\<forall>ip \<in> set ips. plain ip \<and> ip \<noteq> []"
  shows "\<forall>l \<in> set (header_lines nSessId s origin @ legs_lines s 0 (vLegs s) origin ips). CHR 0x0A \<notin> set l"
proof -
  have num: "CHR 0x0A \<notin> set (nat_str n)" for n using plain_to_string [of "int n"] by (simp add: to_string_def)
  have leg: "\<forall>l \<in> set (leg_lines s leg src). CHR 0x0A \<notin> set l" if "leg_ok leg" "plain src" for leg src
    using that s by (auto simp: leg_lines_def leg_ok_def session_ok_def)
  have "\<forall>l \<in> set (legs_lines s n legs origin ips). CHR 0x0A \<notin> set l" if "\<forall>leg \<in> set legs. leg_ok leg" for n legs
    using that
  proof (induction legs arbitrary: n)
    case (Cons a legs)
    have a: "leg_ok a" using Cons.prems by simp
    have "\<forall>l \<in> set (leg_lines s a (source_ip a n origin ips)). CHR 0x0A \<notin> set l"
      using leg [OF a] source_ip_plain [OF a ips, of n] by blast
    then show ?case using Cons by auto
  qed simp
  moreover have "\<forall>l \<in> set (header_lines nSessId s origin). CHR 0x0A \<notin> set l"
    using s ips(1) num by (auto simp: header_lines_def session_ok_def leg_ok_def)
  ultimately show ?thesis using s by (auto simp: session_ok_def)
qed

lemma read_legs_mids:
  "1 < length (vLegs s) \<Longrightarrow> map sMid (read_legs s n legs origin ips) = map sMid legs" "length (read_legs s n legs origin ips) = length legs"
  by (induction legs arbitrary: n) (simp_all add: read_leg_def)

lemma finish_printed:
  assumes "vLegs s \<noteq> []" "length (vLegs s) \<le> 2" "distinct (map sMid (vLegs s))"
    and "vDupMids p = (if 1 < length (vLegs s) then map sMid (vLegs s) else [])"
    and "parsed p = s\<lparr>sName := n, vLegs := read_legs s 0 (vLegs s) origin ips\<rparr>"
  shows "finish_session p = Some (s\<lparr>sName := n, vLegs := read_legs s 0 (vLegs s) origin ips\<rparr>)"
proof -
  let ?legs = "read_legs s 0 (vLegs s) origin ips"
  have len: "length ?legs \<le> 2" "?legs \<noteq> []" using assms(1,2) read_legs_mids(2) [of s 0 "vLegs s" origin ips] by auto
  have "group_legs (vDupMids p) ?legs = ?legs" if "1 < length (vLegs s)"
    using that assms(3,4) group_legs_same [of ?legs] read_legs_mids(1) [OF that, of 0 "vLegs s" origin ips] by simp
  then show ?thesis using len assms(4,5) by (simp add: finish_session_def Let_def)
qed

lemma parse_printed:
  assumes s: "session_ok s" and ips: "plain origin" "origin \<noteq> []" "\<forall>ip \<in> set ips. plain ip \<and> ip \<noteq> []"
  shows "ParseSdp (GenerateSdp nSessId s origin ips)
    = Val (Some (s\<lparr>sName := Trim (sName s), vLegs := read_legs s 0 (vLegs s) origin ips\<rparr>))"
proof -
  let ?legs = "read_legs s 0 (vLegs s) origin ips"
  have ok: "vLegs s \<noteq> []" "length (vLegs s) \<le> 2" "\<forall>leg \<in> set (vLegs s). leg_ok leg" "distinct (map sMid (vLegs s))"
    "sPtpGrandmaster s = [] \<longrightarrow> nPtpDomain s = 0"
    using s by (auto simp: session_ok_def)
  obtain p where p: "parse_lines (map cr (header_lines nSessId s origin @ legs_lines s 0 (vLegs s) origin ips)) init_parser = Val p"
    "vDupMids p = (if 1 < length (vLegs s) then map sMid (vLegs s) else [])"
    "parsed p = read_formats s (default_session\<lparr>sName := Trim (sName s), vLegs := ?legs\<rparr>)"
    using parse_legs_lines [OF s ips ok(3), of 0 "init_parser\<lparr>parsed := default_session\<lparr>sName := Trim (sName s)\<rparr>,
        vDupMids := (if 1 < length (vLegs s) then map sMid (vLegs s) else [])\<rparr>"] parse_header_lines [OF s] ok(1)
    by (auto simp: parse_lines_append default_session_def)
  have fin: "parsed p = s\<lparr>sName := Trim (sName s), vLegs := ?legs\<rparr>"
    unfolding p(3) using ok(5) by (cases s) (simp add: read_formats_def default_session_def)
  have "\<forall>l \<in> set (header_lines nSessId s origin @ legs_lines s 0 (vLegs s) origin ips). CHR 0x0A \<notin> set l"
    by (rule lines_no_newline [OF s ips])
  then have "ParseSdp (GenerateSdp nSessId s origin ips) = Val (finish_session p)"
    unfolding ParseSdp_def GenerateSdp_def by (simp only: getlines_crlf p(1) bindO.simps)
  moreover have "finish_session p = Some (s\<lparr>sName := Trim (sName s), vLegs := ?legs\<rparr>)"
    by (rule finish_printed [OF ok(1,2,4) p(2) fin])
  ultimately show ?thesis by simp
qed

text \<open>
  C10. Round trip: the parser reads back a session that the printer wrote, with the source address
  that was printed for each leg; only white space at the end of the name, and the name of a
  single leg, are not kept.
\<close>

theorem ParseSdp_GenerateSdp:
  assumes s: "session_ok s" and ips: "plain origin" "origin \<noteq> []" "\<forall>ip \<in> set ips. plain ip \<and> ip \<noteq> []"
  shows "ParseSdp (GenerateSdp nSessId s origin ips)
    = Val (Some (s\<lparr>sName := Trim (sName s), vLegs := read_legs s 0 (vLegs s) origin ips\<rparr>))"
  using assms by (rule parse_printed)

definition sample_session :: SdpSession where
  "sample_session = default_session\<lparr>sName := ''studio'',
     vLegs := [\<lparr>sMid = ''primary'', sMulticast = ''239.69.145.10'', sSourceFilter = ''10.0.0.1'', nPort = 5004\<rparr>,
               \<lparr>sMid = ''secondary'', sMulticast = ''239.69.146.10'', sSourceFilter = [], nPort = 5004\<rparr>],
     dPacketTimeMs := 1/8, sPtpGrandmaster := ''00:1b:21:ff:fe:00:00:01''\<rparr>"

lemma show_eighth: "show_double (1/8) = ''0.125''"
proof -
  have log: "ilog10 (1/8) = -1" and m: "rne (1/8 * 10 powi 6) = 125000" by code_simp+
  have d: "digit_char 0 = CHR ''0''" "digit_char 1 = CHR ''1''" "digit_char 2 = CHR ''2''" "digit_char 5 = CHR ''5''" by code_simp+
  have "nat_str 125000 = ''125000''" using d by (simp add: nat_str.simps)
  then show ?thesis by (simp add: show_double_def show_positive_def log m [simplified] Let_def point_def strip_zeros_def)
qed

lemma sample_session_ok: "session_ok sample_session"
proof -
  have "scan_float ''0.125'' = Some (1/8)" "rnd64 (1/8) = 1/8" "scan_sign (skip_space (c_str ''0.125'')) = (False, ''0.125'')"
    by code_simp+
  moreover have "\<not> (2::rat) powi 1024 \<le> 1/8"
  proof -
    have "(1::rat) \<le> 2 powi 1024" unfolding power_int_def by simp
    then show ?thesis by linarith
  qed
  ultimately have "atof ''0.125'' = Val (1/8)" by (simp add: atof_def del: power_int_numeral)
  moreover have "\<forall>leg \<in> set (vLegs sample_session). leg_ok leg" "plain (sPtpGrandmaster sample_session)"
    "CHR 0x0A \<notin> set (sName sample_session)" "distinct (map sMid (vLegs sample_session))" by code_simp+
  ultimately show ?thesis
    by (simp add: session_ok_def sample_session_def default_session_def show_eighth int_ok_def)
qed

theorem ParseSdp_GenerateSdp_witness:
  "ParseSdp (GenerateSdp 1700000000 sample_session ''10.0.0.1'' [''10.0.0.1'', ''10.1.0.1''])
    = Val (Some (sample_session\<lparr>vLegs :=
        [\<lparr>sMid = ''primary'', sMulticast = ''239.69.145.10'', sSourceFilter = ''10.0.0.1'', nPort = 5004\<rparr>,
         \<lparr>sMid = ''secondary'', sMulticast = ''239.69.146.10'', sSourceFilter = ''10.1.0.1'', nPort = 5004\<rparr>]\<rparr>))"
proof -
  have "plain ''10.0.0.1''" "\<forall>ip \<in> set [''10.0.0.1'', ''10.1.0.1'']. plain ip \<and> ip \<noteq> []"
    by code_simp+
  from ParseSdp_GenerateSdp [OF sample_session_ok this(1) _ this(2)]
  have "ParseSdp (GenerateSdp 1700000000 sample_session ''10.0.0.1'' [''10.0.0.1'', ''10.1.0.1''])
    = Val (Some (sample_session\<lparr>sName := Trim (sName sample_session),
        vLegs := read_legs sample_session 0 (vLegs sample_session) ''10.0.0.1'' [''10.0.0.1'', ''10.1.0.1'']\<rparr>))" by simp
  moreover have "Trim (sName sample_session) = sName sample_session"
    "read_legs sample_session 0 (vLegs sample_session) ''10.0.0.1'' [''10.0.0.1'', ''10.1.0.1'']
      = [\<lparr>sMid = ''primary'', sMulticast = ''239.69.145.10'', sSourceFilter = ''10.0.0.1'', nPort = 5004\<rparr>,
         \<lparr>sMid = ''secondary'', sMulticast = ''239.69.146.10'', sSourceFilter = ''10.1.0.1'', nPort = 5004\<rparr>]"
    by code_simp+
  ultimately show ?thesis by simp
qed

section \<open>Any input\<close>

lemma scan_int_no_throw: "scan_int s \<noteq> Throw"
  by (simp add: scan_int_def Let_def split: prod.split)

lemma bindO_Throw: "bindO m f = Throw \<longleftrightarrow> m = Throw \<or> (\<exists>x. m = Val x \<and> f x = Throw)"
  by (cases m) auto

lemma scan_no_throw: "scan ds s \<noteq> Throw"
proof (induction ds s rule: scan.induct)
  case (4 ds s)
  show ?case
  proof (cases "scan_int s")
    case (Val x)
    show ?thesis
    proof (cases x)
      case (Some nr)
      then show ?thesis using Val 4 [of x nr "fst nr" "snd nr"] by (cases nr; cases "scan ds (snd nr)") auto
    qed (simp add: Val)
  qed (use scan_int_no_throw in auto)
qed (auto simp: bindO_Throw split: list.splits)

lemma sscanf_no_throw: "sscanf s fmt \<noteq> Throw"
  by (simp add: sscanf_def scan_no_throw)

lemma parse_line_no_throw: "parse_line l p \<noteq> Throw"
proof -
  have "parse_media v p \<noteq> Throw" "parse_rtpmap v p \<noteq> Throw" for v
    by (simp_all add: parse_media_def parse_rtpmap_def sscanf_no_throw bindO_Throw)
  moreover have at: "atoi v \<noteq> Throw" "atof v \<noteq> Throw" for v
    by (simp_all add: atoi_def atof_def scan_int_no_throw bindO_Throw Let_def split: prod.split option.split)
  moreover have "parse_refclk v p \<noteq> Throw" for v
    by (simp add: parse_refclk_def at bindO_Throw Let_def split: option.split)
  ultimately show ?thesis
    by (simp add: parse_line_def parse_attribute_def bindO_Throw split: list.split)
qed

text \<open>The pointer to the current leg is valid whenever it is used.\<close>

definition parser_ok :: "SdpParser \<Rightarrow> bool" where
  "parser_ok p \<longleftrightarrow> (case pCurrentLeg p of None \<Rightarrow> vLegs (parsed p) = [] \<and> \<not> bInMedia p | Some i \<Rightarrow> i < length (vLegs (parsed p)) \<and> bInMedia p)"

lemma update_leg_ok: "parser_ok p \<Longrightarrow> parser_ok (update_leg f i p)"
  by (simp add: parser_ok_def update_leg_def split: option.splits)

lemma parser_ok_fields [simp]:
  "parser_ok (p\<lparr>vDupMids := x\<rparr>) = parser_ok p" "parser_ok (p\<lparr>sSessionConnection := y\<rparr>) = parser_ok p"
  "parser_ok (p\<lparr>parsed := (parsed p)\<lparr>sName := n\<rparr>\<rparr>) = parser_ok p"
  "parser_ok (p\<lparr>parsed := (parsed p)\<lparr>dPacketTimeMs := d\<rparr>\<rparr>) = parser_ok p"
  by (simp_all add: parser_ok_def split: option.split)

lemma parser_ok_formats: "parser_ok p \<Longrightarrow> vLegs t = vLegs (parsed p) \<Longrightarrow> parser_ok (p\<lparr>parsed := t\<rparr>)"
  by (simp add: parser_ok_def split: option.splits)

lemma parse_line_ok: "parse_line l p = Val p' \<Longrightarrow> parser_ok p \<Longrightarrow> parser_ok p'"
proof -
  have media: "parser_ok p'" if "parse_media v p = Val p'" "parser_ok p" for v p'
  proof -
    from that(1) obtain ns where "sscanf v ''audio %d RTP/AVP %d'' = Val ns" by (auto simp: parse_media_def)
    then show ?thesis using that by (cases ns) (auto simp: parse_media_def parser_ok_def)
  qed
  have rest: "parse_rtpmap v p = Val p' \<Longrightarrow> parser_ok p \<Longrightarrow> parser_ok p'" "parse_refclk v p = Val p' \<Longrightarrow> parser_ok p \<Longrightarrow> parser_ok p'"
    for v p'
    using parser_ok_formats by (auto simp: parse_rtpmap_def parse_refclk_def Let_def split: option.splits if_splits)
  have conn: "parser_ok p \<Longrightarrow> parser_ok (parse_connection v p)" for v
    using update_leg_ok [of p] by (auto simp: parse_connection_def Let_def split: option.splits bool.splits)
  have attr: "parse_attribute v p = Val p' \<Longrightarrow> parser_ok p \<Longrightarrow> parser_ok p'" for v p'
    using rest update_leg_ok [of p]
    by (auto simp: parse_attribute_def split: if_splits option.splits)
  show "parse_line l p = Val p' \<Longrightarrow> parser_ok p \<Longrightarrow> parser_ok p'"
    using media conn attr by (auto simp: parse_line_def split: list.splits if_splits)
qed

lemma parse_lines_ok: "parse_lines ls p = Val p' \<Longrightarrow> parser_ok p \<Longrightarrow> parser_ok p'"
  by (induction ls arbitrary: p) (auto dest: parse_line_ok)

lemma parse_lines_no_throw: "parse_lines ls p \<noteq> Throw"
  by (induction ls arbitrary: p) (simp_all add: bindO_Throw parse_line_no_throw)



text \<open>
  A media section that is not audio does not end the section before it: here the connection
  address of a video section replaces that of the audio leg.
\<close>

theorem video_section_overwrites:
  "ParseSdp (concat (map (\<lambda>l. l @ [CHR 0x0A]) [''m=audio 5004 RTP/AVP 96'', ''c=IN IP4 239.1.1.1/32'', ''m=video 5006 RTP/AVP 97'', ''c=IN IP4 239.9.9.9/32'']))
     = Val (Some (default_session\<lparr>vLegs := [default_leg\<lparr>sMulticast := ''239.9.9.9''\<rparr>]\<rparr>))"
  by code_simp

end
