(* ===== verification/Media_Clock.thy ===== *)
theory Media_Clock
  imports Cxx_Text
begin

text \<open>
  The media clock of the streams: samples since the PTP epoch at 48 kHz.  The sender derives its RTP
  timestamps from it and the receiver its playout anchor; both split the seconds off first, because
  the product of the nanoseconds and the rate does not fit 64 bits.
\<close>

definition media_samples :: "u64 \<Rightarrow> u64" where
  "media_samples nNs = (nNs div 1000000000) * 48000 + (nNs mod 1000000000) * 48000 div 1000000000"

lemma nat_split_floor:
  fixes ns :: nat
  shows "(ns div 1000000000) * 48000 + (ns mod 1000000000) * 48000 div 1000000000 = ns * 48000 div 1000000000"
proof -
  let ?r = "ns mod 1000000000" and ?q = "ns div 1000000000"
  have "ns * 48000 div 1000000000 = (?r + 1000000000 * ?q) * 48000 div 1000000000"
    by (simp only: mod_mult_div_eq)
  also have "(?r + 1000000000 * ?q) * 48000 = ?r * 48000 + 1000000000 * (?q * 48000)"
    by (simp only: add_mult_distrib mult.assoc)
  finally show ?thesis by (simp only: div_mult_self2)
qed

lemma media_samples_exact: "unat (media_samples nNs) = unat nNs * 48000 div 1000000000"
proof -
  let ?n = "unat nNs"
  let ?a = "nNs div 1000000000" and ?b = "nNs mod 1000000000"
  have "?n < 2 ^ 64" using unsigned_less [of nNs] by simp
  then have "?n div 1000000000 \<le> (2 ^ 64 - 1) div 1000000000" by (intro div_le_mono) simp
  then have a: "unat ?a * 48000 < 1000000000000000" by (simp add: unat_div)
  have "?n mod 1000000000 < 1000000000" by simp
  then have b: "unat ?b * 48000 < 48000000000000" by (simp add: unat_mod)
  have "unat (?a * 48000) = unat ?a * 48000" "unat (?b * 48000) = unat ?b * 48000"
    using a b by (simp_all add: unat_word_ariths(2))
  moreover have "unat ?b * 48000 div 1000000000 < 48000" using b by (simp add: less_mult_imp_div_less)
  ultimately have "unat (media_samples nNs) = unat ?a * 48000 + unat ?b * 48000 div 1000000000"
    using a unfolding media_samples_def by (simp add: unat_word_ariths(1) unat_div)
  also have "\<dots> = ?n * 48000 div 1000000000"
    using nat_split_floor [of ?n] by (simp add: unat_div unat_mod)
  finally show ?thesis .
qed

text \<open>The RTP timestamp is the media clock modulo \<open>2 ^ 32\<close>.\<close>

definition media_timestamp :: "u64 \<Rightarrow> u32" where
  "media_timestamp nNs = ucast (media_samples nNs)"

lemma media_timestamp_exact: "media_timestamp nNs = of_nat (unat nNs * 48000 div 1000000000)"
proof -
  have "ucast (media_samples nNs) = (of_nat (unat (media_samples nNs)) :: u32)"
    by (simp only: of_nat_unat)
  then show ?thesis by (simp add: media_timestamp_def media_samples_exact)
qed

end
