(* ===== verification/Rtp_Receiver.thy ===== *)
theory Rtp_Receiver
  imports Audio Sdp Media_Clock
begin

text \<open>
  The stream receiver of \<^verbatim>\<open>src/src/rtp/rtpreceiver.cpp\<close>: two redundant legs whose packets meet in one
  jitter buffer of 1024 slots indexed by sequence number, and a playout thread that empties the
  buffer in sequence order into the playback device.  \<open>HandlePacket\<close> is the receiving side;
  \<open>play_step\<close> is the playout thread, cut where the other thread can run in between.  Sockets, the
  clocks and the level of the device buffer are readings of the environment.
\<close>

section \<open>State\<close>

record Slot =
  nGeneration :: u32
  slot_nSeq :: u16
  vSamples :: "float32 list"

record LegState =
  nSocket :: int
  leg_sInterface :: string
  leg_sMulticast :: string
  nReceived :: u64
  nLost :: u64
  bActive :: bool
  nLastSeq :: u16
  bHaveSeq :: bool
  lastPacket :: int

record BufferSample =
  fMin :: float32
  fMax :: float32
  fLast :: float32

record RtpReceiver =
  m_session :: SdpSession
  m_aLegs :: "LegState list"
  m_nLegCount :: nat
  m_nPlayoutDelayMs :: int
  m_vJitter :: "Slot list"
  m_bHaveFirst :: bool
  m_nFirstSeq :: u16
  m_nFirstTs :: u32
  m_nFramesPerPacket :: nat
  rx_bRun :: bool
  m_bReceiving :: bool
  m_nPlayed :: u64
  m_nConcealed :: u64
  m_nDuplicates :: u64
  m_nMergedFromSecondary :: u64
  m_nMonLeft :: int
  m_nMonRight :: int
  rx_meters :: Meters
  m_qBufferHistory :: "BufferSample list"

abbreviation JITTER_SLOTS :: nat where
  "JITTER_SLOTS \<equiv> 1024"

definition init_leg :: LegState where
  "init_leg = \<lparr>nSocket = -1, leg_sInterface = [], leg_sMulticast = [], nReceived = 0, nLost = 0,
     bActive = False, nLastSeq = 0, bHaveSeq = False, lastPacket = 0\<rparr>"

definition init_slot :: Slot where
  "init_slot = \<lparr>nGeneration = 0, slot_nSeq = 0, vSamples = []\<rparr>"

definition init_receiver :: RtpReceiver where
  "init_receiver = \<lparr>m_session = default_session, m_aLegs = [init_leg, init_leg], m_nLegCount = 0,
     m_nPlayoutDelayMs = 20, m_vJitter = replicate JITTER_SLOTS init_slot, m_bHaveFirst = False,
     m_nFirstSeq = 0, m_nFirstTs = 0, m_nFramesPerPacket = 48, rx_bRun = False, m_bReceiving = False,
     m_nPlayed = 0, m_nConcealed = 0, m_nDuplicates = 0, m_nMergedFromSecondary = 0,
     m_nMonLeft = -1, m_nMonRight = -1, rx_meters = init_meters, m_qBufferHistory = []\<rparr>"

section \<open>Starting and stopping\<close>

definition SetMonitor :: "int \<Rightarrow> int \<Rightarrow> RtpReceiver \<Rightarrow> RtpReceiver" where
  "SetMonitor nLeft nRight s = s\<lparr>m_nMonLeft := nLeft, m_nMonRight := nRight\<rparr>"

definition LostPackets :: "nat \<Rightarrow> RtpReceiver \<Rightarrow> u64" where
  "LostPackets nLeg s = (if nLeg < 2 then nLost (m_aLegs s ! nLeg) else 0)"

text \<open>\<open>Stop\<close> joins both threads, so no step of theirs runs until the next \<open>Configure\<close>.\<close>

definition rx_Stop :: "RtpReceiver \<Rightarrow> RtpReceiver" where
  "rx_Stop s = s\<lparr>rx_bRun := False,
     m_aLegs := map (\<lambda>leg. leg\<lparr>nSocket := (if 0 \<le> nSocket leg then -1 else nSocket leg),
                               bActive := False, bHaveSeq := False\<rparr>) (m_aLegs s),
     m_bReceiving := False, m_bHaveFirst := False\<rparr>"

text \<open>
  The frames of a packet, from the packet time of the session.  A negative size, or one beyond the
  range of \<^verbatim>\<open>size_t\<close>, has no defined conversion: \<open>None\<close>.
\<close>

definition frames_per_packet :: "double \<Rightarrow> nat option" where
  "frames_per_packet dPacketTime =
     (let d = rnd64 (rnd64 (48000 * dPacketTime) / 1000)
      in if d \<le> -1 \<or> 18446744073709551616 \<le> d then None
         else if trunc d = 0 then Some 48 else Some (nat (trunc d)))"

text \<open>
  The loop over the legs; \<open>open_leg\<close> is the socket call, giving the descriptor or a negative value.
  The result says whether every leg was opened.
\<close>

fun open_legs ::
  "(string \<Rightarrow> string \<Rightarrow> u16 \<Rightarrow> int) \<Rightarrow> string list \<Rightarrow> (nat \<times> SdpLeg) list \<Rightarrow> LegState list \<Rightarrow> bool \<times> LegState list" where
  "open_legs open_leg vInterfaces [] aLegs = (True, aLegs)"
| "open_legs open_leg vInterfaces ((nLeg, sdp) # todo) aLegs =
     (let sIf = (if nLeg < length vInterfaces \<and> vInterfaces ! nLeg \<noteq> [] then vInterfaces ! nLeg
                 else vInterfaces ! 0);
          sock = open_leg sIf (sMulticast sdp) (nPort sdp);
          leg = (aLegs ! nLeg)\<lparr>leg_sInterface := sIf, leg_sMulticast := sMulticast sdp, nReceived := 0,
                  nLost := 0, nSocket := sock\<rparr>;
          aLegs = aLegs[nLeg := leg]
      in if sock < 0 then (False, aLegs) else open_legs open_leg vInterfaces todo aLegs)"

definition rx_Configure ::
  "(string \<Rightarrow> string \<Rightarrow> u16 \<Rightarrow> int) \<Rightarrow> SdpSession \<Rightarrow> string list \<Rightarrow> int \<Rightarrow> RtpReceiver
    \<Rightarrow> (bool \<times> RtpReceiver) option" where
  "rx_Configure open_leg session vInterfaces nPlayoutDelayMs s =
    (let s = rx_Stop s in
     if vLegs session = [] \<or> vInterfaces = [] then Some (False, s)
     else do {
       nFrames \<leftarrow> frames_per_packet (dPacketTimeMs session);
       let nCount = min (length (vLegs session)) 2;
       let (ok, aLegs) = open_legs open_leg vInterfaces
             (zip [0..<nCount] (take nCount (vLegs session))) (m_aLegs s);
       let s = s\<lparr>m_session := session, m_nPlayoutDelayMs := clamp nPlayoutDelayMs 2 500,
                 m_nLegCount := nCount, m_nFramesPerPacket := nFrames, m_aLegs := aLegs\<rparr>;
       if \<not> ok then Some (False, s)
       else Some (True, s\<lparr>m_vJitter := map (\<lambda>slot. slot\<lparr>nGeneration := 0\<rparr>) (m_vJitter s),
              m_bHaveFirst := False, m_nPlayed := 0, m_nConcealed := 0, m_nDuplicates := 0,
              m_nMergedFromSecondary := 0, m_qBufferHistory := [], rx_meters := Reset (rx_meters s),
              rx_bRun := True\<rparr>)
     })"

section \<open>Receiving\<close>

definition note_arrival :: "int \<Rightarrow> u16 \<Rightarrow> LegState \<Rightarrow> LegState" where
  "note_arrival now nSeq leg =
    (let leg = leg\<lparr>lastPacket := now, bActive := True, nReceived := nReceived leg + 1\<rparr>;
         nDiff = sint (nSeq - nLastSeq leg);
         leg = (if bHaveSeq leg \<and> 1 < nDiff then leg\<lparr>nLost := nLost leg + of_int (nDiff - 1)\<rparr> else leg)
     in leg\<lparr>nLastSeq := nSeq, bHaveSeq := True\<rparr>)"

text \<open>One sample of the payload; the integer and its quotient are converted to \<^verbatim>\<open>float\<close>.\<close>

definition Decode :: "nat \<Rightarrow> bytes \<Rightarrow> nat \<Rightarrow> float32 option" where
  "Decode nBytesPerSample pPayload nIndex =
    (let p = nIndex * nBytesPerSample in
     if nBytesPerSample = 2 then do {
       a \<leftarrow> rd pPayload p; b \<leftarrow> rd pPayload (p + 1);
       Some (rnd32 (rnd32 (of_int (sint (be16 a b))) / 32768))
     } else do {
       a \<leftarrow> rd pPayload p; b \<leftarrow> rd pPayload (p + 1); c \<leftarrow> rd pPayload (p + 2);
       let nSample = be32 0 a b c;
       let nSample = (if nSample AND 0x800000 \<noteq> 0 then nSample OR 0xff000000 else nSample);
       Some (rnd32 (rnd32 (of_int (sint nSample)) / 8388608))
     })"

definition monitor_pair :: "int \<Rightarrow> int \<Rightarrow> nat \<Rightarrow> nat \<times> nat" where
  "monitor_pair nMonLeft nMonRight nCh =
    (let nLeft = (if 0 \<le> nMonLeft \<and> nat nMonLeft < nCh then nat nMonLeft else 0);
         nRight = (if 0 \<le> nMonRight \<and> nat nMonRight < nCh then nat nMonRight
                   else if 2 \<le> nCh then 1 else nLeft)
     in (nLeft, nRight))"

fun decode_frames :: "nat \<Rightarrow> bytes \<Rightarrow> nat \<Rightarrow> nat \<Rightarrow> nat \<Rightarrow> nat \<Rightarrow> nat \<Rightarrow> float32 list option" where
  "decode_frames nBytes pPayload nCh nLeft nRight nFrame 0 = Some []"
| "decode_frames nBytes pPayload nCh nLeft nRight nFrame (Suc n) = do {
     l \<leftarrow> Decode nBytes pPayload (nFrame * nCh + nLeft);
     r \<leftarrow> Decode nBytes pPayload (nFrame * nCh + nRight);
     rest \<leftarrow> decode_frames nBytes pPayload nCh nLeft nRight (Suc nFrame) n;
     Some (l # r # rest)
   }"

definition bytes_per_sample :: "SdpSession \<Rightarrow> nat" where
  "bytes_per_sample ses = (if nBitsPerSample ses = 16 then 2 else 3)"

definition channel_count :: "SdpSession \<Rightarrow> nat" where
  "channel_count ses = (if 0 < nChannels ses then nat (nChannels ses) else 1)"

definition generation :: "u16 \<Rightarrow> u32" where
  "generation nSeq = ucast nSeq + 1"

definition HandlePacket :: "nat \<Rightarrow> bytes \<Rightarrow> int \<Rightarrow> RtpReceiver \<Rightarrow> RtpReceiver option" where
  "HandlePacket nLeg pData now s = do {
     b0 \<leftarrow> rd pData 0;
     if b0 AND 0xc0 \<noteq> 0x80 then Some s
     else do {
       b2 \<leftarrow> rd pData 2; b3 \<leftarrow> rd pData 3;
       let nSeq = be16 b2 b3;
       b4 \<leftarrow> rd pData 4; b5 \<leftarrow> rd pData 5; b6 \<leftarrow> rd pData 6; b7 \<leftarrow> rd pData 7;
       let nTs = be32 b4 b5 b6 b7;
       leg \<leftarrow> rd (m_aLegs s) nLeg;
       let s = s\<lparr>m_aLegs := (m_aLegs s)[nLeg := note_arrival now nSeq leg], m_bReceiving := True\<rparr>;
       let nHeader = 12 + unat (b0 AND 0x0f) * 4;
       if length pData \<le> nHeader then Some s
       else do {
         let pPayload = drop nHeader pData;
         let nBytes = bytes_per_sample (m_session s);
         let nCh = channel_count (m_session s);
         let nFrames = length pPayload div (nBytes * nCh);
         if nFrames = 0 then Some s
         else do {
           let nIndex = unat nSeq mod JITTER_SLOTS;
           slot \<leftarrow> rd (m_vJitter s) nIndex;
           if nGeneration slot = generation nSeq then Some (s\<lparr>m_nDuplicates := m_nDuplicates s + 1\<rparr>)
           else do {
             let (nLeft, nRight) = monitor_pair (m_nMonLeft s) (m_nMonRight s) nCh;
             samples \<leftarrow> decode_frames nBytes pPayload nCh nLeft nRight 0 nFrames;
             let slot = slot\<lparr>vSamples := samples, slot_nSeq := nSeq, nGeneration := generation nSeq\<rparr>;
             jitter \<leftarrow> wr (m_vJitter s) nIndex slot;
             let s = s\<lparr>m_vJitter := jitter,
                       m_nMergedFromSecondary := m_nMergedFromSecondary s + (if nLeg = 1 then 1 else 0)\<rparr>;
             Some (if m_bHaveFirst s then s
                   else s\<lparr>m_bHaveFirst := True, m_nFirstSeq := nSeq, m_nFirstTs := nTs\<rparr>)
           }
         }
       }
     }
   }"

text \<open>
  One turn of the receive loop: silent legs are aged, then the datagrams that are ready are
  handled, in the order of the legs.  \<open>ready\<close> holds what \<open>recv\<close> returned for each leg.
\<close>

definition age_legs :: "int \<Rightarrow> RtpReceiver \<Rightarrow> RtpReceiver" where
  "age_legs now s =
    (let fresh = (\<lambda>leg. now - lastPacket leg < 500000000);
         aLegs = map (\<lambda>(i, leg). if i < m_nLegCount s \<and> \<not> fresh leg then leg\<lparr>bActive := False\<rparr> else leg)
                   (zip [0..<length (m_aLegs s)] (m_aLegs s));
         bAny = list_ex fresh (take (m_nLegCount s) (m_aLegs s))
     in s\<lparr>m_aLegs := aLegs, m_bReceiving := (m_bReceiving s \<and> bAny)\<rparr>)"

fun recv_ready :: "(nat \<times> bytes) list \<Rightarrow> int \<Rightarrow> RtpReceiver \<Rightarrow> RtpReceiver option" where
  "recv_ready [] now s = Some s"
| "recv_ready ((nLeg, pData) # ready) now s = do {
     s \<leftarrow> (if 12 < length pData then HandlePacket nLeg pData now s else Some s);
     recv_ready ready now s
   }"

definition RxTurn :: "(nat \<times> bytes) list \<Rightarrow> int \<Rightarrow> RtpReceiver \<Rightarrow> RtpReceiver option" where
  "RxTurn ready now s = recv_ready ready now (age_legs now s)"

section \<open>Playout\<close>

text \<open>
  The anchor: how long playout waits after the first packet.  \<open>Some\<close> of the waiting time in
  microseconds (zero for none); \<open>None\<close> when the subtraction of the age leaves the range of \<^verbatim>\<open>int\<close>.
\<close>

definition anchor_wait :: "bool \<Rightarrow> u64 \<Rightarrow> int \<Rightarrow> u32 \<Rightarrow> int option" where
  "anchor_wait bSynced nPtpNs nDelayMs nFirstTs =
    (if bSynced then
       let nAge = sint (media_timestamp nPtpNs - nFirstTs);
           nWaitSamples = nDelayMs * 48000 div 1000 - nAge
       in if nWaitSamples < - 2147483648 \<or> 2147483647 < nWaitSamples then None
          else if 0 < nWaitSamples \<and> nWaitSamples < 48000 then Some (nWaitSamples * 1000000 div 48000)
          else Some 0
     else Some (nDelayMs * 1000))"

text \<open>
  The playout thread: where it is, and its local variables.  In \<open>WaitFirst\<close> it waits for the first
  packet, in \<open>Anchored\<close> it has slept until the anchor.  In \<open>Writing\<close> the packet has been handed
  to the device and its slot is not yet released; in \<open>Parked\<close> the thread waits for a new stream.
\<close>

datatype play_pc = WaitFirst | Anchored | AtLoop | Writing | Steer | Parked | Done

record Playout =
  pc :: play_pc
  nNextSeq :: u16
  bucketStart :: int
  fBufMin :: float32
  fBufMax :: float32

text \<open>
  What one step reads of its environment: the clocks, and the level of the device buffer at its three
  reading points.
\<close>

record play_env =
  e_now :: int
  e_synced :: bool
  e_ptpNs :: u64
  e_delay :: int \<comment> \<open>before a decision\<close>
  e_delay2 :: int \<comment> \<open>after the pause of 200 us\<close>
  e_level :: int \<comment> \<open>in \<^verbatim>\<open>SampleBuffer\<close>\<close>

definition SampleBuffer :: "play_env \<Rightarrow> Playout \<times> RtpReceiver \<Rightarrow> Playout \<times> RtpReceiver" where
  "SampleBuffer e ps =
    (let (p, s) = ps;
         fMs = rnd32 (rnd32 (rnd32 (of_int (e_level e)) * 1000) / 48000);
         p = p\<lparr>fBufMin := min (fBufMin p) fMs, fBufMax := max (fBufMax p) fMs\<rparr>
     in if 100000000 \<le> e_now e - bucketStart p then
          let q = m_qBufferHistory s @ [\<lparr>fMin = fBufMin p, fMax = fBufMax p, fLast = fMs\<rparr>];
              q = (if 300 < length q then tl q else q)
          in (p\<lparr>bucketStart := e_now e, fBufMin := 1000000000, fBufMax := 0\<rparr>, s\<lparr>m_qBufferHistory := q\<rparr>)
        else (p, s))"

definition play_start :: Playout where
  "play_start = \<lparr>pc = WaitFirst, nNextSeq = 0, bucketStart = 0, fBufMin = 1000000000, fBufMax = 0\<rparr>"

definition slot_index :: "u16 \<Rightarrow> nat" where
  "slot_index nSeq = unat nSeq mod JITTER_SLOTS"

definition slot_ready :: "Slot list \<Rightarrow> u16 \<Rightarrow> bool option" where
  "slot_ready jitter nSeq = do { slot \<leftarrow> rd jitter (slot_index nSeq); Some (nGeneration slot = generation nSeq) }"

definition release :: "Slot list \<Rightarrow> u16 \<Rightarrow> Slot list option" where
  "release jitter nSeq = do {
     slot \<leftarrow> rd jitter (slot_index nSeq);
     wr jitter (slot_index nSeq) (slot\<lparr>nGeneration := 0\<rparr>) }"

fun probe_newer :: "Slot list \<Rightarrow> u16 \<Rightarrow> nat \<Rightarrow> bool option" where
  "probe_newer jitter nNext 0 = Some False"
| "probe_newer jitter nNext (Suc n) = do {
     hit \<leftarrow> slot_ready jitter (nNext + of_nat (16 - n));
     if hit then Some True else probe_newer jitter nNext n
   }"

definition target_frames :: "RtpReceiver \<Rightarrow> int" where
  "target_frames s = m_nPlayoutDelayMs s * 48000 div 1000"

definition silence :: "RtpReceiver \<Rightarrow> float32 list" where
  "silence s = replicate (m_nFramesPerPacket s * 2) 0"

text \<open>A packet of silence in place of the missing one.\<close>

definition conceal :: "play_env \<Rightarrow> Playout \<Rightarrow> RtpReceiver \<Rightarrow> Playout \<times> RtpReceiver \<times> float32 list" where
  "conceal e p s =
    (let (p, s) = SampleBuffer e (p\<lparr>nNextSeq := nNextSeq p + 1, pc := Steer\<rparr>, s\<lparr>m_nConcealed := m_nConcealed s + 1\<rparr>)
     in (p, s, silence s))"

text \<open>
  One step; the third component of the result is the audio handed to the device.
\<close>

definition play_step ::
  "(float32 \<Rightarrow> float32 \<Rightarrow> float32) \<Rightarrow> play_env \<Rightarrow> Playout \<Rightarrow> RtpReceiver
    \<Rightarrow> (Playout \<times> RtpReceiver \<times> float32 list) option" where
  "play_step powf e p s =
    (case pc p of
       WaitFirst \<Rightarrow>
         if \<not> rx_bRun s then Some (p\<lparr>pc := Done\<rparr>, s, [])
         else if \<not> m_bHaveFirst s then Some (p, s, [])
         else do {
           nWaitUs \<leftarrow> anchor_wait (e_synced e) (e_ptpNs e) (m_nPlayoutDelayMs s) (m_nFirstTs s);
           Some (p\<lparr>pc := Anchored\<rparr>, s, [])
         }
     | Anchored \<Rightarrow>
         Some (p\<lparr>pc := AtLoop, nNextSeq := m_nFirstSeq s, bucketStart := e_now e, fBufMin := 1000000000,
                 fBufMax := 0\<rparr>, s, [])
     | AtLoop \<Rightarrow>
         if \<not> rx_bRun s then Some (p\<lparr>pc := Done\<rparr>, s, [])
         else do {
           slot \<leftarrow> rd (m_vJitter s) (slot_index (nNextSeq p));
           if nGeneration slot = generation (nNextSeq p) then do {
             m \<leftarrow> Feed powf (vSamples slot) (length (vSamples slot) div 2) (rx_meters s);
             Some (p\<lparr>pc := Writing\<rparr>, s\<lparr>rx_meters := m\<rparr>, take (length (vSamples slot) div 2 * 2) (vSamples slot))
           }
           else if m_bReceiving s then
             if int (m_nFramesPerPacket s) * 2 < e_delay e then do {
               bNewer \<leftarrow> probe_newer (m_vJitter s) (nNextSeq p) 16;
               if bNewer \<and> e_delay2 e < target_frames s div 2 then Some (conceal e p s)
               else Some (p\<lparr>pc := Steer\<rparr>, s, [])
             }
             else Some (conceal e p s)
           else Some (p\<lparr>pc := Parked\<rparr>, s\<lparr>m_bHaveFirst := False\<rparr>, [])
         }
     | Writing \<Rightarrow> do {
         jitter \<leftarrow> release (m_vJitter s) (nNextSeq p);
         let (p, s) = SampleBuffer e (p\<lparr>pc := Steer, nNextSeq := nNextSeq p + 1\<rparr>,
                        s\<lparr>m_vJitter := jitter, m_nPlayed := m_nPlayed s + 1\<rparr>);
         Some (p, s, [])
       }
     | Parked \<Rightarrow>
         if rx_bRun s \<and> \<not> m_bHaveFirst s then Some (p, s, [])
         else Some (p\<lparr>pc := Steer, nNextSeq := m_nFirstSeq s\<rparr>, s, [])
     | Steer \<Rightarrow>
         if target_frames s + int (m_nFramesPerPacket s) * 4 < e_delay e then do {
           hit \<leftarrow> slot_ready (m_vJitter s) (nNextSeq p);
           if hit then do {
             jitter \<leftarrow> release (m_vJitter s) (nNextSeq p);
             Some (p\<lparr>pc := AtLoop, nNextSeq := nNextSeq p + 1\<rparr>, s\<lparr>m_vJitter := jitter\<rparr>, [])
           }
           else Some (p\<lparr>pc := AtLoop\<rparr>, s, [])
         }
         else Some (p\<lparr>pc := AtLoop\<rparr>, s, [])
     | Done \<Rightarrow> Some (p, s, []))"

section \<open>Decoding\<close>

text \<open>The value of a sample, read without a bounds check.\<close>

definition sample_at :: "nat \<Rightarrow> bytes \<Rightarrow> nat \<Rightarrow> float32" where
  "sample_at nBytes p i =
    (if nBytes = 2 then of_int (sint (be16 (p ! (i * 2)) (p ! (i * 2 + 1)))) / 32768
     else of_int (sint (signed_take_bit 23 (be32 0 (p ! (i * nBytes)) (p ! (i * nBytes + 1)) (p ! (i * nBytes + 2)))))
          / 8388608)"

lemma bit_0x800000: "bit (0x800000 :: u32) i \<longleftrightarrow> i = 23"
proof -
  have "(0x800000 :: u32) = push_bit 23 1" by simp
  then show ?thesis by (simp only: bit_push_bit_iff bit_1_iff) auto
qed

lemma bit_0xff000000: "bit (0xff000000 :: u32) i \<longleftrightarrow> 24 \<le> i \<and> i < 32"
proof -
  have "(0xff000000 :: u32) = NOT (mask 24)" by (simp add: mask_eq_exp_minus_1 not_eq_complement)
  then show ?thesis by (simp only: bit_not_iff bit_mask_iff) auto
qed

lemma sign_test: "n AND 0x800000 \<noteq> 0 \<longleftrightarrow> bit n 23" for n :: u32
proof -
  have "n AND 0x800000 = (if bit n 23 then 0x800000 else 0)"
  proof (rule bit_word_eqI)
    fix i
    show "bit (n AND 0x800000) i = bit (if bit n 23 then 0x800000 else 0 :: u32) i"
      using bit_0x800000 [of i] by (cases "i = 23") (auto simp: bit_and_iff)
  qed
  then show ?thesis by simp
qed

lemma sign_extend_24:
  assumes "\<And>i. 24 \<le> i \<Longrightarrow> \<not> bit n i"
  shows "(if n AND 0x800000 \<noteq> 0 then n OR 0xff000000 else n) = signed_take_bit 23 (n :: u32)"
proof (rule bit_word_eqI)
  fix i assume "i < LENGTH(32)"
  then show "bit (if n AND 0x800000 \<noteq> 0 then n OR 0xff000000 else n) i = bit (signed_take_bit 23 n) i"
    using assms [of i] unfolding sign_test
    by (cases "i < 24") (auto simp: bit_signed_take_bit_iff bit_or_iff bit_0xff000000 min_def less_Suc_eq numeral_eq_Suc split: if_splits)
qed

lemma be32_0_high: "24 \<le> i \<Longrightarrow> \<not> bit (be32 0 a b c) i"
  by (auto simp: be32_def bit_simps dest!: bit_imp_le_length)

lemma sint_signed_24: "- 8388608 \<le> sint (signed_take_bit 23 n :: u32)" "sint (signed_take_bit 23 n :: u32) < 8388608"
proof -
  have "sint (signed_take_bit 23 n :: u32) = signed_take_bit 23 (sint n)"
    by (rule bit_eqI) (auto simp: bit_simps min_def)
  then show "- 8388608 \<le> sint (signed_take_bit 23 n :: u32)" "sint (signed_take_bit 23 n :: u32) < 8388608"
    using signed_take_bit_int_greater_eq_minus_exp [of 23 "sint n"] signed_take_bit_int_less_exp [of 23 "sint n"]
    by simp_all
qed

lemma rnd32_fraction:
  assumes "\<bar>k\<bar> < 2 ^ 24" "e \<le> 149"
  shows "rnd32 (rnd32 (of_int k) / 2 ^ e) = of_int k / 2 ^ e"
proof -
  have "representable 24 (-149) (of_int k / 2 ^ e)"
    unfolding representable_def using assms
    by (intro exI [of _ k] exI [of _ "- int e"]) (simp add: power_int_minus divide_inverse)
  then show ?thesis using assms(1) by (simp add: rnd_int rnd_representable)
qed

lemma Decode_eq:
  assumes "nBytes = 2 \<or> nBytes = 3" "(i + 1) * nBytes \<le> length p"
  shows "Decode nBytes p i = Some (sample_at nBytes p i)"
proof -
  have range: "i * nBytes + j < length p" if "j < nBytes" for j
    using assms(2) that by simp
  show ?thesis
  proof (cases "nBytes = 2")
    case True
    let ?k = "sint (be16 (p ! (i * 2)) (p ! (i * 2 + 1)))"
    have "\<bar>?k\<bar> < 2 ^ 24" using sint_range_size [of "be16 (p ! (i * 2)) (p ! (i * 2 + 1))"] by (auto simp: word_size abs_if)
    then have "rnd32 (rnd32 (of_int ?k) / 32768) = of_int ?k / 32768"
      using rnd32_fraction [of ?k 15] by simp
    then show ?thesis
      using True range [of 0] range [of 1] by (simp add: Decode_def sample_at_def rd_simps Let_def)
  next
    case False
    then have n: "nBytes = 3" using assms(1) by simp
    let ?w = "be32 0 (p ! (i * 3)) (p ! (i * 3 + 1)) (p ! (i * 3 + 2))"
    let ?k = "sint (signed_take_bit 23 ?w)"
    have "\<bar>?k\<bar> < 2 ^ 24" using sint_signed_24 [of ?w] by simp
    then have "rnd32 (rnd32 (of_int ?k) / 8388608) = of_int ?k / 8388608"
      using rnd32_fraction [of ?k 23] by simp
    then show ?thesis
      using n range [of 0] range [of 1] range [of 2] sign_extend_24 [OF be32_0_high]
      by (simp add: Decode_def sample_at_def rd_simps Let_def)
  qed
qed

lemma sample_at_bounds: "-1 \<le> sample_at nBytes p i" "sample_at nBytes p i < 1"
proof -
  let ?a = "be16 (p ! (i * 2)) (p ! (i * 2 + 1))"
  let ?b = "be32 0 (p ! (i * nBytes)) (p ! (i * nBytes + 1)) (p ! (i * nBytes + 2))"
  have "- 32768 \<le> sint ?a" "sint ?a < 32768"
    using sint_range_size [of ?a] by (simp_all add: word_size)
  then have "- 32768 \<le> (of_int (sint ?a) :: rat)" "(of_int (sint ?a) :: rat) < 32768" by linarith+
  moreover have "- 8388608 \<le> (of_int (sint (signed_take_bit 23 ?b)) :: rat)"
    "(of_int (sint (signed_take_bit 23 ?b)) :: rat) < 8388608"
    using sint_signed_24 [of ?b] by linarith+
  ultimately show "-1 \<le> sample_at nBytes p i" "sample_at nBytes p i < 1"
    unfolding sample_at_def by (simp_all add: divide_less_eq le_divide_eq)
qed

lemma decode_frames_eq:
  assumes "nBytes = 2 \<or> nBytes = 3" "nLeft < nCh" "nRight < nCh" "(k + n) * nCh * nBytes \<le> length p"
  shows "decode_frames nBytes p nCh nLeft nRight k n
    = Some (concat (map (\<lambda>f. [sample_at nBytes p (f * nCh + nLeft), sample_at nBytes p (f * nCh + nRight)]) [k..<k + n]))"
  using assms(4)
proof (induction n arbitrary: k)
  case (Suc n)
  have "Decode nBytes p (k * nCh + c) = Some (sample_at nBytes p (k * nCh + c))" if "c < nCh" for c
  proof (rule Decode_eq [OF assms(1)])
    have "k * nCh + c + 1 \<le> (k + Suc n) * nCh" using that by (simp add: algebra_simps)
    then have "(k * nCh + c + 1) * nBytes \<le> (k + Suc n) * nCh * nBytes" by (rule mult_right_mono) simp
    then show "(k * nCh + c + 1) * nBytes \<le> length p" using Suc.prems by linarith
  qed
  moreover have "[k..<k + Suc n] = k # [Suc k..<Suc k + n]" using upt_conv_Cons [of k "k + Suc n"] by simp
  ultimately show ?case using Suc assms(2,3) by simp
qed simp

lemma monitor_pair_range:
  "0 < nCh \<Longrightarrow> fst (monitor_pair a b nCh) < nCh" "0 < nCh \<Longrightarrow> snd (monitor_pair a b nCh) < nCh"
  by (auto simp: monitor_pair_def Let_def)

text \<open>The fields of a packet, and the audio a session takes from it.\<close>

definition rtp_seq :: "bytes \<Rightarrow> u16" where
  "rtp_seq p = be16 (p ! 2) (p ! 3)"

definition rtp_ts :: "bytes \<Rightarrow> u32" where
  "rtp_ts p = be32 (p ! 4) (p ! 5) (p ! 6) (p ! 7)"

definition rtp_payload :: "bytes \<Rightarrow> bytes" where
  "rtp_payload p = drop (12 + unat (p ! 0 AND 0x0f) * 4) p"

definition packet_frames :: "SdpSession \<Rightarrow> bytes \<Rightarrow> nat" where
  "packet_frames ses p = length (rtp_payload p) div (bytes_per_sample ses * channel_count ses)"

definition packet_audio :: "RtpReceiver \<Rightarrow> bytes \<Rightarrow> float32 list" where
  "packet_audio s p =
    (let ses = m_session s; (l, r) = monitor_pair (m_nMonLeft s) (m_nMonRight s) (channel_count ses)
     in concat (map (\<lambda>f. [sample_at (bytes_per_sample ses) (rtp_payload p) (f * channel_count ses + l),
                          sample_at (bytes_per_sample ses) (rtp_payload p) (f * channel_count ses + r)])
          [0..<packet_frames ses p]))"

definition arrive :: "nat \<Rightarrow> bytes \<Rightarrow> int \<Rightarrow> RtpReceiver \<Rightarrow> RtpReceiver" where
  "arrive nLeg p now s =
     s\<lparr>m_aLegs := (m_aLegs s)[nLeg := note_arrival now (rtp_seq p) (m_aLegs s ! nLeg)], m_bReceiving := True\<rparr>"

definition store_slot :: "RtpReceiver \<Rightarrow> bytes \<Rightarrow> Slot" where
  "store_slot s p = (m_vJitter s ! slot_index (rtp_seq p))
     \<lparr>vSamples := packet_audio s p, slot_nSeq := rtp_seq p, nGeneration := generation (rtp_seq p)\<rparr>"

definition store :: "nat \<Rightarrow> bytes \<Rightarrow> RtpReceiver \<Rightarrow> RtpReceiver" where
  "store nLeg p s =
    (let s = s\<lparr>m_vJitter := (m_vJitter s)[slot_index (rtp_seq p) := store_slot s p],
               m_nMergedFromSecondary := m_nMergedFromSecondary s + (if nLeg = 1 then 1 else 0)\<rparr>
     in if m_bHaveFirst s then s
        else s\<lparr>m_bHaveFirst := True, m_nFirstSeq := rtp_seq p, m_nFirstTs := rtp_ts p\<rparr>)"

definition is_rtp :: "bytes \<Rightarrow> bool" where
  "is_rtp p \<longleftrightarrow> 12 < length p \<and> p ! 0 AND 0xc0 = 0x80"

lemma channel_count_pos [simp]: "0 < channel_count ses"
  by (simp add: channel_count_def)

lemma bytes_per_sample_cases: "bytes_per_sample ses = 2 \<or> bytes_per_sample ses = 3"
  by (simp add: bytes_per_sample_def)

lemma slot_index_less [simp]: "slot_index q < 1024"
  by (simp add: slot_index_def)

lemma HandlePacket_eq:
  assumes "12 < length p" "nLeg < length (m_aLegs s)" "length (m_vJitter s) = 1024"
  shows "HandlePacket nLeg p now s = Some
    (if \<not> is_rtp p then s
     else let s1 = arrive nLeg p now s in
       if packet_frames (m_session s) p = 0 then s1
       else if nGeneration (m_vJitter s ! slot_index (rtp_seq p)) = generation (rtp_seq p)
            then s1\<lparr>m_nDuplicates := m_nDuplicates s + 1\<rparr>
       else store nLeg p s1)"
proof -
  have reads: "rd p i = Some (p ! i)" if "i \<le> 7" for i using assms(1) that by (simp add: rd_simps)
  let ?ses = "m_session s"
  let ?nb = "bytes_per_sample ?ses" and ?nc = "channel_count ?ses"
  obtain l r where lr: "monitor_pair (m_nMonLeft s) (m_nMonRight s) ?nc = (l, r)" by fastforce
  then have "l < ?nc" "r < ?nc" using monitor_pair_range [of ?nc "m_nMonLeft s" "m_nMonRight s"] by simp_all
  moreover have "packet_frames ?ses p * ?nc * ?nb \<le> length (rtp_payload p)"
    using div_times_less_eq_dividend [of "length (rtp_payload p)" "?nb * ?nc"]
    by (simp add: packet_frames_def mult.assoc mult.commute [of ?nb])
  ultimately have dec: "decode_frames ?nb (rtp_payload p) ?nc l r 0 (packet_frames ?ses p) = Some (packet_audio s p)"
    using decode_frames_eq [of ?nb l ?nc r 0 "packet_frames ?ses p" "rtp_payload p"] bytes_per_sample_cases lr
    by (simp add: packet_audio_def Let_def)
  have nh: "length p \<le> 12 + unat (p ! 0 AND 0x0f) * 4 \<Longrightarrow> packet_frames ?ses p = 0"
    by (simp add: packet_frames_def rtp_payload_def)
  have pf: "length (drop (12 + unat (p ! 0 AND 0x0f) * 4) p) div (?nb * ?nc) = packet_frames ?ses p"
    by (simp add: packet_frames_def rtp_payload_def)
  show ?thesis
  proof (cases "is_rtp p")
    case False
    then show ?thesis using assms(1) by (simp add: HandlePacket_def reads is_rtp_def)
  next
    case True
    then have v: "p ! 0 AND 0xc0 = 0x80" by (simp add: is_rtp_def)
    have seq: "be16 (p ! 2) (p ! 3) = rtp_seq p" "be32 (p ! 4) (p ! 5) (p ! 6) (p ! 7) = rtp_ts p"
      "unat (rtp_seq p) mod 1024 = slot_index (rtp_seq p)"
      "drop (12 + unat (p ! 0 AND 0x0f) * 4) p = rtp_payload p"
      by (simp_all add: rtp_seq_def rtp_ts_def slot_index_def rtp_payload_def)
    have audio: "packet_audio (s\<lparr>m_aLegs := a, m_bReceiving := b\<rparr>) p = packet_audio s p" for a b
      by (simp add: packet_audio_def)
    have pf: "length (rtp_payload p) div (?nb * ?nc) = packet_frames ?ses p"
      by (simp add: packet_frames_def)
    show ?thesis
      using assms v lr nh dec True
      by (auto simp: HandlePacket_def reads rd_simps seq pf Let_def audio store_def store_slot_def arrive_def)
  qed
qed

section \<open>The invariant of the receiver\<close>

definition slot_ok :: "nat \<Rightarrow> Slot \<Rightarrow> bool" where
  "slot_ok i slot \<longleftrightarrow> nGeneration slot \<noteq> 0 \<longrightarrow>
     nGeneration slot = generation (slot_nSeq slot) \<and> slot_index (slot_nSeq slot) = i
     \<and> vSamples slot \<noteq> [] \<and> even (length (vSamples slot)) \<and> (\<forall>x \<in> set (vSamples slot). -1 \<le> x \<and> x < 1)"

definition jitter_ok :: "Slot list \<Rightarrow> bool" where
  "jitter_ok jitter \<longleftrightarrow> length jitter = JITTER_SLOTS \<and> (\<forall>i < JITTER_SLOTS. slot_ok i (jitter ! i))"

definition rx_inv :: "RtpReceiver \<Rightarrow> bool" where
  "rx_inv s \<longleftrightarrow> length (m_aLegs s) = 2 \<and> m_nLegCount s \<le> 2 \<and> jitter_ok (m_vJitter s)
     \<and> length (m_qBufferHistory s) \<le> 300 \<and> 0 < m_nFramesPerPacket s
     \<and> 2 \<le> m_nPlayoutDelayMs s \<and> m_nPlayoutDelayMs s \<le> 500"

lemma unat_generation: "unat (generation q) = Suc (unat q)"
proof -
  have "unat q < 2 ^ 16" using unsigned_less [of q] by simp
  moreover have "generation q = of_nat (Suc (unat q))" by (simp add: generation_def)
  ultimately show ?thesis by (simp only: unat_of_nat take_bit_eq_mod) simp
qed

lemma generation_nonzero [simp]: "generation q \<noteq> 0"
  using unat_generation [of q] by auto

lemma generation_inject [simp]: "generation q = generation r \<longleftrightarrow> q = r"
  using unat_generation [of q] unat_generation [of r] by (auto dest: word_unat_eq_iff [THEN iffD2])

lemma slot_ok_store:
  assumes "vs \<noteq> []" "even (length vs)" "\<And>x. x \<in> set vs \<Longrightarrow> -1 \<le> x \<and> x < 1"
  shows "slot_ok (slot_index q) (slot\<lparr>vSamples := vs, slot_nSeq := q, nGeneration := generation q\<rparr>)"
  using assms by (simp add: slot_ok_def)

lemma slot_ok_clear [simp]: "slot_ok i (slot\<lparr>nGeneration := 0\<rparr>)"
  by (simp add: slot_ok_def)

lemma jitter_ok_update [inv_intros]: "jitter_ok jitter \<Longrightarrow> slot_ok i slot \<Longrightarrow> jitter_ok (jitter[i := slot])"
  unfolding jitter_ok_def by (metis length_list_update nth_list_update_eq nth_list_update_neq)

lemma packet_audio_facts:
  "length (packet_audio s p) = 2 * packet_frames (m_session s) p"
  "x \<in> set (packet_audio s p) \<Longrightarrow> -1 \<le> x \<and> x < 1"
  by (auto simp: packet_audio_def Let_def case_prod_unfold length_concat comp_def sample_at_bounds sum_list_triv)

lemma store_inv [inv_intros]:
  assumes "rx_inv s" "0 < packet_frames (m_session s) p"
  shows "rx_inv (store nLeg p s)"
proof -
  have "slot_ok (slot_index (rtp_seq p)) (store_slot s p)"
    unfolding store_slot_def using assms(2) packet_audio_facts [where s = s and p = p]
    by (intro slot_ok_store) fastforce+
  then have "jitter_ok ((m_vJitter s)[slot_index (rtp_seq p) := store_slot s p])"
    using assms(1) by (intro jitter_ok_update) (simp_all add: rx_inv_def)
  then show ?thesis using assms(1) by (simp add: store_def rx_inv_def Let_def)
qed

lemma arrive_inv [inv_intros]: "rx_inv s \<Longrightarrow> rx_inv (arrive nLeg p now s)"
  by (simp add: arrive_def rx_inv_def)

lemma arrive_keeps [simp]:
  "m_session (arrive nLeg p now s) = m_session s" "m_vJitter (arrive nLeg p now s) = m_vJitter s"
  "m_nDuplicates (arrive nLeg p now s) = m_nDuplicates s" "m_nLegCount (arrive nLeg p now s) = m_nLegCount s"
  "packet_audio (arrive nLeg p now s) = packet_audio s"
  by (simp_all add: arrive_def packet_audio_def fun_eq_iff)

lemma store_keeps [simp]:
  "m_session (store nLeg p s) = m_session s" "m_nLegCount (store nLeg p s) = m_nLegCount s"
  "m_aLegs (store nLeg p s) = m_aLegs s"
  by (simp_all add: store_def Let_def)

lemma HandlePacket_inv:
  assumes "rx_inv s" "12 < length p" "nLeg < 2"
  shows "\<exists>s'. HandlePacket nLeg p now s = Some s' \<and> rx_inv s' \<and> m_nLegCount s' = m_nLegCount s"
proof -
  have "rx_inv (s1\<lparr>m_nDuplicates := n\<rparr>) = rx_inv s1" for s1 n by (simp add: rx_inv_def)
  moreover have "rx_inv (arrive nLeg p now s)" using assms(1) by (rule arrive_inv)
  moreover have "nLeg < length (m_aLegs s)" "length (m_vJitter s) = 1024"
    using assms by (simp_all add: rx_inv_def jitter_ok_def)
  ultimately show ?thesis
    using assms(1,2) store_inv [of "arrive nLeg p now s" p nLeg]
    by (simp add: HandlePacket_eq Let_def)
qed

lemma age_legs_inv [inv_intros]: "rx_inv s \<Longrightarrow> rx_inv (age_legs now s)"
  by (simp add: age_legs_def rx_inv_def Let_def)

lemma recv_ready_inv:
  assumes "rx_inv s" "\<forall>(nLeg, p) \<in> set ready. nLeg < m_nLegCount s"
  shows "\<exists>s'. recv_ready ready now s = Some s' \<and> rx_inv s'"
  using assms
proof (induction ready now s rule: recv_ready.induct)
  case (2 nLeg p ready now s)
  then have "nLeg < 2" by (auto simp: rx_inv_def)
  show ?case
  proof (cases "12 < length p")
    case True
    then obtain s' where "HandlePacket nLeg p now s = Some s'" "rx_inv s'" "m_nLegCount s' = m_nLegCount s"
      using HandlePacket_inv [OF "2.prems"(1) _ \<open>nLeg < 2\<close>] by blast
    then show ?thesis using 2 True by simp
  qed (use 2 in simp)
qed simp

lemma RxTurn_inv:
  "rx_inv s \<Longrightarrow> \<forall>(nLeg, p) \<in> set ready. nLeg < m_nLegCount s \<Longrightarrow> \<exists>s'. RxTurn ready now s = Some s' \<and> rx_inv s'"
  unfolding RxTurn_def by (rule recv_ready_inv [OF age_legs_inv]) (simp_all add: age_legs_def Let_def)

lemma release_inv:
  assumes "jitter_ok jitter"
  shows "release jitter q = Some (jitter[slot_index q := (jitter ! slot_index q)\<lparr>nGeneration := 0\<rparr>])"
    and "jitter_ok (jitter[slot_index q := (jitter ! slot_index q)\<lparr>nGeneration := 0\<rparr>])"
  using assms by (simp add: release_def rd_simps jitter_ok_def) (use assms in \<open>simp add: jitter_ok_update\<close>)

lemma slot_ready_eq:
  "jitter_ok jitter \<Longrightarrow> slot_ready jitter q = Some (nGeneration (jitter ! slot_index q) = generation q)"
  by (simp add: slot_ready_def rd_simps jitter_ok_def)

lemma probe_newer_total: "jitter_ok jitter \<Longrightarrow> \<exists>b. probe_newer jitter q n = Some b"
  by (induction n) (auto simp: slot_ready_eq)

lemma SampleBuffer_inv [inv_intros]: "rx_inv s \<Longrightarrow> rx_inv (snd (SampleBuffer e (p, s)))"
  by (auto simp: SampleBuffer_def Let_def rx_inv_def)

lemma SampleBuffer_keeps:
  "\<exists>b mn mx q. SampleBuffer e (p, s) = (p\<lparr>bucketStart := b, fBufMin := mn, fBufMax := mx\<rparr>, s\<lparr>m_qBufferHistory := q\<rparr>)"
proof -
  have "p = p\<lparr>bucketStart := bucketStart p\<rparr>" "s = s\<lparr>m_qBufferHistory := m_qBufferHistory s\<rparr>" by simp_all
  then show ?thesis unfolding SampleBuffer_def Let_def by (cases p; cases s) auto
qed

lemma anchor_wait_None:
  assumes "2 \<le> d" "d \<le> 500"
  shows "anchor_wait bSynced ns d ts = None
    \<longleftrightarrow> bSynced \<and> sint (media_timestamp ns - ts) < d * 48 - 2147483647"
proof -
  have "d * 48000 div 1000 = d * 48" by simp
  moreover have "sint (media_timestamp ns - ts) < 2147483648"
    using sint_range_size [of "media_timestamp ns - ts"] by (simp add: word_size)
  ultimately show ?thesis using assms by (auto simp: anchor_wait_def Let_def)
qed

lemma conceal_inv [inv_intros]: "rx_inv s \<Longrightarrow> rx_inv (fst (snd (conceal e p s)))"
  using SampleBuffer_inv [of "s\<lparr>m_nConcealed := m_nConcealed s + 1\<rparr>" e]
  by (auto simp: conceal_def Let_def case_prod_unfold rx_inv_def)

lemma rx_inv_slot:
  assumes "rx_inv s"
  shows "rd (m_vJitter s) (slot_index q) = Some (m_vJitter s ! slot_index q)"
    and "slot_ok (slot_index q) (m_vJitter s ! slot_index q)"
  using assms by (simp_all add: rx_inv_def jitter_ok_def rd_simps)

lemma play_step_AtLoop:
  assumes "rx_inv s" "pc p = AtLoop" "rx_bRun s"
  shows "play_step powf e p s =
    (let slot = m_vJitter s ! slot_index (nNextSeq p); vs = vSamples slot in
     if nGeneration slot = generation (nNextSeq p) then
       Some (p\<lparr>pc := Writing\<rparr>, s\<lparr>rx_meters := the (Feed powf vs (length vs div 2) (rx_meters s))\<rparr>, vs)
     else if m_bReceiving s then
       if int (m_nFramesPerPacket s) * 2 < e_delay e
          \<and> \<not> (the (probe_newer (m_vJitter s) (nNextSeq p) 16) \<and> e_delay2 e < target_frames s div 2)
       then Some (p\<lparr>pc := Steer\<rparr>, s, [])
       else Some (conceal e p s)
     else Some (p\<lparr>pc := Parked\<rparr>, s\<lparr>m_bHaveFirst := False\<rparr>, []))"
proof -
  let ?slot = "m_vJitter s ! slot_index (nNextSeq p)"
  have "even (length (vSamples ?slot))" if "nGeneration ?slot = generation (nNextSeq p)"
    using rx_inv_slot(2) [OF assms(1), of "nNextSeq p"] that by (simp add: slot_ok_def)
  moreover obtain b where "probe_newer (m_vJitter s) (nNextSeq p) 16 = Some b"
    using probe_newer_total assms(1) unfolding rx_inv_def by blast
  ultimately show ?thesis
    using assms rx_inv_slot(1) [OF assms(1)] by (auto simp: play_step_def Let_def Feed_eq)
qed

lemma play_step_inv:
  assumes "rx_inv s"
    and "pc p = WaitFirst \<Longrightarrow> anchor_wait (e_synced e) (e_ptpNs e) (m_nPlayoutDelayMs s) (m_nFirstTs s) \<noteq> None"
  shows "\<exists>p' s' out. play_step powf e p s = Some (p', s', out) \<and> rx_inv s' \<and> (\<forall>x \<in> set out. -1 \<le> x \<and> x < 1)"
proof (cases "pc p")
  case AtLoop
  let ?slot = "m_vJitter s ! slot_index (nNextSeq p)"
  have slot: "\<forall>x \<in> set (vSamples ?slot). -1 \<le> x \<and> x < 1" if "nGeneration ?slot = generation (nNextSeq p)"
    using rx_inv_slot(2) [OF assms(1), of "nNextSeq p"] that by (simp add: slot_ok_def)
  have keep: "rx_inv (s\<lparr>rx_meters := m\<rparr>)" "rx_inv (s\<lparr>m_bHaveFirst := b\<rparr>)" for m b
    using assms(1) by (simp_all add: rx_inv_def)
  have "\<exists>p' s' out. conceal e p s = (p', s', out) \<and> rx_inv s' \<and> (\<forall>x \<in> set out. -1 \<le> x \<and> x < 1)"
    using conceal_inv [OF assms(1), of e p] by (auto simp: conceal_def silence_def case_prod_unfold Let_def)
  then show ?thesis
    using AtLoop assms(1) slot keep play_step_AtLoop [OF assms(1) AtLoop]
    by (cases "rx_bRun s") (auto simp: Let_def play_step_def)
next
  case Writing
  let ?s = "s\<lparr>m_vJitter := (m_vJitter s)[slot_index (nNextSeq p) := (m_vJitter s ! slot_index (nNextSeq p))\<lparr>nGeneration := 0\<rparr>],
    m_nPlayed := m_nPlayed s + 1\<rparr>"
  have "jitter_ok (m_vJitter s)" using assms(1) by (simp add: rx_inv_def)
  note R = release_inv [OF this, of "nNextSeq p"]
  have "rx_inv ?s" using assms(1) R(2) by (simp add: rx_inv_def)
  then show ?thesis
    using Writing R(1) SampleBuffer_inv [of ?s e] by (simp add: play_step_def case_prod_unfold Let_def)
next
  case Steer
  have j: "jitter_ok (m_vJitter s)" using assms(1) by (simp add: rx_inv_def)
  note R = release_inv [OF j, of "nNextSeq p"]
  have "rx_inv (s\<lparr>m_vJitter := (m_vJitter s)[slot_index (nNextSeq p) := (m_vJitter s ! slot_index (nNextSeq p))\<lparr>nGeneration := 0\<rparr>]\<rparr>)"
    using assms(1) R(2) by (simp add: rx_inv_def)
  then show ?thesis using Steer assms(1) R(1) slot_ready_eq [OF j] by (simp add: play_step_def)
next
  case WaitFirst
  then show ?thesis using assms by (auto simp: play_step_def)
qed (use assms(1) in \<open>simp_all add: play_step_def\<close>)

lemma rx_Stop_inv [inv_intros]: "rx_inv s \<Longrightarrow> rx_inv (rx_Stop s)"
  by (simp add: rx_Stop_def rx_inv_def)

lemma open_legs_length: "length (snd (open_legs f ifs todo legs)) = length legs"
  by (induction f ifs todo legs rule: open_legs.induct) (auto simp: Let_def)

lemma frames_per_packet_pos: "frames_per_packet d = Some n \<Longrightarrow> 0 < n"
proof -
  assume a: "frames_per_packet d = Some n"
  let ?d = "rnd64 (rnd64 (48000 * d) / 1000)"
  have "-1 < ?d" using a by (auto simp: frames_per_packet_def Let_def split: if_splits)
  then have "0 \<le> trunc ?d" by (auto simp: trunc_def less_ceiling_iff)
  then show "0 < n" using a by (auto simp: frames_per_packet_def Let_def split: if_splits)
qed

lemma rx_Configure_inv:
  assumes "rx_inv s" "rx_Configure f ses ifs d s = Some (ok, s')"
  shows "rx_inv s'"
proof -
  have inv: "rx_inv (rx_Stop s)" using assms(1) by (rule rx_Stop_inv)
  have "jitter_ok (map (\<lambda>slot. slot\<lparr>nGeneration := 0\<rparr>) (m_vJitter (rx_Stop s)))"
    using inv by (simp add: rx_inv_def jitter_ok_def)
  moreover have "length (snd (open_legs f ifs todo (m_aLegs (rx_Stop s)))) = 2" for todo
    using inv by (simp add: open_legs_length rx_inv_def)
  moreover have "2 \<le> clamp d 2 500 \<and> clamp d 2 500 \<le> 500" using clamp_bounds [of 2 500 d] by simp
  ultimately show ?thesis
    using assms(2) inv frames_per_packet_pos
    by (auto simp: rx_Configure_def rx_inv_def Let_def case_prod_unfold bind_eq_Some_conv split: if_splits)
qed

lemma init_receiver_inv [inv_intros]: "rx_inv init_receiver"
  by (simp add: rx_inv_def init_receiver_def jitter_ok_def slot_ok_def init_slot_def)

text \<open>
  The receiver in use: configured and stopped any number of times, with turns of the receive loop,
  steps of the playout thread and changes of the monitor selection in any order.
\<close>

inductive rx_reachable :: "Playout \<Rightarrow> RtpReceiver \<Rightarrow> bool" where
  fresh: "rx_reachable play_start init_receiver"
| configure: "rx_reachable p s \<Longrightarrow> rx_Configure f ses ifs d s = Some (ok, s') \<Longrightarrow> rx_reachable play_start s'"
| receive: "rx_reachable p s \<Longrightarrow> \<forall>(nLeg, d) \<in> set ready. nLeg < m_nLegCount s \<Longrightarrow> RxTurn ready now s = Some s'
    \<Longrightarrow> rx_reachable p s'"
| play: "rx_reachable p s \<Longrightarrow> play_step powf e p s = Some (p', s', out) \<Longrightarrow> rx_reachable p' s'"
| monitor: "rx_reachable p s \<Longrightarrow> rx_reachable p (SetMonitor l r s)"
| stop: "rx_reachable p s \<Longrightarrow> rx_reachable p (rx_Stop s)"

lemma rx_reachable_inv: "rx_reachable p s \<Longrightarrow> rx_inv s"
proof (induction rule: rx_reachable.induct)
  case fresh
  show ?case by (rule init_receiver_inv)
next
  case (configure p s f ses ifs d ok s')
  then show ?case using rx_Configure_inv by blast
next
  case (receive p s ready now s')
  then show ?case using RxTurn_inv [of s ready now] by auto
next
  case (play p s powf e p' s' out)
  have "anchor_wait (e_synced e) (e_ptpNs e) (m_nPlayoutDelayMs s) (m_nFirstTs s) \<noteq> None
      \<or> \<not> rx_bRun s \<or> \<not> m_bHaveFirst s" if "pc p = WaitFirst"
    using play.hyps(2) that by (auto simp: play_step_def)
  then show ?case
    using play play_step_inv [of s p e powf] by (cases "pc p = WaitFirst") (auto simp: play_step_def split: if_splits)
next
  case (monitor p s l r)
  then show ?case by (simp add: SetMonitor_def rx_inv_def)
next
  case (stop p s)
  then show ?case by (intro rx_Stop_inv)
qed

section \<open>Merging\<close>

lemma slot_index_window: "slot_index (b + of_nat k) = (unat b + k) mod 1024"
proof -
  have "unat (b + of_nat k) = (unat b + k) mod 65536"
    by (simp add: unat_word_ariths(1) unat_of_nat take_bit_eq_mod mod_add_right_eq)
  then show ?thesis by (simp add: slot_index_def mod_mod_cancel)
qed

definition in_window :: "u16 \<Rightarrow> u16 \<Rightarrow> bool" where
  "in_window b q \<longleftrightarrow> (\<exists>k < 1024. q = b + of_nat k)"

lemma window_slots_distinct:
  assumes "in_window b q" "in_window b r" "slot_index q = slot_index r"
  shows "q = r"
proof -
  obtain j k where "j < 1024" "k < 1024" "q = b + of_nat j" "r = b + of_nat k"
    using assms(1,2) unfolding in_window_def by blast
  moreover from this have "(unat b + j) mod 1024 = (unat b + k) mod 1024"
    using assms(3) by (simp add: slot_index_window)
  then have "j mod 1024 = k mod 1024" by (simp add: nat_mod_eq_iff)
  ultimately show ?thesis by simp
qed

definition holds :: "RtpReceiver \<Rightarrow> u16 \<Rightarrow> float32 list \<Rightarrow> bool" where
  "holds s q audio \<longleftrightarrow> nGeneration (m_vJitter s ! slot_index q) = generation q
     \<and> vSamples (m_vJitter s ! slot_index q) = audio"

definition buffered :: "RtpReceiver \<Rightarrow> u16 \<Rightarrow> bool" where
  "buffered s q \<longleftrightarrow> nGeneration (m_vJitter s ! slot_index q) = generation q"

text \<open>What one packet does: it is counted as a copy or it takes its slot.\<close>

lemma HandlePacket_merge:
  assumes "rx_inv s" "nLeg < 2" "is_rtp p" "0 < packet_frames (m_session s) p"
    and "HandlePacket nLeg p now s = Some s'"
  shows "rx_inv s'" "m_session s' = m_session s" "packet_audio s' = packet_audio s"
    and "buffered s (rtp_seq p) \<Longrightarrow> m_vJitter s' = m_vJitter s \<and> m_nDuplicates s' = m_nDuplicates s + 1
       \<and> m_nMergedFromSecondary s' = m_nMergedFromSecondary s"
    and "\<not> buffered s (rtp_seq p) \<Longrightarrow> m_vJitter s' = (m_vJitter s)[slot_index (rtp_seq p) := store_slot s p]
       \<and> m_nDuplicates s' = m_nDuplicates s
       \<and> m_nMergedFromSecondary s' = m_nMergedFromSecondary s + (if nLeg = 1 then 1 else 0)"
proof -
  have len: "12 < length p" using assms(3) by (simp add: is_rtp_def)
  have "nLeg < length (m_aLegs s)" "length (m_vJitter s) = 1024"
    using assms(1,2) by (simp_all add: rx_inv_def jitter_ok_def)
  then have eq: "s' = (if buffered s (rtp_seq p) then (arrive nLeg p now s)\<lparr>m_nDuplicates := m_nDuplicates s + 1\<rparr>
      else store nLeg p (arrive nLeg p now s))"
    using assms(3-5) HandlePacket_eq [OF len] by (auto simp: Let_def buffered_def)
  show "rx_inv s'" using HandlePacket_inv [OF assms(1) len assms(2), of now] assms(5) by auto
  have slot: "store_slot (arrive nLeg p now s) p = store_slot s p" by (simp add: store_slot_def)
  have mon: "m_nMonLeft (arrive nLeg p now s) = m_nMonLeft s" "m_nMonRight (arrive nLeg p now s) = m_nMonRight s"
    "m_nMergedFromSecondary (arrive nLeg p now s) = m_nMergedFromSecondary s"
    by (simp_all add: arrive_def)
  show "m_session s' = m_session s" "packet_audio s' = packet_audio s"
    by (simp_all add: eq store_def Let_def packet_audio_def fun_eq_iff mon)
  show "buffered s (rtp_seq p) \<Longrightarrow> m_vJitter s' = m_vJitter s \<and> m_nDuplicates s' = m_nDuplicates s + 1
       \<and> m_nMergedFromSecondary s' = m_nMergedFromSecondary s"
    "\<not> buffered s (rtp_seq p) \<Longrightarrow> m_vJitter s' = (m_vJitter s)[slot_index (rtp_seq p) := store_slot s p]
       \<and> m_nDuplicates s' = m_nDuplicates s
       \<and> m_nMergedFromSecondary s' = m_nMergedFromSecondary s + (if nLeg = 1 then 1 else 0)"
    by (simp_all add: eq store_def Let_def slot mon)
qed

lemma recv_ready_snoc:
  "recv_ready (xs @ [(l, p)]) now s = do { s \<leftarrow> recv_ready xs now s; if 12 < length p then HandlePacket l p now s else Some s }"
proof (induction xs now s rule: recv_ready.induct)
  case (2 nLeg pData ready now s)
  then show ?case by (cases "if 12 < length pData then HandlePacket nLeg pData now s else Some s") simp_all
qed (simp add: bind_eq_Some_conv split: bind_splits option.splits)

text \<open>A packet list of one stream: two legs, one window, and copies that carry the same audio.\<close>

definition stream :: "RtpReceiver \<Rightarrow> u16 \<Rightarrow> (nat \<times> bytes) list \<Rightarrow> bool" where
  "stream s base ps \<longleftrightarrow>
    (\<forall>(l, p) \<in> set ps. l < 2 \<and> is_rtp p \<and> 0 < packet_frames (m_session s) p \<and> in_window base (rtp_seq p)
       \<and> \<not> buffered s (rtp_seq p))
    \<and> (\<forall>(l, p) \<in> set ps. \<forall>(l', p') \<in> set ps. rtp_seq p = rtp_seq p' \<longrightarrow> packet_audio s p = packet_audio s p')"

definition seqs :: "(nat \<times> bytes) list \<Rightarrow> u16 set" where
  "seqs ps = (\<lambda>(l, p). rtp_seq p) ` set ps"

lemma recv_stream:
  assumes "rx_inv s" "stream s base ps"
  shows "\<exists>s'. recv_ready ps now s = Some s' \<and> rx_inv s' \<and> m_session s' = m_session s \<and> packet_audio s' = packet_audio s
    \<and> (\<forall>(l, p) \<in> set ps. holds s' (rtp_seq p) (packet_audio s p))
    \<and> (\<forall>i < 1024. i \<notin> slot_index ` seqs ps \<longrightarrow> m_vJitter s' ! i = m_vJitter s ! i)
    \<and> m_nDuplicates s' + of_nat (card (seqs ps)) = m_nDuplicates s + of_nat (length ps)"
  using assms(2)
proof (induction ps rule: rev_induct)
  case Nil
  then show ?case using assms(1) by (simp add: seqs_def)
next
  case (snoc x xs)
  obtain l p where x: "x = (l, p)" by fastforce
  have "stream s base xs" using snoc.prems by (auto simp: stream_def)
  then obtain s1 where s1: "recv_ready xs now s = Some s1" "rx_inv s1" "m_session s1 = m_session s"
    "packet_audio s1 = packet_audio s"
    "\<And>l p. (l, p) \<in> set xs \<Longrightarrow> holds s1 (rtp_seq p) (packet_audio s p)"
    "\<And>i. i < 1024 \<Longrightarrow> i \<notin> slot_index ` seqs xs \<Longrightarrow> m_vJitter s1 ! i = m_vJitter s ! i"
    "m_nDuplicates s1 + of_nat (card (seqs xs)) = m_nDuplicates s + of_nat (length xs)"
    using snoc.IH by auto
  have p: "l < 2" "is_rtp p" "0 < packet_frames (m_session s) p" "in_window base (rtp_seq p)"
    "\<not> buffered s (rtp_seq p)"
    using snoc.prems by (auto simp: stream_def x)
  then have len: "12 < length p" by (simp add: is_rtp_def)
  obtain s2 where s2: "HandlePacket l p now s1 = Some s2"
    using HandlePacket_inv [OF s1(2) len p(1)] by blast
  have run: "recv_ready (xs @ [(l, p)]) now s = Some s2" by (simp add: recv_ready_snoc s1(1) s2 len)
  note H = HandlePacket_merge [OF s1(2) p(1,2) _ s2, unfolded s1(3,4), OF p(3)]
  have win: "in_window base q" if "q \<in> seqs xs" for q using snoc.prems that by (auto simp: stream_def seqs_def)
  have audio: "packet_audio s p' = packet_audio s p" if "(l', p') \<in> set xs" "rtp_seq p' = rtp_seq p" for l' p'
    using snoc.prems that unfolding stream_def x by fastforce
  have seqs: "seqs (xs @ [(l, p)]) = insert (rtp_seq p) (seqs xs)" by (simp add: seqs_def)
  have fin: "finite (seqs xs)" by (simp add: seqs_def)
  show ?case
  proof (cases "rtp_seq p \<in> seqs xs")
    case True
    then obtain l' p' where q: "(l', p') \<in> set xs" "rtp_seq p' = rtp_seq p" by (auto simp: seqs_def)
    then have "holds s1 (rtp_seq p) (packet_audio s p)" using s1(5) [OF q(1)] audio [OF q] by simp
    then have "m_vJitter s2 = m_vJitter s1" "m_nDuplicates s2 = m_nDuplicates s1 + 1"
      and "holds s2 (rtp_seq p) (packet_audio s p)"
      using H(4) by (auto simp: holds_def buffered_def)
    then show ?thesis
      using run H(1-3) s1(5-7) True unfolding x seqs by (auto simp: insert_absorb holds_def)
  next
    case False
    have "slot_index (rtp_seq p) \<notin> slot_index ` seqs xs"
      using False window_slots_distinct [OF p(4) win] by auto
    moreover from this have "\<not> buffered s1 (rtp_seq p)" using s1(6) p(5) by (simp add: buffered_def)
    with H(5) have j: "m_vJitter s2 = (m_vJitter s1)[slot_index (rtp_seq p) := store_slot s1 p]"
      "m_nDuplicates s2 = m_nDuplicates s1" by simp_all
    moreover have "length (m_vJitter s1) = 1024" using s1(2) by (simp add: rx_inv_def jitter_ok_def)
    moreover have "holds s2 (rtp_seq p) (packet_audio s p)"
      using j calculation(4) by (simp add: holds_def store_slot_def s1(4))
    moreover have "holds s2 (rtp_seq p') (packet_audio s p')" if "(l', p') \<in> set xs" for l' p'
    proof -
      have "rtp_seq p' \<in> seqs xs" using that by (force simp: seqs_def)
      then have "slot_index (rtp_seq p') \<noteq> slot_index (rtp_seq p)" using calculation(1) by (metis imageI)
      then show ?thesis using s1(5) [OF that] j(1) by (simp add: holds_def)
    qed
    ultimately show ?thesis
      using run H(1-3) s1(6,7) False fin unfolding x seqs by auto
  qed
qed

section \<open>Playout runs\<close>

fun play_run ::
  "(float32 \<Rightarrow> float32 \<Rightarrow> float32) \<Rightarrow> play_env list \<Rightarrow> Playout \<Rightarrow> RtpReceiver
    \<Rightarrow> (Playout \<times> RtpReceiver \<times> float32 list) option" where
  "play_run powf [] p s = Some (p, s, [])"
| "play_run powf (e # es) p s = do {
     (p, s, out) \<leftarrow> play_step powf e p s;
     (p, s, rest) \<leftarrow> play_run powf es p s;
     Some (p, s, out @ rest)
   }"

lemma play_run_append:
  "play_run powf (es @ fs) p s = do {
     (p, s, out) \<leftarrow> play_run powf es p s;
     (p, s, rest) \<leftarrow> play_run powf fs p s;
     Some (p, s, out @ rest) }"
  by (induction powf es p s rule: play_run.induct)
    (auto simp: bind_eq_Some_conv split: bind_splits prod.splits intro!: option.expand)

text \<open>What playing one packet leaves of the receiver.\<close>

definition played :: "u16 \<Rightarrow> RtpReceiver \<Rightarrow> RtpReceiver \<Rightarrow> bool" where
  "played q s s' \<longleftrightarrow> rx_inv s' \<and> rx_bRun s' = rx_bRun s \<and> m_nPlayed s' = m_nPlayed s + 1
     \<and> m_nConcealed s' = m_nConcealed s \<and> target_frames s' = target_frames s
     \<and> m_nFramesPerPacket s' = m_nFramesPerPacket s
     \<and> m_vJitter s' = (m_vJitter s)[slot_index q := (m_vJitter s ! slot_index q)\<lparr>nGeneration := 0\<rparr>]"

lemma play_one:
  assumes "rx_inv s" "pc p = AtLoop" "rx_bRun s" "buffered s (nNextSeq p)"
    and "e_delay e3 \<le> target_frames s + int (m_nFramesPerPacket s) * 4"
  shows "\<exists>p' s'. play_run powf [e1, e2, e3] p s = Some (p', s', vSamples (m_vJitter s ! slot_index (nNextSeq p)))
    \<and> pc p' = AtLoop \<and> nNextSeq p' = nNextSeq p + 1 \<and> played (nNextSeq p) s s'"
proof -
  let ?q = "nNextSeq p"
  let ?vs = "vSamples (m_vJitter s ! slot_index ?q)"
  let ?s1 = "s\<lparr>rx_meters := the (Feed powf ?vs (length ?vs div 2) (rx_meters s))\<rparr>"
  let ?j = "(m_vJitter s)[slot_index ?q := (m_vJitter s ! slot_index ?q)\<lparr>nGeneration := 0\<rparr>]"
  let ?s2 = "?s1\<lparr>m_vJitter := ?j, m_nPlayed := m_nPlayed s + 1\<rparr>"
  let ?p2 = "p\<lparr>pc := Steer, nNextSeq := ?q + 1\<rparr>"
  have s1: "play_step powf e1 p s = Some (p\<lparr>pc := Writing\<rparr>, ?s1, ?vs)"
    using play_step_AtLoop [OF assms(1-3)] assms(4) by (simp add: buffered_def Let_def)
  have j: "jitter_ok (m_vJitter s)" using assms(1) by (simp add: rx_inv_def)
  obtain b mn mx q where sb: "SampleBuffer e2 (?p2, ?s2)
      = (?p2\<lparr>bucketStart := b, fBufMin := mn, fBufMax := mx\<rparr>, ?s2\<lparr>m_qBufferHistory := q\<rparr>)"
    using SampleBuffer_keeps [of e2 ?p2 ?s2] by blast
  let ?s3 = "?s2\<lparr>m_qBufferHistory := q\<rparr>"
  have s2: "play_step powf e2 (p\<lparr>pc := Writing\<rparr>) ?s1
      = Some (?p2\<lparr>bucketStart := b, fBufMin := mn, fBufMax := mx\<rparr>, ?s3, [])"
    using release_inv(1) [OF j, of ?q] sb by (simp add: play_step_def)
  have "rx_inv ?s2" using assms(1) release_inv(2) [OF j, of ?q] by (simp add: rx_inv_def)
  then have "rx_inv ?s3" using SampleBuffer_inv [of ?s2 e2 ?p2] sb by simp
  then have "played ?q s ?s3" by (simp add: played_def target_frames_def)
  moreover have "play_step powf e3 (?p2\<lparr>bucketStart := b, fBufMin := mn, fBufMax := mx\<rparr>) ?s3
      = Some (?p2\<lparr>bucketStart := b, fBufMin := mn, fBufMax := mx, pc := AtLoop\<rparr>, ?s3, [])"
    using assms(5) by (simp add: play_step_def target_frames_def)
  ultimately show ?thesis using s1 s2 by simp
qed

lemma play_many:
  assumes "rx_inv s" "pc p = AtLoop" "rx_bRun s" "n \<le> 1024"
    and "\<And>k. k < n \<Longrightarrow> buffered s (nNextSeq p + of_nat k)"
    and "length es = 3 * n" "\<forall>e \<in> set es. e_delay e \<le> target_frames s + int (m_nFramesPerPacket s) * 4"
  shows "\<exists>p' s'. play_run powf es p s = Some (p', s',
       concat (map (\<lambda>k. vSamples (m_vJitter s ! slot_index (nNextSeq p + of_nat k))) [0..<n]))
    \<and> pc p' = AtLoop \<and> nNextSeq p' = nNextSeq p + of_nat n
    \<and> m_nPlayed s' = m_nPlayed s + of_nat n \<and> m_nConcealed s' = m_nConcealed s
    \<and> (\<forall>k < n. \<not> buffered s' (nNextSeq p + of_nat k)) \<and> rx_inv s'
    \<and> (\<forall>i. (\<forall>k < n. i \<noteq> slot_index (nNextSeq p + of_nat k)) \<longrightarrow> m_vJitter s' ! i = m_vJitter s ! i)"
  using assms
proof (induction n arbitrary: es p s)
  case (Suc n)
  obtain e1 e2 e3 fs where es: "es = [e1, e2, e3] @ fs" "length fs = 3 * n"
    using Suc.prems(6) by (auto simp: numeral_eq_Suc length_Suc_conv)
  let ?q = "nNextSeq p"
  have b0: "buffered s ?q" using Suc.prems(5) [of 0] by simp
  obtain p1 s1 where one: "play_run powf [e1, e2, e3] p s = Some (p1, s1, vSamples (m_vJitter s ! slot_index ?q))"
    "pc p1 = AtLoop" "nNextSeq p1 = ?q + 1" "played ?q s s1"
    using play_one [OF Suc.prems(1-3) b0, of e3 powf e1 e2] Suc.prems(7) es by auto
  have P: "rx_inv s1" "rx_bRun s1" "m_nPlayed s1 = m_nPlayed s + 1" "m_nConcealed s1 = m_nConcealed s"
    "target_frames s1 = target_frames s" "m_nFramesPerPacket s1 = m_nFramesPerPacket s"
    "m_vJitter s1 = (m_vJitter s)[slot_index ?q := (m_vJitter s ! slot_index ?q)\<lparr>nGeneration := 0\<rparr>]"
    using one(4) Suc.prems(3) by (simp_all add: played_def)
  have ne: "slot_index (?q + of_nat (Suc k)) \<noteq> slot_index ?q" if "k < n" for k
  proof -
    have "(unat ?q + Suc k) mod 1024 \<noteq> unat ?q mod 1024"
      using that Suc.prems(4) mod_eq_dvd_iff_nat [of "unat ?q" "unat ?q + Suc k" 1024]
      by (auto dest: dvd_imp_le)
    then show ?thesis using slot_index_window [of ?q "Suc k"] slot_index_window [of ?q 0] by simp
  qed
  have keep: "m_vJitter s1 ! slot_index (?q + of_nat (Suc k)) = m_vJitter s ! slot_index (?q + of_nat (Suc k))"
    if "k < n" for k
    using ne [OF that] P(7) by simp
  have nxt: "nNextSeq p1 + of_nat k = ?q + of_nat (Suc k)" for k using one(3) by simp
  have bs1: "buffered s1 (nNextSeq p1 + of_nat k)" if "k < n" for k
    unfolding nxt using keep [OF that] Suc.prems(5) [of "Suc k"] that by (simp add: buffered_def)
  obtain p' s' where run: "play_run powf fs p1 s1 = Some (p', s',
      concat (map (\<lambda>k. vSamples (m_vJitter s1 ! slot_index (nNextSeq p1 + of_nat k))) [0..<n]))"
    "pc p' = AtLoop" "nNextSeq p' = nNextSeq p1 + of_nat n" "m_nPlayed s' = m_nPlayed s1 + of_nat n"
    "m_nConcealed s' = m_nConcealed s1" "\<forall>k < n. \<not> buffered s' (nNextSeq p1 + of_nat k)" "rx_inv s'"
    "\<forall>i. (\<forall>k < n. i \<noteq> slot_index (nNextSeq p1 + of_nat k)) \<longrightarrow> m_vJitter s' ! i = m_vJitter s1 ! i"
    using Suc.IH [OF P(1) one(2) P(2) _ bs1 es(2)] Suc.prems(4,7) P(5,6) es by auto
  have len: "length (m_vJitter s) = 1024" using Suc.prems(1) by (simp add: rx_inv_def jitter_ok_def)
  have "m_vJitter s' ! slot_index ?q = m_vJitter s1 ! slot_index ?q"
    using run(8) ne unfolding nxt by metis
  then have nb: "\<not> buffered s' ?q"
    using P(7) len generation_nonzero [of ?q] by (simp add: buffered_def)
  have gone: "\<not> buffered s' (?q + of_nat k)" if "k < Suc n" for k
    using that nb run(6) unfolding nxt by (cases k) auto
  have frame: "m_vJitter s' ! i = m_vJitter s ! i" if "\<forall>k < Suc n. i \<noteq> slot_index (?q + of_nat k)" for i
  proof -
    have "i \<noteq> slot_index ?q" using that [rule_format, of 0] by simp
    moreover have "\<forall>k < n. i \<noteq> slot_index (nNextSeq p1 + of_nat k)" using that unfolding nxt by blast
    ultimately show ?thesis using run(8) P(7) by simp
  qed
  have m1: "map (\<lambda>k. vSamples (m_vJitter s1 ! slot_index (nNextSeq p1 + of_nat k))) [0..<n]
      = map (\<lambda>k. vSamples (m_vJitter s ! slot_index (?q + of_nat (Suc k)))) [0..<n]"
    unfolding nxt using keep by simp
  have m2: "map f [0..<Suc n] = f 0 # map (\<lambda>k. f (Suc k)) [0..<n]" for f :: "nat \<Rightarrow> float32 list"
    by (simp add: upt_conv_Cons map_Suc_upt [symmetric] del: upt_Suc)
  have out: "play_run powf es p s = Some (p', s',
      concat (map (\<lambda>k. vSamples (m_vJitter s ! slot_index (?q + of_nat k))) [0..<Suc n]))"
    using one(1) run(1) [unfolded m1] unfolding es(1) play_run_append
    by (simp add: m2 del: upt_Suc play_run.simps)
  show ?case
    using out run(2-5,7) one(3) P(3,4) gone frame by (intro exI [of _ p'] exI [of _ s']) (simp del: upt_Suc)
qed simp

section \<open>Loss counting\<close>

lemma sint_small_diff:
  assumes "a \<le> b" "b - a < 2 ^ (LENGTH('a::len) - 1)"
  shows "sint (of_nat b - of_nat a :: 'a word) = int (b - a)"
proof -
  have "(of_nat b - of_nat a :: 'a word) = word_of_int (int (b - a))"
    using assms(1) by simp
  moreover have "int (b - a) < 2 ^ (LENGTH('a) - 1)" using assms(2) by (metis of_nat_less_iff of_nat_numeral of_nat_power)
  moreover have "- (2 ^ (LENGTH('a) - 1)) \<le> int (b - a)"
    using zero_le_power [of "2::int" "LENGTH('a) - 1"] by linarith
  ultimately show ?thesis by (simp only: sint_sbintrunc' signed_take_bit_int_eq_self)
qed

lemma note_arrival_last [simp]:
  "nLastSeq (note_arrival now q leg) = q" "bHaveSeq (note_arrival now q leg)"
  by (simp_all add: note_arrival_def Let_def)

lemma note_arrival_lost:
  assumes "bHaveSeq leg" "nLastSeq leg = of_nat a" "a < b" "b - a < 32768"
  shows "nLost (note_arrival now (of_nat b) leg) = nLost leg + of_nat (b - a - 1)"
  using assms sint_small_diff [of a b, where 'a = 16]
  by (cases "b = Suc a") (auto simp: note_arrival_def Let_def)

section \<open>Properties\<close>


lemma init_receiver_slot: "i < 1024 \<Longrightarrow> m_vJitter init_receiver ! i = init_slot"
  by (simp add: init_receiver_def)

definition demo_env :: play_env where
  "demo_env = \<lparr>e_now = 0, e_synced = True, e_ptpNs = 0, e_delay = 0, e_delay2 = 0, e_level = 0\<rparr>"


text \<open>
  C3. Seamless merge (ST 2022-7).  Let the packets of one stream, from a window of 1024 sequence
  numbers none of which is buffered yet, arrive over the two legs in any order and with any
  copies, as long as copies carry the same audio.  Afterwards every sequence number that arrived on
  at least one leg has its audio in the buffer, whichever leg was first; every further copy was
  counted and dropped; and no other slot of the buffer was touched.
\<close>

theorem seamless_merge:
  assumes "rx_inv s" "stream s base ps"
  shows "\<exists>s'. recv_ready ps now s = Some s'
    \<and> (\<forall>(l, p) \<in> set ps. holds s' (rtp_seq p) (packet_audio s p))
    \<and> m_nDuplicates s' + of_nat (card (seqs ps)) = m_nDuplicates s + of_nat (length ps)
    \<and> (\<forall>i < 1024. i \<notin> slot_index ` seqs ps \<longrightarrow> m_vJitter s' ! i = m_vJitter s ! i)"
  using recv_stream [OF assms, of now] by blast

definition demo_packet :: "u8 \<Rightarrow> bytes" where
  "demo_packet q = [0x80, 96, 0, q, 0, 0, 0, 7, 0, 0, 0, 1, 0x40, 0, 0, 0xc0, 0, 0]"

lemma demo_packet_facts:
  "is_rtp (demo_packet q)" "packet_frames default_session (demo_packet q) = 1" "rtp_seq (demo_packet q) = ucast q"
  by (simp_all add: is_rtp_def demo_packet_def packet_frames_def rtp_payload_def bytes_per_sample_def
      channel_count_def default_session_def rtp_seq_def be16_def)

lemma demo_stream: "stream init_receiver 0 [(0, demo_packet 1), (1, demo_packet 1), (1, demo_packet 0)]"
proof -
  have "\<not> buffered init_receiver q" for q
    using generation_nonzero [of q] by (simp add: buffered_def init_receiver_slot init_slot_def)
  moreover have "in_window 0 0" "in_window 0 1"
    unfolding in_window_def by (rule exI [of _ 0], simp) (rule exI [of _ 1], simp)
  moreover have "m_session init_receiver = default_session" by (simp add: init_receiver_def)
  ultimately show ?thesis by (simp add: stream_def demo_packet_facts)
qed

theorem seamless_merge_witness:
  "\<exists>s'. recv_ready [(0, demo_packet 1), (1, demo_packet 1), (1, demo_packet 0)] 0 init_receiver = Some s'
    \<and> holds s' 1 (packet_audio init_receiver (demo_packet 1)) \<and> holds s' 0 (packet_audio init_receiver (demo_packet 0))
    \<and> m_nDuplicates s' = 1"
proof -
  have "seqs [(0, demo_packet 1), (1, demo_packet 1), (1, demo_packet 0)] = {0, 1}"
    by (auto simp: seqs_def demo_packet_facts)
  moreover have "m_nDuplicates init_receiver = 0" by (simp add: init_receiver_def)
  ultimately show ?thesis
    using seamless_merge [OF init_receiver_inv demo_stream, of 0]
    by (auto simp: demo_packet_facts simp del: recv_ready.simps)
qed

text \<open>
  C11. Playout order.  When the next \<open>n\<close> packets are buffered and the device is not ahead of its
  target, the playout thread hands exactly their audio to the device, in sequence order and without
  a gap across the wrap of the sequence number, releases their slots, counts \<open>n\<close> played packets
  and conceals nothing.
\<close>

theorem playout_in_order:
  assumes "rx_reachable p s" "pc p = AtLoop" "rx_bRun s" "n \<le> 1024"
    and "\<And>k. k < n \<Longrightarrow> buffered s (nNextSeq p + of_nat k)"
    and "length es = 3 * n" "\<forall>e \<in> set es. e_delay e \<le> target_frames s + int (m_nFramesPerPacket s) * 4"
  shows "\<exists>p' s'. play_run powf es p s = Some (p', s',
       concat (map (\<lambda>k. vSamples (m_vJitter s ! slot_index (nNextSeq p + of_nat k))) [0..<n]))
    \<and> pc p' = AtLoop \<and> nNextSeq p' = nNextSeq p + of_nat n
    \<and> m_nPlayed s' = m_nPlayed s + of_nat n \<and> m_nConcealed s' = m_nConcealed s
    \<and> (\<forall>k < n. \<not> buffered s' (nNextSeq p + of_nat k))"
  using play_many [OF rx_reachable_inv [OF assms(1)] assms(2-7), of powf] by blast

definition demo_session :: SdpSession where
  "demo_session = default_session\<lparr>vLegs := [default_leg\<lparr>sMulticast := ''239.0.0.1''\<rparr>]\<rparr>"

definition demo_playing :: "(Playout \<times> RtpReceiver) option" where
  "demo_playing = do {
     (ok, s) \<leftarrow> rx_Configure (\<lambda>i m q. 3) demo_session [''eth0''] 20 init_receiver;
     s \<leftarrow> RxTurn [(0, demo_packet 0)] 0 s;
     (p, s, out) \<leftarrow> play_step (\<lambda>x y. 1) demo_env play_start s;
     (p, s, out) \<leftarrow> play_step (\<lambda>x y. 1) demo_env p s;
     Some (p, s) }"

lemma demo_playing_facts:
  "map_option (\<lambda>(p, s). (pc p, rx_bRun s, nNextSeq p, buffered s 0, target_frames s, m_nFramesPerPacket s)) demo_playing
     = Some (AtLoop, True, 0, True, 960, 48)"
  by code_simp

lemma play_run_reachable:
  "rx_reachable p s \<Longrightarrow> play_run powf es p s = Some (p', s', out) \<Longrightarrow> rx_reachable p' s'"
proof (induction powf es p s arbitrary: out rule: play_run.induct)
  case (2 powf e es p s)
  then show ?case by (auto simp: bind_eq_Some_conv dest: rx_reachable.play)
qed simp

lemma demo_playing_reachable:
  assumes "demo_playing = Some (p, s)"
  shows "rx_reachable p s"
proof -
  obtain ok s1 s2 p2 s3 o2 o3 where
    1: "rx_Configure (\<lambda>i m q. 3) demo_session [''eth0''] 20 init_receiver = Some (ok, s1)"
    and 2: "RxTurn [(0, demo_packet 0)] 0 s1 = Some s2"
    and 3: "play_step (\<lambda>x y. 1) demo_env play_start s2 = Some (p2, s3, o2)"
    and 4: "play_step (\<lambda>x y. 1) demo_env p2 s3 = Some (p, s, o3)"
    using assms unfolding demo_playing_def by (auto simp: bind_eq_Some_conv)
  have "map_option (\<lambda>(ok, s). m_nLegCount s) (rx_Configure (\<lambda>i m q. 3) demo_session [''eth0''] 20 init_receiver) = Some 1"
    by code_simp
  then have "m_nLegCount s1 = 1" using 1 by simp
  then show ?thesis
    using rx_reachable.play [OF rx_reachable.play [OF rx_reachable.receive [OF rx_reachable.configure
      [OF rx_reachable.fresh 1] _ 2] 3] 4] by simp
qed

theorem playout_in_order_witness:
  "\<exists>p s p' s'. demo_playing = Some (p, s)
    \<and> play_run (\<lambda>x y. 1) [demo_env, demo_env, demo_env] p s = Some (p', s', vSamples (m_vJitter s ! 0))
    \<and> nNextSeq p' = 1 \<and> \<not> buffered s' 0"
proof -
  obtain p s where ps: "demo_playing = Some (p, s)" "pc p = AtLoop" "rx_bRun s" "nNextSeq p = 0" "buffered s 0"
    "target_frames s = 960" "m_nFramesPerPacket s = 48"
    using demo_playing_facts by auto
  have "e_delay demo_env = 0" by (simp add: demo_env_def)
  then show ?thesis
    using playout_in_order [OF demo_playing_reachable [OF ps(1)] ps(2,3), of 1 "[demo_env, demo_env, demo_env]" "\<lambda>x y. 1"]
      ps by (simp add: slot_index_def del: play_run.simps) blast
qed

text \<open>
  Concealment.  A packet that is missing while the stream is alive and the device is about
  to run dry is replaced by exactly one packet time of silence, counted, and skipped.
\<close>

theorem missing_packet_concealed:
  assumes "rx_reachable p s" "pc p = AtLoop" "rx_bRun s" "m_bReceiving s" "\<not> buffered s (nNextSeq p)"
    and "e_delay e \<le> int (m_nFramesPerPacket s) * 2"
  shows "\<exists>p' s'. play_step powf e p s = Some (p', s', replicate (2 * m_nFramesPerPacket s) 0)
    \<and> nNextSeq p' = nNextSeq p + 1 \<and> m_nConcealed s' = m_nConcealed s + 1
    \<and> m_nPlayed s' = m_nPlayed s \<and> m_vJitter s' = m_vJitter s"
proof -
  let ?p = "p\<lparr>nNextSeq := nNextSeq p + 1, pc := Steer\<rparr>" and ?s = "s\<lparr>m_nConcealed := m_nConcealed s + 1\<rparr>"
  obtain b mn mx q where
    "SampleBuffer e (?p, ?s) = (?p\<lparr>bucketStart := b, fBufMin := mn, fBufMax := mx\<rparr>, ?s\<lparr>m_qBufferHistory := q\<rparr>)"
    using SampleBuffer_keeps by blast
  then show ?thesis
    using play_step_AtLoop [OF rx_reachable_inv [OF assms(1)] assms(2,3), of powf e] assms(4-6)
    by (simp add: buffered_def Let_def conceal_def silence_def mult.commute)
qed


definition demo_missing :: "(Playout \<times> RtpReceiver) option" where
  "demo_missing = do {
     (p, s) \<leftarrow> demo_playing;
     (p, s, out) \<leftarrow> play_run (\<lambda>x y. 1) [demo_env, demo_env, demo_env] p s;
     Some (p, s) }"

lemma demo_missing_facts:
  "map_option (\<lambda>(p, s). (pc p, rx_bRun s, m_bReceiving s, nNextSeq p, buffered s 1, m_nFramesPerPacket s)) demo_missing
     = Some (AtLoop, True, True, 1, False, 48)"
  by code_simp

theorem missing_packet_concealed_witness:
  "\<exists>p s p' s'. demo_missing = Some (p, s)
    \<and> play_step (\<lambda>x y. 1) demo_env p s = Some (p', s', replicate (2 * 48) 0) \<and> nNextSeq p' = 2"
proof -
  obtain p s where ps: "demo_missing = Some (p, s)" "pc p = AtLoop" "rx_bRun s" "m_bReceiving s"
    "nNextSeq p = 1" "\<not> buffered s 1" "m_nFramesPerPacket s = 48"
    using demo_missing_facts by auto
  have "rx_reachable p s"
    using ps(1) play_run_reachable [OF demo_playing_reachable] unfolding demo_missing_def
    by (auto simp: bind_eq_Some_conv simp del: play_run.simps)
  moreover have "e_delay demo_env = 0" by (simp add: demo_env_def)
  ultimately show ?thesis
    using missing_packet_concealed [of p s demo_env "\<lambda>x y. 1"] ps by auto
qed

lemma successively_growth:
  "successively (\<lambda>a b. a < b \<and> b - a < (32768::nat)) (m # ms) \<Longrightarrow> m + length ms \<le> last (m # ms)"
proof (induction ms arbitrary: m)
  case (Cons a ms)
  then have "m < a" "successively (\<lambda>a b. a < b \<and> b - a < 32768) (a # ms)" by (simp_all add: successively_Cons)
  then show ?case using Cons.IH [of a] by simp
qed simp

text \<open>
  The loss counter of a leg is exact for packets in sequence: after any increasing run of
  sequence numbers, with gaps below half the sequence space and any number of wraps, it has grown
  by the number of sequence numbers skipped.
\<close>

theorem loss_counter_exact:
  assumes "bHaveSeq leg" "nLastSeq leg = of_nat k0"
    and "successively (\<lambda>a b. a < b \<and> b - a < 32768) (k0 # ks)"
  shows "nLost (fold (\<lambda>k. note_arrival now (of_nat k)) ks leg)
    = nLost leg + of_nat (last (k0 # ks) - k0 - length ks)"
  using assms
proof (induction ks arbitrary: k0 leg)
  case (Cons k ks)
  let ?leg = "note_arrival now (of_nat k) leg"
  have k: "k0 < k" "k - k0 < 32768" and ks: "successively (\<lambda>a b. a < b \<and> b - a < 32768) (k # ks)"
    using Cons.prems(3) by (simp_all add: successively_Cons)
  have "nLost (fold (\<lambda>k. note_arrival now (of_nat k)) ks ?leg) = nLost ?leg + of_nat (last (k # ks) - k - length ks)"
    by (rule Cons.IH) (simp_all add: ks)
  also have "nLost ?leg = nLost leg + of_nat (k - k0 - 1)"
    using Cons.prems(1,2) k by (rule note_arrival_lost)
  also have "nLost leg + of_nat (k - k0 - 1) + of_nat (last (k # ks) - k - length ks)
      = nLost leg + of_nat ((k - k0 - 1) + (last (k # ks) - k - length ks))" by simp
  also have "(k - k0 - 1) + (last (k # ks) - k - length ks) = last (k0 # k # ks) - k0 - length (k # ks)"
    using successively_growth [OF ks] k by simp
  finally show ?case by simp
qed simp

theorem loss_counter_exact_witness:
  "nLost (fold (\<lambda>k. note_arrival 0 (of_nat k)) [65535, 65536, 65540] (init_leg\<lparr>bHaveSeq := True, nLastSeq := of_nat 65534\<rparr>))
    = 0 + of_nat (65540 - 65534 - 3)"
  using loss_counter_exact [of "init_leg\<lparr>bHaveSeq := True, nLastSeq := of_nat 65534\<rparr>" 65534 "[65535, 65536, 65540]" 0]
  by (simp add: init_leg_def del: fold.simps)

text \<open>
  Under reordering the counter reports losses that did not happen: when two packets swap
  places, so that all four of a run arrive, it grows by two.
\<close>

theorem loss_counter_reordering:
  "bHaveSeq leg \<Longrightarrow> nLastSeq leg = q
    \<Longrightarrow> nLost (fold (note_arrival now) [q + 2, q + 1, q + 3] leg) = nLost leg + 2"
proof -
  assume "bHaveSeq leg" "nLastSeq leg = q"
  moreover have "sint (q + 2 - q) = 2" "sint (q + 1 - (q + 2)) = -1" "sint (q + 3 - (q + 1)) = 2"
    by simp_all
  ultimately show ?thesis by (simp add: note_arrival_def Let_def)
qed

theorem loss_counter_reordering_witness:
  "nLost (fold (note_arrival 0) [0 + 2, 0 + 1, 0 + 3] (init_leg\<lparr>bHaveSeq := True\<rparr>)) = 0 + 2"
  using loss_counter_reordering [of "init_leg\<lparr>bHaveSeq := True\<rparr>" 0 0] by (simp add: init_leg_def del: fold.simps)

text \<open>
  A copy that arrives after its packet was played is not recognised: the slot has been
  released, so the copy takes it again and is counted as merged audio instead of as a duplicate.
\<close>

theorem late_copy_stored_again:
  assumes "rx_reachable p s" "pc p = Writing" "nNextSeq p = rtp_seq d" "is_rtp d" "0 < packet_frames (m_session s) d"
    and "play_step powf e p s = Some (p', s1, out)" "HandlePacket 1 d now s1 = Some s2"
  shows "buffered s2 (rtp_seq d) \<and> m_nDuplicates s2 = m_nDuplicates s
    \<and> m_nMergedFromSecondary s2 = m_nMergedFromSecondary s + 1 \<and> nNextSeq p' = rtp_seq d + 1"
proof -
  have inv: "rx_inv s" "rx_inv s1"
    using assms(1,6) rx_reachable_inv rx_reachable.play by blast+
  let ?q = "rtp_seq d"
  have j: "jitter_ok (m_vJitter s)" using inv by (simp add: rx_inv_def)
  let ?p = "p\<lparr>pc := Steer, nNextSeq := ?q + 1\<rparr>"
  let ?s = "s\<lparr>m_vJitter := (m_vJitter s)[slot_index ?q := (m_vJitter s ! slot_index ?q)\<lparr>nGeneration := 0\<rparr>],
    m_nPlayed := m_nPlayed s + 1\<rparr>"
  obtain b mn mx h where
    "SampleBuffer e (?p, ?s) = (?p\<lparr>bucketStart := b, fBufMin := mn, fBufMax := mx\<rparr>, ?s\<lparr>m_qBufferHistory := h\<rparr>)"
    using SampleBuffer_keeps by blast
  then have s1: "s1 = ?s\<lparr>m_qBufferHistory := h\<rparr>" "nNextSeq p' = ?q + 1"
    using assms(2,3,6) release_inv(1) [OF j, of ?q] by (auto simp: play_step_def)
  then have "\<not> buffered s1 ?q"
    using j generation_nonzero [of ?q] by (simp add: buffered_def jitter_ok_def)
  moreover have "length (m_vJitter s1) = 1024" using inv(2) by (simp add: rx_inv_def jitter_ok_def)
  moreover have "m_session s1 = m_session s" by (simp add: s1)
  ultimately show ?thesis
    using HandlePacket_merge(5) [OF inv(2) _ assms(4) _ assms(7)] assms(5) s1
    by (simp add: buffered_def store_slot_def)
qed

definition demo_writing :: "(Playout \<times> RtpReceiver) option" where
  "demo_writing = do {
     (p, s) \<leftarrow> demo_playing;
     (p, s, out) \<leftarrow> play_run (\<lambda>x y. 1) [demo_env] p s;
     Some (p, s) }"

lemma demo_writing_facts:
  "map_option (\<lambda>(p, s). (pc p, nNextSeq p, packet_frames (m_session s) (demo_packet 0),
       map_option (\<lambda>(p', s1, out). case HandlePacket 1 (demo_packet 0) 0 s1 of None \<Rightarrow> False | Some s2 \<Rightarrow> True)
         (play_step (\<lambda>x y. 1) demo_env p s))) demo_writing
     = Some (Writing, 0, 1, Some True)"
  by code_simp

theorem late_copy_stored_again_witness:
  "\<exists>p s p' s1 s2 out. demo_writing = Some (p, s) \<and> play_step (\<lambda>x y. 1) demo_env p s = Some (p', s1, out)
    \<and> HandlePacket 1 (demo_packet 0) 0 s1 = Some s2 \<and> buffered s2 0 \<and> m_nDuplicates s2 = m_nDuplicates s"
proof -
  obtain p s p' s1 s2 out where ps: "demo_writing = Some (p, s)" "pc p = Writing" "nNextSeq p = 0"
    "packet_frames (m_session s) (demo_packet 0) = 1"
    "play_step (\<lambda>x y. 1) demo_env p s = Some (p', s1, out)" "HandlePacket 1 (demo_packet 0) 0 s1 = Some s2"
    using demo_writing_facts by (auto split: option.splits)
  have "rx_reachable p s"
    using ps(1) play_run_reachable [OF demo_playing_reachable] unfolding demo_writing_def
    by (auto simp: bind_eq_Some_conv simp del: play_run.simps)
  from late_copy_stored_again [OF this ps(2), of "demo_packet 0" "\<lambda>x y. 1" demo_env p' s1 out 0 s2] ps
  show ?thesis by (simp add: demo_packet_facts) blast
qed

text \<open>
  C21. The playout anchor.  For a stream on the media clock whose first packet carries the
  timestamp of the PTP time \<open>T\<close>, a receiver that is synchronised and looks at PTP time \<open>N\<close>, less
  than the playout delay later, waits until \<open>T\<close> plus the playout delay, to within 22 microseconds
  (a sample period and the resolution of the sleep).
\<close>

theorem playout_anchor:
  assumes "2 \<le> d" "d \<le> 500" "T \<le> N" "int (unat N) - int (unat T) < d * 1000000"
  shows "\<exists>w \<ge> 0. anchor_wait True N d (media_timestamp T) = Some w
    \<and> \<bar>(int (unat N) + w * 1000) - (int (unat T) + d * 1000000)\<bar> \<le> 21834"
proof -
  let ?n = "unat N" and ?t = "unat T"
  define x y where "x = ?n * 48000 div 1000000000" and "y = ?t * 48000 div 1000000000"
  have le: "?t \<le> ?n" using assms(3) by (simp add: word_le_nat_alt)
  then have xy: "y \<le> x" unfolding x_def y_def by (intro div_le_mono) simp
  have X: "1000000000 * int x \<le> 48000 * int ?n" "48000 * int ?n < 1000000000 * int x + 1000000000"
    and Y: "1000000000 * int y \<le> 48000 * int ?t" "48000 * int ?t < 1000000000 * int y + 1000000000"
    unfolding x_def y_def by linarith+
  define a where "a = int x - int y"
  have A: "62500 * a < 3 * (int ?n - int ?t) + 62500" "3 * (int ?n - int ?t) < 62500 * a + 62500"
    using X Y by (simp_all add: a_def right_diff_distrib)
  define D where "D = int ?n - int ?t"
  have "62500 * a < 3 * D + 62500" "D < d * 1000000" using A(1) assms(4) by (simp_all add: D_def)
  then have "a \<le> 48 * d" by simp
  moreover have "0 \<le> a" using xy by (simp add: a_def)
  ultimately have a: "0 \<le> a" "a \<le> 48 * d" by simp_all
  have "x - y < 2 ^ (LENGTH(32) - 1)" using a xy assms(2) unfolding a_def by simp
  then have "sint (media_timestamp N - media_timestamp T) = a"
    using sint_small_diff [of y x, where 'a = 32] xy
    by (simp add: media_timestamp_exact x_def y_def a_def of_nat_diff)
  moreover have "d * 48000 div 1000 = 48 * d" by simp
  ultimately have "anchor_wait True N d (media_timestamp T) = Some ((48 * d - a) * 1000000 div 48000)"
    using a assms(1,2) by (auto simp: anchor_wait_def Let_def)
  moreover have "48000 * ((48 * d - a) * 1000000 div 48000) \<le> (48 * d - a) * 1000000"
    "(48 * d - a) * 1000000 < 48000 * ((48 * d - a) * 1000000 div 48000) + 48000"
    by linarith+
  then have "\<bar>(int ?n + ((48 * d - a) * 1000000 div 48000) * 1000) - (int ?t + d * 1000000)\<bar> \<le> 21834"
    using A by (simp add: abs_le_iff algebra_simps)
  ultimately show ?thesis using a by (intro exI [of _ "(48 * d - a) * 1000000 div 48000"]) simp
qed

theorem playout_anchor_witness:
  "\<exists>w \<ge> 0. anchor_wait True 5000003000000 20 (media_timestamp 5000000000000) = Some w
    \<and> \<bar>(int (unat (5000003000000 :: u64)) + w * 1000) - (int (unat (5000000000000 :: u64)) + 20 * 1000000)\<bar> \<le> 21834"
  by (rule playout_anchor) simp_all

end
