(* ===== verification/Rtp_Sender.thy ===== *)
theory Rtp_Sender
  imports Rtp_Receiver
begin

text \<open>
  The stream sender of \<^verbatim>\<open>src/src/rtp/rtpsender.cpp\<close>: packets of L24 audio leave at deadlines on the PTP
  clock and carry the media clock of their deadline as timestamp, the same packet on every enabled
  leg.  \<open>send_step\<close> is the send thread, cut at the points where it waits; the PTP clock, its lock
  state and the results of \<^verbatim>\<open>send\<close> are readings of the environment.
\<close>

section \<open>State\<close>

record Leg =
  tx_sInterface :: string
  tx_sMulticast :: string
  bEnabled :: bool

record RtpSender =
  m_vLegs :: "Leg list"
  m_vSockets :: "int list"
  m_vSourceIps :: "string list"
  m_nPort :: u16
  m_nPayloadType :: int
  m_nPacketTimeUs :: int
  m_pSource :: "Source option"
  m_sSourceName :: string
  tx_bRun :: bool
  m_bEssenceOk :: bool
  m_bWaitingForPtp :: bool
  m_nPacketsSent :: u64
  m_nSendErrors :: u64
  m_abLegEnabled :: "bool list"
  m_nSsrc :: u32
  tx_meters :: Meters
  m_nLateAvgNs :: int
  m_nLateMaxNs :: int

definition init_sender :: RtpSender where
  "init_sender = \<lparr>m_vLegs = [], m_vSockets = [], m_vSourceIps = [], m_nPort = 5004, m_nPayloadType = 96,
     m_nPacketTimeUs = 1000, m_pSource = None, m_sSourceName = [], tx_bRun = False, m_bEssenceOk = False,
     m_bWaitingForPtp = False, m_nPacketsSent = 0, m_nSendErrors = 0, m_abLegEnabled = [True, True],
     m_nSsrc = 0, tx_meters = init_meters, m_nLateAvgNs = 0, m_nLateMaxNs = 0\<rparr>"

section \<open>Starting and stopping\<close>

definition SetLegEnabled :: "nat \<Rightarrow> bool \<Rightarrow> RtpSender \<Rightarrow> RtpSender" where
  "SetLegEnabled nLeg b s = (if nLeg < 2 then s\<lparr>m_abLegEnabled := (m_abLegEnabled s)[nLeg := b]\<rparr> else s)"

definition LegEnabled :: "nat \<Rightarrow> RtpSender \<Rightarrow> bool" where
  "LegEnabled nLeg s \<longleftrightarrow> nLeg < 2 \<and> m_abLegEnabled s ! nLeg"

definition tx_Stop :: "RtpSender \<Rightarrow> RtpSender" where
  "tx_Stop s = s\<lparr>tx_bRun := False, m_vSockets := [], m_bEssenceOk := False\<rparr>"

text \<open>
  The loop over the legs: \<open>connect\<close> stands for the socket calls of a leg and gives the connected
  descriptor or a negative value, \<open>interface_ip\<close> for the address of an interface.  The array of
  enable flags has two entries; \<open>None\<close> is a write beyond them.
\<close>

fun connect_legs ::
  "(Leg \<Rightarrow> u16 \<Rightarrow> int) \<Rightarrow> (string \<Rightarrow> string) \<Rightarrow> Leg list \<Rightarrow> RtpSender \<Rightarrow> (bool \<times> RtpSender) option" where
  "connect_legs connect interface_ip [] s = Some (True, s)"
| "connect_legs connect interface_ip (leg # legs) s =
     (let nSocket = connect leg (m_nPort s) in
      if nSocket < 0 then Some (False, s)
      else do {
        flags \<leftarrow> wr (m_abLegEnabled s) (length (m_vSockets s)) (bEnabled leg);
        connect_legs connect interface_ip legs
          (s\<lparr>m_vSockets := m_vSockets s @ [nSocket],
             m_vSourceIps := m_vSourceIps s @ [interface_ip (tx_sInterface leg)],
             m_abLegEnabled := flags\<rparr>)
      })"

definition tx_Configure ::
  "(Leg \<Rightarrow> u16 \<Rightarrow> int) \<Rightarrow> (string \<Rightarrow> string) \<Rightarrow> u32 \<Rightarrow> Leg list \<Rightarrow> u16 \<Rightarrow> int \<Rightarrow> int \<Rightarrow> Source option
    \<Rightarrow> RtpSender \<Rightarrow> (bool \<times> RtpSender) option" where
  "tx_Configure connect interface_ip random legs port pt ptimeUs pSource s =
    (let s = tx_Stop s in
     case pSource of
       None \<Rightarrow> Some (False, s)
     | Some src \<Rightarrow>
         if legs = [] then Some (False, s)
         else do {
           let s = s\<lparr>m_vLegs := legs, m_nPort := port, m_nPayloadType := pt, m_nPacketTimeUs := max 125 ptimeUs,
                     m_pSource := Some src, m_sSourceName := Describe src, m_vSourceIps := []\<rparr>;
           (ok, s) \<leftarrow> connect_legs connect interface_ip legs s;
           if \<not> ok then Some (False, s)
           else Some (True, s\<lparr>m_nSsrc := random, m_nPacketsSent := 0, m_nSendErrors := 0,
                              tx_meters := Reset (tx_meters s), tx_bRun := True\<rparr>)
         })"

section \<open>Building a packet\<close>

definition frames_of_ptime :: "int \<Rightarrow> nat" where
  "frames_of_ptime us = nat (48000 * us div 1000000)"

definition sample_l24 :: "float32 \<Rightarrow> 32 word" where
  "sample_l24 f = word_of_int (trunc (rnd32 (clamp f (-1) 1 * 8388607)))"

fun encode_payload :: "float32 list \<Rightarrow> nat \<Rightarrow> nat \<Rightarrow> bytes option" where
  "encode_payload vAudio i 0 = Some []"
| "encode_payload vAudio i (Suc n) = do {
     f \<leftarrow> rd vAudio i;
     let nSample = sample_l24 f;
     rest \<leftarrow> encode_payload vAudio (Suc i) n;
     Some (byte32 16 nSample # byte32 8 nSample # byte32 0 nSample # rest)
   }"

definition rtp_header :: "int \<Rightarrow> u16 \<Rightarrow> u32 \<Rightarrow> u32 \<Rightarrow> bytes" where
  "rtp_header pt nSeq nRtpTs nSsrc =
     [0x80, word_of_int pt, hi8 nSeq, lo8 nSeq,
      byte32 24 nRtpTs, byte32 16 nRtpTs, byte32 8 nRtpTs, byte32 0 nRtpTs,
      byte32 24 nSsrc, byte32 16 nSsrc, byte32 8 nSsrc, byte32 0 nSsrc]"

section \<open>The send thread\<close>

datatype send_pc = TxLoop | TxWaiting | TxBuild | TxSpin | TxDone

record SendLocals =
  tx_pc :: send_pc
  nStartNs :: u64
  nPacket :: u64
  nWindowEndNs :: u64
  nLateAvgNs :: int
  nLateMaxNs :: int
  nSeq :: u16
  bNeedAnchor :: bool
  nDeadlineNs :: u64
  vAudio :: "float32 list"
  vPacket :: bytes

record send_env =
  v_synced :: bool
  v_ptpNs :: u64 \<comment> \<open>when the step starts\<close>
  v_sentNs :: u64 \<comment> \<open>after the packet was sent\<close>
  v_result :: "nat \<Rightarrow> int" \<comment> \<open>of \<^verbatim>\<open>send\<close>, per leg\<close>

definition send_start :: "RtpSender \<Rightarrow> SendLocals" where
  "send_start s = \<lparr>tx_pc = TxLoop, nStartNs = 0, nPacket = 0, nWindowEndNs = 0, nLateAvgNs = 0, nLateMaxNs = 0,
     nSeq = ucast (m_nSsrc s), bNeedAnchor = True, nDeadlineNs = 0,
     vAudio = replicate (frames_of_ptime (m_nPacketTimeUs s) * 2) 0,
     vPacket = replicate (12 + frames_of_ptime (m_nPacketTimeUs s) * 6) 0\<rparr>"

definition spin_ns :: "RtpSender \<Rightarrow> int" where
  "spin_ns s = min 100000 (m_nPacketTimeUs s * 250)"

text \<open>Division of signed integers drops the fraction.\<close>

definition cdiv :: "int \<Rightarrow> int \<Rightarrow> int" where
  "cdiv a b = (if 0 \<le> a then a div b else - ((- a) div b))"

text \<open>The sends of one packet: the number of errors, and the legs it was sent on.\<close>

fun send_legs :: "send_env \<Rightarrow> bool list \<Rightarrow> nat \<Rightarrow> int list \<Rightarrow> (u64 \<times> nat list) option" where
  "send_legs e flags nLeg [] = Some (0, [])"
| "send_legs e flags nLeg (sock # socks) = do {
     enabled \<leftarrow> rd flags nLeg;
     (nErrors, out) \<leftarrow> send_legs e flags (Suc nLeg) socks;
     Some (if \<not> enabled then (nErrors, out)
           else (if v_result e nLeg < 0 then nErrors + 1 else nErrors, nLeg # out))
   }"

text \<open>The audio of the next packet; without a source the buffer keeps what it held.\<close>

definition next_audio ::
  "(double \<Rightarrow> double) \<Rightarrow> (double \<Rightarrow> double \<Rightarrow> double) \<Rightarrow> float32 list \<Rightarrow> RtpSender \<Rightarrow> bool \<times> float32 list \<times> Source option" where
  "next_audio c_sin pow held s =
    (case m_pSource s of
       None \<Rightarrow> (False, held, None)
     | Some src \<Rightarrow> (let (ok, out, src) = Read c_sin pow (frames_of_ptime (m_nPacketTimeUs s)) src in (ok, out, Some src)))"

definition note_lateness :: "u64 \<Rightarrow> SendLocals \<times> RtpSender \<Rightarrow> SendLocals \<times> RtpSender" where
  "note_lateness nSentNs ls =
    (let (l, s) = ls;
         nLateNs = max 0 (sint nSentNs - sint (nDeadlineNs l));
         l = l\<lparr>nLateAvgNs := nLateAvgNs l + cdiv (nLateNs - nLateAvgNs l) 16, nLateMaxNs := max (nLateMaxNs l) nLateNs\<rparr>;
         s = s\<lparr>m_nLateAvgNs := nLateAvgNs l\<rparr>
     in if nWindowEndNs l \<le> nDeadlineNs l then
          (l\<lparr>nLateMaxNs := 0, nWindowEndNs := nDeadlineNs l + 5000000000\<rparr>, s\<lparr>m_nLateMaxNs := nLateMaxNs l\<rparr>)
        else (l, s))"

text \<open>One step; the last component of the result lists the packets sent, with their legs.\<close>

definition send_step ::
  "(double \<Rightarrow> double) \<Rightarrow> (double \<Rightarrow> double \<Rightarrow> double) \<Rightarrow> (float32 \<Rightarrow> float32 \<Rightarrow> float32) \<Rightarrow> send_env
    \<Rightarrow> SendLocals \<Rightarrow> RtpSender \<Rightarrow> (SendLocals \<times> RtpSender \<times> (nat \<times> bytes) list) option" where
  "send_step c_sin pow powf e l s =
    (case tx_pc l of
       TxLoop \<Rightarrow>
         if \<not> tx_bRun s then Some (l\<lparr>tx_pc := TxDone\<rparr>, s, [])
         else if bNeedAnchor l \<or> \<not> v_synced e then Some (l\<lparr>tx_pc := TxWaiting\<rparr>, s\<lparr>m_bWaitingForPtp := True\<rparr>, [])
         else Some (l\<lparr>tx_pc := TxBuild\<rparr>, s, [])
     | TxWaiting \<Rightarrow>
         if tx_bRun s \<and> \<not> v_synced e then Some (l, s, [])
         else
           let s = s\<lparr>m_bWaitingForPtp := False\<rparr> in
           if \<not> tx_bRun s then Some (l\<lparr>tx_pc := TxDone\<rparr>, s, [])
           else Some (l\<lparr>tx_pc := TxBuild, nStartNs := v_ptpNs e + 20000000, nPacket := 0,
                        nWindowEndNs := (v_ptpNs e + 20000000) + 5000000000, bNeedAnchor := False\<rparr>, s, [])
     | TxBuild \<Rightarrow>
         let l = l\<lparr>nDeadlineNs := nStartNs l + nPacket l * of_int (m_nPacketTimeUs s) * 1000\<rparr>;
             nAheadNs = sint (nDeadlineNs l) - sint (v_ptpNs e);
             nFrames = frames_of_ptime (m_nPacketTimeUs s) in
         if 2000000000 < nAheadNs \<or> nAheadNs < -2000000000 then Some (l\<lparr>tx_pc := TxLoop, bNeedAnchor := True\<rparr>, s, [])
         else do {
           let (bHaveAudio, audio, src) = next_audio c_sin pow (vAudio l) s;
           m \<leftarrow> Feed powf audio nFrames (tx_meters s);
           payload \<leftarrow> encode_payload audio 0 (nFrames * 2);
           let packet = rtp_header (m_nPayloadType s) (nSeq l) (media_timestamp (nDeadlineNs l)) (m_nSsrc s) @ payload;
           Some (l\<lparr>tx_pc := TxSpin, vAudio := audio, vPacket := packet\<rparr>,
                 s\<lparr>m_pSource := src, m_bEssenceOk := bHaveAudio, tx_meters := m\<rparr>, [])
         }
     | TxSpin \<Rightarrow>
         let nRemainNs = sint (nDeadlineNs l) - sint (v_ptpNs e) in
         if \<not> (nRemainNs \<le> 0 \<or> 2 * spin_ns s < nRemainNs) then Some (l, s, [])
         else do {
           (nErrors, legs) \<leftarrow> send_legs e (m_abLegEnabled s) 0 (m_vSockets s);
           let s = s\<lparr>m_nSendErrors := m_nSendErrors s + nErrors, m_nPacketsSent := m_nPacketsSent s + 1\<rparr>;
           let out = map (\<lambda>nLeg. (nLeg, vPacket l)) legs;
           let (l, s) = note_lateness (v_sentNs e) (l, s);
           Some (l\<lparr>tx_pc := TxLoop, nSeq := nSeq l + 1, nPacket := nPacket l + 1\<rparr>, s, out)
         }
     | TxDone \<Rightarrow> Some (l, s, []))"

section \<open>Describing the session\<close>

text \<open>\<open>sLabel\<close> is the configured label, \<open>sGrandmaster\<close> what the PTP client reports.\<close>

fun described_legs :: "RtpSender \<Rightarrow> nat \<Rightarrow> nat \<Rightarrow> Leg list \<Rightarrow> SdpLeg list option" where
  "described_legs s nEnabled nLeg [] = Some []"
| "described_legs s nEnabled nLeg (leg # legs) = do {
     enabled \<leftarrow> rd (m_abLegEnabled s) nLeg;
     rest \<leftarrow> described_legs s nEnabled (Suc nLeg) legs;
     Some (if \<not> enabled then rest
           else \<lparr>sMid = (if 1 < nEnabled then (if nLeg = 0 then ''PRI'' else ''SEC'') else []),
                 sMulticast = tx_sMulticast leg,
                 sSourceFilter = (if nLeg < length (m_vSourceIps s) then m_vSourceIps s ! nLeg else []),
                 nPort = m_nPort s\<rparr> # rest)
   }"

definition DescribeSession :: "string \<Rightarrow> string \<Rightarrow> RtpSender \<Rightarrow> SdpSession option" where
  "DescribeSession sLabel sGrandmaster s = do {
     let nEnabled = length (filter (\<lambda>nLeg. m_abLegEnabled s ! nLeg) [0..<length (m_vLegs s)]);
     legs \<leftarrow> described_legs s nEnabled 0 (m_vLegs s);
     Some (default_session\<lparr>sName := (if sLabel = [] then ''pi-audio-node '' @ m_sSourceName s else sLabel),
             nPayloadType := m_nPayloadType s, dPacketTimeMs := rnd64 (of_int (m_nPacketTimeUs s) / 1000),
             sPtpGrandmaster := sGrandmaster, vLegs := legs\<rparr>)
   }"

section \<open>Packets\<close>

definition l24_bytes :: "float32 \<Rightarrow> bytes" where
  "l24_bytes f = [byte32 16 (sample_l24 f), byte32 8 (sample_l24 f), byte32 0 (sample_l24 f)]"

lemma encode_payload_eq:
  "i + n \<le> length a \<Longrightarrow> encode_payload a i n = Some (concat (map l24_bytes (take n (drop i a))))"
proof (induction n arbitrary: i)
  case (Suc n)
  have "take (Suc n) (drop i a) = a ! i # take n (drop (Suc i) a)"
    using Suc.prems by (simp add: Cons_nth_drop_Suc [symmetric])
  with Suc show ?case by (simp add: rd_simps l24_bytes_def Let_def)
qed simp

lemma length_concat_l24 [simp]: "length (concat (map l24_bytes xs)) = 3 * length xs"
  by (induction xs) (simp_all add: l24_bytes_def)

lemma nth_concat_l24:
  "i < length xs \<Longrightarrow> j < 3 \<Longrightarrow> concat (map l24_bytes xs) ! (i * 3 + j) = l24_bytes (xs ! i) ! j"
proof (induction xs arbitrary: i)
  case (Cons x xs)
  have len: "length (l24_bytes x) = 3" by (simp add: l24_bytes_def)
  show ?case
  proof (cases i)
    case 0
    then show ?thesis using Cons.prems len by (simp add: nth_append)
  next
    case (Suc k)
    then show ?thesis using Cons.IH [of k] Cons.prems len by (simp add: nth_append)
  qed
qed simp

lemma representable_l24:
  "representable 24 (-149) 8388607" "representable 24 (-149) (- 8388607)"
  using representable_int [of 8388607 24 "-149"] representable_int [of "-8388607" 24 "-149"] by auto

lemma sint_sample_l24:
  "sint (sample_l24 f) = trunc (rnd32 (clamp f (-1) 1 * 8388607))" "\<bar>sint (sample_l24 f)\<bar> \<le> 8388607"
proof -
  let ?t = "trunc (rnd32 (clamp f (-1) 1 * 8388607))"
  have b: "\<bar>?t\<bar> \<le> 8388607"
    using clamp_bounds [of "-1" 1 f] by (intro trunc_abs) (simp add: scaled_bound representable_l24)
  then show "sint (sample_l24 f) = ?t"
    by (simp add: sample_l24_def sint_sbintrunc' signed_take_bit_int_eq_self)
  with b show "\<bar>sint (sample_l24 f)\<bar> \<le> 8388607" by simp
qed

lemma l24_reassembled:
  assumes "\<bar>sint n\<bar> \<le> 8388607"
  shows "signed_take_bit 23 (be32 0 (byte32 16 n) (byte32 8 n) (byte32 0 n)) = n"
proof -
  have "signed_take_bit 23 (be32 0 (byte32 16 n) (byte32 8 n) (byte32 0 n)) = signed_take_bit 23 n"
  proof (rule bit_word_eqI)
    fix i
    have "bit (be32 0 (byte32 16 n) (byte32 8 n) (byte32 0 n)) k = bit n k" if k: "k < 24" for k
    proof -
      consider "k < 8" | "8 \<le> k" "k < 16" | "16 \<le> k" "k < 24" using k by fastforce
      then show ?thesis by cases (auto simp: be32_def byte32_ucast bit_simps)
    qed
    then show "bit (signed_take_bit 23 (be32 0 (byte32 16 n) (byte32 8 n) (byte32 0 n))) i = bit (signed_take_bit 23 n) i"
      by (simp add: bit_signed_take_bit_iff min_def)
  qed
  moreover have "sint (signed_take_bit 23 n) = signed_take_bit 23 (sint n)"
    by (rule bit_eqI) (auto simp: bit_simps min_def)
  then have "sint (signed_take_bit 23 n) = sint n" using assms by (simp add: signed_take_bit_int_eq_self)
  ultimately show ?thesis by (simp add: signed_word_eqI)
qed

text \<open>What a receiver makes of a transmitted sample.\<close>

definition quantised :: "float32 \<Rightarrow> float32" where
  "quantised f = of_int (sint (sample_l24 f)) / 8388608"

lemma sample_at_l24:
  assumes "i < length xs"
  shows "sample_at 3 (concat (map l24_bytes xs)) i = quantised (xs ! i)"
proof -
  have "concat (map l24_bytes xs) ! (i * 3) = byte32 16 (sample_l24 (xs ! i))"
    "concat (map l24_bytes xs) ! (i * 3 + 1) = byte32 8 (sample_l24 (xs ! i))"
    "concat (map l24_bytes xs) ! (i * 3 + 2) = byte32 0 (sample_l24 (xs ! i))"
    using nth_concat_l24 [OF assms, of 0] nth_concat_l24 [OF assms, of 1] nth_concat_l24 [OF assms, of 2]
    by (simp_all add: l24_bytes_def)
  then show ?thesis
    unfolding sample_at_def quantised_def
    using l24_reassembled [OF sint_sample_l24(2), of "xs ! i"] by simp
qed

lemma rnd32_error_24:
  assumes "\<bar>x\<bar> \<le> 8388607"
  shows "\<bar>rnd32 x - x\<bar> \<le> 1"
proof -
  define t :: rat where "t = 2 powi (-149)"
  have "\<bar>rnd32 x - x\<bar> \<le> (\<bar>x\<bar> * 2 powi (1 - int 24) + t) / 2"
    unfolding t_def by (rule rnd_rel_error)
  also have "(2::rat) powi (1 - int 24) = 1 / 8388608"
    by (simp add: power_int_minus)
  finally have "\<bar>rnd32 x - x\<bar> \<le> (\<bar>x\<bar> * (1 / 8388608) + t) / 2" .
  moreover have "t \<le> 1"
    using powi_le_iff [of "-149" 0] unfolding t_def power_int_0_right by linarith
  moreover have "\<bar>x\<bar> * (1 / 8388608) \<le> 1" using assms by simp
  ultimately show ?thesis by (auto intro: order_trans)
qed

lemma quantised_error: "\<bar>quantised f - clamp f (-1) 1\<bar> \<le> 3 / 8388608"
proof -
  define c where "c = clamp f (-1) 1"
  define r where "r = rnd32 (c * 8388607)"
  define q where "q = quantised f"
  have c: "-1 \<le> c" "c \<le> 1" using clamp_bounds [of "-1" 1 f] by (simp_all add: c_def)
  then have "\<bar>c * 8388607\<bar> \<le> 8388607" by (simp add: abs_mult abs_le_iff)
  then have "\<bar>r - c * 8388607\<bar> \<le> 1" unfolding r_def by (rule rnd32_error_24)
  moreover have "\<bar>of_int (trunc r) - r\<bar> < 1" by (rule trunc_error)
  moreover have "of_int (trunc r) = q * 8388608" by (simp add: q_def quantised_def sint_sample_l24(1) r_def c_def)
  ultimately have "\<bar>q - c\<bar> \<le> 3 / 8388608" using c by (simp only: abs_le_iff abs_less_iff) linarith
  then show ?thesis by (simp only: q_def c_def)
qed

lemma rtp_header_fields:
  "length (rtp_header pt q ts ssrc) = 12"
  "is_rtp (rtp_header pt q ts ssrc @ payload) \<longleftrightarrow> payload \<noteq> []"
  "rtp_seq (rtp_header pt q ts ssrc @ payload) = q"
  "rtp_ts (rtp_header pt q ts ssrc @ payload) = ts"
  "rtp_payload (rtp_header pt q ts ssrc @ payload) = payload"
  by (simp_all add: rtp_header_def is_rtp_def rtp_seq_def rtp_ts_def rtp_payload_def be16_split be32_split)

section \<open>The invariant of the sender\<close>

abbreviation tx_frames :: "RtpSender \<Rightarrow> nat" where
  "tx_frames s \<equiv> frames_of_ptime (m_nPacketTimeUs s)"

definition packet_due :: "SendLocals \<Rightarrow> RtpSender \<Rightarrow> bool" where
  "packet_due l s \<longleftrightarrow>
     nDeadlineNs l = nStartNs l + nPacket l * of_int (m_nPacketTimeUs s) * 1000
     \<and> vPacket l = rtp_header (m_nPayloadType s) (nSeq l) (media_timestamp (nDeadlineNs l)) (m_nSsrc s)
         @ concat (map l24_bytes (vAudio l))"

definition tx_inv :: "SendLocals \<Rightarrow> RtpSender \<Rightarrow> bool" where
  "tx_inv l s \<longleftrightarrow> length (m_abLegEnabled s) = 2 \<and> length (m_vSockets s) \<le> 2 \<and> length (m_vLegs s) \<le> 2
     \<and> 125 \<le> m_nPacketTimeUs s \<and> length (vAudio l) = 2 * tx_frames s
     \<and> (tx_pc l = TxSpin \<longrightarrow> packet_due l s)"

lemma frames_pos: "125 \<le> us \<Longrightarrow> 6 \<le> frames_of_ptime us"
proof -
  assume "125 \<le> us"
  then have "48000 * 125 div 1000000 \<le> 48000 * us div 1000000" by (intro zdiv_mono1) simp_all
  then show ?thesis by (simp add: frames_of_ptime_def)
qed

lemma send_legs_eq:
  assumes "k + length socks \<le> length flags"
  shows "\<exists>n. send_legs e flags k socks = Some (n, filter (\<lambda>i. flags ! i) [k..<k + length socks])"
  using assms
proof (induction e flags k socks rule: send_legs.induct)
  case (2 e flags k sock socks)
  have "[k..<k + length (sock # socks)] = k # [Suc k..<Suc k + length socks]"
    using upt_conv_Cons [of k "k + length (sock # socks)"] by simp
  with 2 show ?case by (auto simp: rd_simps)
qed simp

lemma note_lateness_keeps [simp]:
  "tx_pc (fst (note_lateness t (l, s))) = tx_pc l" "nSeq (fst (note_lateness t (l, s))) = nSeq l"
  "nPacket (fst (note_lateness t (l, s))) = nPacket l" "nStartNs (fst (note_lateness t (l, s))) = nStartNs l"
  "vAudio (fst (note_lateness t (l, s))) = vAudio l"
  by (simp_all add: note_lateness_def Let_def)

lemma note_lateness_sender: "\<exists>a m. snd (note_lateness t (l, s)) = s\<lparr>m_nLateAvgNs := a, m_nLateMaxNs := m\<rparr>"
  by (cases s) (simp add: note_lateness_def Let_def)

lemma next_audio_length:
  "length a = 2 * tx_frames s \<Longrightarrow> next_audio c_sin pow a s = (ok, audio, src) \<Longrightarrow> length audio = 2 * tx_frames s"
  using source.fills by (auto simp: next_audio_def Let_def split: option.splits prod.splits)

lemma send_step_build:
  assumes "tx_inv l s" "tx_pc l = TxBuild" "next_audio c_sin pow (vAudio l) s = (ok, audio, src)"
  shows "\<exists>m. send_step c_sin pow powf e l s = Some
    (let l = l\<lparr>nDeadlineNs := nStartNs l + nPacket l * of_int (m_nPacketTimeUs s) * 1000\<rparr>;
         nAheadNs = sint (nDeadlineNs l) - sint (v_ptpNs e) in
     if 2000000000 < nAheadNs \<or> nAheadNs < -2000000000 then (l\<lparr>tx_pc := TxLoop, bNeedAnchor := True\<rparr>, s, [])
     else (l\<lparr>tx_pc := TxSpin, vAudio := audio,
             vPacket := rtp_header (m_nPayloadType s) (nSeq l) (media_timestamp (nDeadlineNs l)) (m_nSsrc s)
               @ concat (map l24_bytes audio)\<rparr>,
           s\<lparr>m_pSource := src, m_bEssenceOk := ok, tx_meters := m\<rparr>, []))"
proof -
  have len: "length audio = 2 * tx_frames s"
    using next_audio_length [OF _ assms(3)] assms(1) by (simp add: tx_inv_def)
  then obtain m where "Feed powf audio (tx_frames s) (tx_meters s) = Some m" by (simp add: Feed_eq)
  moreover have "encode_payload audio 0 (tx_frames s * 2) = Some (concat (map l24_bytes audio))"
    using len encode_payload_eq [of 0 "tx_frames s * 2" audio] by simp
  ultimately show ?thesis
    using assms(2,3) by (intro exI [of _ m]) (simp add: send_step_def Let_def)
qed

text \<open>What sending one packet changes.\<close>

definition sent_one :: "SendLocals \<Rightarrow> RtpSender \<Rightarrow> SendLocals \<Rightarrow> RtpSender \<Rightarrow> bool" where
  "sent_one l s l' s' \<longleftrightarrow> tx_pc l' = TxLoop \<and> nSeq l' = nSeq l + 1 \<and> nPacket l' = nPacket l + 1 \<and> nStartNs l' = nStartNs l
     \<and> vAudio l' = vAudio l \<and> m_nPacketsSent s' = m_nPacketsSent s + 1
     \<and> (\<exists>n p a m. s' = s\<lparr>m_nSendErrors := n, m_nPacketsSent := p, m_nLateAvgNs := a, m_nLateMaxNs := m\<rparr>)"

lemma send_step_spin:
  assumes "tx_inv l s" "tx_pc l = TxSpin"
    and "sint (nDeadlineNs l) - sint (v_ptpNs e) \<le> 0 \<or> 2 * spin_ns s < sint (nDeadlineNs l) - sint (v_ptpNs e)"
  shows "\<exists>l' s'. send_step c_sin pow powf e l s = Some (l', s',
     map (\<lambda>i. (i, vPacket l)) (filter (\<lambda>i. m_abLegEnabled s ! i) [0..<length (m_vSockets s)])) \<and> sent_one l s l' s'"
proof -
  obtain n where legs: "send_legs e (m_abLegEnabled s) 0 (m_vSockets s)
      = Some (n, filter (\<lambda>i. m_abLegEnabled s ! i) [0..<length (m_vSockets s)])"
    using send_legs_eq [of 0 "m_vSockets s" "m_abLegEnabled s" e] assms(1) by (auto simp: tx_inv_def)
  let ?s = "s\<lparr>m_nSendErrors := m_nSendErrors s + n, m_nPacketsSent := m_nPacketsSent s + 1\<rparr>"
  obtain a m where "snd (note_lateness (v_sentNs e) (l, ?s)) = ?s\<lparr>m_nLateAvgNs := a, m_nLateMaxNs := m\<rparr>"
    using note_lateness_sender by blast
  then obtain l1 where late: "note_lateness (v_sentNs e) (l, ?s) = (l1, ?s\<lparr>m_nLateAvgNs := a, m_nLateMaxNs := m\<rparr>)"
    by (metis prod.collapse)
  then have l1: "nSeq l1 = nSeq l" "nPacket l1 = nPacket l" "nStartNs l1 = nStartNs l" "vAudio l1 = vAudio l"
    using note_lateness_keeps(2-5) [of "v_sentNs e" l ?s] by simp_all
  have "send_step c_sin pow powf e l s = Some (l1\<lparr>tx_pc := TxLoop, nSeq := nSeq l1 + 1, nPacket := nPacket l1 + 1\<rparr>,
      ?s\<lparr>m_nLateAvgNs := a, m_nLateMaxNs := m\<rparr>,
      map (\<lambda>i. (i, vPacket l)) (filter (\<lambda>i. m_abLegEnabled s ! i) [0..<length (m_vSockets s)]))"
    using assms(2,3) by (simp add: send_step_def Let_def legs late) blast
  moreover have "sent_one l s (l1\<lparr>tx_pc := TxLoop, nSeq := nSeq l1 + 1, nPacket := nPacket l1 + 1\<rparr>)
      (?s\<lparr>m_nLateAvgNs := a, m_nLateMaxNs := m\<rparr>)"
    unfolding sent_one_def using l1 by simp blast
  ultimately show ?thesis by blast
qed

lemma send_step_inv:
  assumes "tx_inv l s"
  shows "\<exists>l' s' out. send_step c_sin pow powf e l s = Some (l', s', out) \<and> tx_inv l' s'"
proof (cases "tx_pc l")
  case TxBuild
  obtain ok audio src where a: "next_audio c_sin pow (vAudio l) s = (ok, audio, src)" by (metis prod_cases3)
  have len: "length audio = 2 * tx_frames s"
    using next_audio_length [OF _ a] assms by (simp add: tx_inv_def)
  show ?thesis
    using send_step_build [OF assms TxBuild a, of powf e] assms len
    by (auto simp: Let_def tx_inv_def packet_due_def)
next
  case TxSpin
  show ?thesis
  proof (cases "sint (nDeadlineNs l) - sint (v_ptpNs e) \<le> 0 \<or> 2 * spin_ns s < sint (nDeadlineNs l) - sint (v_ptpNs e)")
    case True
    then show ?thesis using send_step_spin [OF assms TxSpin True, of c_sin pow powf] assms
      by (auto simp: tx_inv_def sent_one_def)
  next
    case False
    then show ?thesis using TxSpin assms by (simp add: send_step_def Let_def)
  qed
qed (use assms in \<open>auto simp: send_step_def Let_def tx_inv_def\<close>)

lemma connect_legs_inv:
  "connect_legs c ip legs s = Some (ok, s') \<Longrightarrow> length (m_abLegEnabled s) = 2 \<Longrightarrow> length (m_vSockets s) \<le> 2
    \<Longrightarrow> length (m_abLegEnabled s') = 2 \<and> length (m_vSockets s') \<le> 2 \<and> m_vLegs s' = m_vLegs s
      \<and> m_nPacketTimeUs s' = m_nPacketTimeUs s"
proof (induction c ip legs s rule: connect_legs.induct)
  case (2 c ip leg legs s)
  then show ?case
    by (auto simp: Let_def wr_def bind_eq_Some_conv split: if_splits)
qed simp

lemma tx_Configure_inv:
  assumes "tx_inv l s" "length legs \<le> 2" "tx_Configure c ip r legs port pt us src s = Some (ok, s')"
  shows "tx_inv (send_start s') s'"
proof -
  have "length (m_abLegEnabled s') = 2 \<and> length (m_vSockets s') \<le> 2 \<and> length (m_vLegs s') \<le> 2 \<and> 125 \<le> m_nPacketTimeUs s'"
    using assms
    by (auto simp: tx_Configure_def tx_Stop_def Let_def tx_inv_def bind_eq_Some_conv
        split: option.splits if_splits dest!: connect_legs_inv)
  then show ?thesis by (simp add: tx_inv_def send_start_def mult.commute)
qed

inductive tx_reachable :: "SendLocals \<Rightarrow> RtpSender \<Rightarrow> bool" where
  fresh: "tx_reachable (send_start init_sender) init_sender"
| configure: "tx_reachable l s \<Longrightarrow> length legs \<le> 2 \<Longrightarrow> tx_Configure c ip r legs port pt us src s = Some (ok, s')
    \<Longrightarrow> tx_reachable (send_start s') s'"
| send: "tx_reachable l s \<Longrightarrow> send_step c_sin pow powf e l s = Some (l', s', out) \<Longrightarrow> tx_reachable l' s'"
| switch: "tx_reachable l s \<Longrightarrow> tx_reachable l (SetLegEnabled i b s)"
| stop: "tx_reachable l s \<Longrightarrow> tx_reachable l (tx_Stop s)"

lemma tx_reachable_inv: "tx_reachable l s \<Longrightarrow> tx_inv l s"
proof (induction rule: tx_reachable.induct)
  case fresh
  show ?case by (simp add: tx_inv_def init_sender_def send_start_def mult.commute)
next
  case (configure l s legs c ip r port pt us src ok s')
  then show ?case by (metis tx_Configure_inv)
next
  case (send l s c_sin pow powf e l' s' out)
  then show ?case using send_step_inv [of l s c_sin pow powf e] by auto
next
  case (switch l s i b)
  then show ?case by (simp add: SetLegEnabled_def tx_inv_def packet_due_def)
next
  case (stop l s)
  then show ?case by (simp add: tx_Stop_def tx_inv_def packet_due_def)
qed

section \<open>Timestamps\<close>

lemma media_timestamp_advance:
  assumes "us * 48 = 1000 * f" "unat start + k * us * 1000 < 2 ^ 64"
  shows "media_timestamp (start + of_nat (k * us * 1000)) = media_timestamp start + of_nat (k * f)"
proof -
  have "unat (start + of_nat (k * us * 1000)) = unat start + k * us * 1000"
  proof -
    have "start + of_nat (k * us * 1000) = of_nat (unat start + k * us * 1000)" by simp
    then show ?thesis using assms(2) by (simp only: unat_of_nat take_bit_eq_mod) simp
  qed
  moreover have "(unat start + k * us * 1000) * 48000 = unat start * 48000 + 1000000000 * (k * f)"
    using assms(1) by (simp add: algebra_simps)
  ultimately have "media_timestamp (start + of_nat (k * us * 1000))
      = of_nat ((unat start * 48000 + 1000000000 * (k * f)) div 1000000000)"
    by (simp only: media_timestamp_exact)
  moreover have "(x + 1000000000 * y) div 1000000000 = x div 1000000000 + y" for x y :: nat by simp
  ultimately show ?thesis by (simp only: media_timestamp_exact of_nat_add)
qed

section \<open>Properties\<close>



text \<open>
  C20. Continuous timestamps.  When the packet time is a whole number of samples, the timestamp of
  the packet due is the media clock of the anchor plus the samples of the packets before it, so
  that consecutive packets differ by exactly the frames they carry, also across the wrap of the
  32-bit timestamp and of the sequence number.
\<close>

theorem sender_timestamps:
  assumes "tx_reachable l s" "tx_pc l = TxSpin"
    and "m_nPacketTimeUs s * 48 = 1000 * int (frames_of_ptime (m_nPacketTimeUs s))"
    and "unat (nStartNs l) + unat (nPacket l) * nat (m_nPacketTimeUs s) * 1000 < 2 ^ 64"
  shows "rtp_ts (vPacket l)
    = media_timestamp (nStartNs l) + of_nat (unat (nPacket l) * frames_of_ptime (m_nPacketTimeUs s))"
proof -
  have due: "packet_due l s" and us: "125 \<le> m_nPacketTimeUs s"
    using tx_reachable_inv [OF assms(1)] assms(2) by (simp_all add: tx_inv_def)
  have "of_int (m_nPacketTimeUs s) = (of_nat (nat (m_nPacketTimeUs s)) :: u64)"
    using us by (metis of_nat_nat order.trans zero_le_numeral)
  then have "nDeadlineNs l = nStartNs l + of_nat (unat (nPacket l) * nat (m_nPacketTimeUs s) * 1000)"
    using due by (simp add: packet_due_def)
  moreover have "nat (m_nPacketTimeUs s) * 48 = 1000 * tx_frames s" using assms(3) us by linarith
  ultimately have "media_timestamp (nDeadlineNs l)
      = media_timestamp (nStartNs l) + of_nat (unat (nPacket l) * tx_frames s)"
    using media_timestamp_advance [OF _ assms(4)] by simp
  then show ?thesis using due by (simp add: packet_due_def rtp_header_fields)
qed

definition demo_tx_env :: send_env where
  "demo_tx_env = \<lparr>v_synced = True, v_ptpNs = 4000000000000, v_sentNs = 4000020000000, v_result = (\<lambda>i. 0)\<rparr>"

fun send_run :: "nat \<Rightarrow> send_env \<Rightarrow> SendLocals \<times> RtpSender \<Rightarrow> (SendLocals \<times> RtpSender) option" where
  "send_run 0 e ls = Some ls"
| "send_run (Suc n) e (l, s) = do {
     (l, s, out) \<leftarrow> send_step id (\<lambda>x y. 0) (\<lambda>x y. 0) e l s;
     send_run n e (l, s) }"

definition demo_sending :: "(SendLocals \<times> RtpSender) option" where
  "demo_sending = do {
     (ok, s) \<leftarrow> tx_Configure (\<lambda>leg port. 4) (\<lambda>i. ''192.168.1.5'') 7
       [\<lparr>tx_sInterface = ''eth0'', tx_sMulticast = ''239.0.0.1'', bEnabled = True\<rparr>] 5004 96 125
       (Some (MemorySource [1/2, -1/4] ''x'' True 0)) init_sender;
     send_run 3 demo_tx_env (send_start s, s) }"

lemma demo_sending_facts:
  "map_option (\<lambda>(l, s). (tx_pc l, m_nPacketTimeUs s, nStartNs l, nPacket l, vAudio l)) demo_sending
     = Some (TxSpin, 125, 4000020000000, 0, [1/2, -1/4, 1/2, -1/4, 1/2, -1/4, 1/2, -1/4, 1/2, -1/4, 1/2, -1/4])"
  by code_simp

lemma send_run_reachable:
  "tx_reachable l s \<Longrightarrow> send_run n e (l, s) = Some (l', s') \<Longrightarrow> tx_reachable l' s'"
  by (induction n arbitrary: l s) (auto simp: bind_eq_Some_conv intro: tx_reachable.send)

lemma demo_sending_reachable:
  assumes "demo_sending = Some (l, s)"
  shows "tx_reachable l s"
proof -
  obtain ok s0 where c: "tx_Configure (\<lambda>leg port. 4) (\<lambda>i. ''192.168.1.5'') 7
       [\<lparr>tx_sInterface = ''eth0'', tx_sMulticast = ''239.0.0.1'', bEnabled = True\<rparr>] 5004 96 125
       (Some (MemorySource [1/2, -1/4] ''x'' True 0)) init_sender = Some (ok, s0)"
    and r: "send_run 3 demo_tx_env (send_start s0, s0) = Some (l, s)"
    using assms unfolding demo_sending_def by (auto simp: bind_eq_Some_conv simp del: send_run.simps)
  show ?thesis using tx_reachable.configure [OF tx_reachable.fresh _ c] r by (auto dest: send_run_reachable)
qed

theorem sender_timestamps_witness:
  "\<exists>l s. demo_sending = Some (l, s) \<and> rtp_ts (vPacket l) = media_timestamp 4000020000000 + of_nat (unat (0::u64) * 6)"
proof -
  obtain l s where d: "demo_sending = Some (l, s)" "tx_pc l = TxSpin" "m_nPacketTimeUs s = 125"
    "nStartNs l = 4000020000000" "nPacket l = 0"
    using demo_sending_facts by auto
  have "frames_of_ptime 125 = 6" by (simp add: frames_of_ptime_def)
  with sender_timestamps [OF demo_sending_reachable [OF d(1)] d(2)] d show ?thesis by auto
qed

text \<open>
  A packet time that is not a whole number of samples breaks the stream: with the 333
  microseconds of AES67 a packet carries 15 frames, but the timestamps of a thousand packets
  advance by 15984 samples, so 984 of them are announced and never sent.
\<close>

theorem fractional_packet_time:
  assumes "unat start < 2 ^ 63"
  shows "frames_of_ptime 333 * 1000 = 15000
    \<and> media_timestamp (start + 1000 * 333 * 1000) = media_timestamp start + 15984"
proof -
  have "unat (start + 333000000) = unat start + 333000000"
  proof -
    have "start + 333000000 = of_nat (unat start + 333000000)" by simp
    then show ?thesis using assms by (simp only: unat_of_nat take_bit_eq_mod) simp
  qed
  moreover have "(x + 333000000) * 48000 div 1000000000 = x * 48000 div 1000000000 + 15984" for x :: nat
    by (simp add: add_mult_distrib)
  ultimately have "media_timestamp (start + 333000000) = media_timestamp start + 15984"
    by (simp only: media_timestamp_exact of_nat_add) simp
  then show ?thesis by (simp add: frames_of_ptime_def)
qed

theorem fractional_packet_time_witness:
  "frames_of_ptime 333 * 1000 = 15000
    \<and> media_timestamp (4000020000000 + 1000 * 333 * 1000) = media_timestamp 4000020000000 + 15984"
  by (rule fractional_packet_time) simp

text \<open>
  The session description offers exactly the enabled legs, in order, each with its group,
  port and source address; they are named PRI and SEC when both are enabled and carry no name
  otherwise.
\<close>

theorem DescribeSession_legs:
  assumes "tx_reachable l s" "m_vLegs s = [a, b]"
  shows "\<exists>ses. DescribeSession sLabel sGm s = Some ses \<and>
    map (\<lambda>leg. (sMid leg, sMulticast leg, nPort leg)) (vLegs ses) =
      (let en = (m_abLegEnabled s ! 0, m_abLegEnabled s ! 1) in
       if en = (True, True) then [(''PRI'', tx_sMulticast a, m_nPort s), (''SEC'', tx_sMulticast b, m_nPort s)]
       else if en = (True, False) then [([], tx_sMulticast a, m_nPort s)]
       else if en = (False, True) then [([], tx_sMulticast b, m_nPort s)]
       else [])
    \<and> nPtpDomain ses = 0 \<and> sPtpGrandmaster ses = sGm"
proof -
  have len: "length (m_abLegEnabled s) = 2" using tx_reachable_inv [OF assms(1)] by (simp add: tx_inv_def)
  then have "rd (m_abLegEnabled s) 0 = Some (m_abLegEnabled s ! 0)" "rd (m_abLegEnabled s) (Suc 0) = Some (m_abLegEnabled s ! 1)"
    by (simp_all add: rd_simps)
  then show ?thesis
    using assms(2)
    by (cases "m_abLegEnabled s ! 0"; cases "m_abLegEnabled s ! 1")
      (simp_all add: DescribeSession_def Let_def default_session_def upt_rec)
qed

definition demo_leg :: "string \<Rightarrow> bool \<Rightarrow> Leg" where
  "demo_leg m b = \<lparr>tx_sInterface = ''eth0'', tx_sMulticast = m, bEnabled = b\<rparr>"

theorem DescribeSession_legs_witness:
  "\<exists>s ses. tx_Configure (\<lambda>leg port. 4) (\<lambda>i. ''192.168.1.5'') 7 [demo_leg ''239.0.0.1'' False, demo_leg ''239.0.0.2'' True]
       5004 96 1000 (Some (SweepSource 1 0 0)) init_sender = Some (True, s)
    \<and> DescribeSession ''Studio'' ''00:11'' s = Some ses
    \<and> map (\<lambda>leg. (sMid leg, sMulticast leg, nPort leg)) (vLegs ses) = [([], ''239.0.0.2'', 5004)]"
proof -
  define s where "s = the (map_option snd (tx_Configure (\<lambda>leg port. 4) (\<lambda>i. ''192.168.1.5'') 7
      [demo_leg ''239.0.0.1'' False, demo_leg ''239.0.0.2'' True] 5004 96 1000 (Some (SweepSource 1 0 0)) init_sender))"
  have c: "tx_Configure (\<lambda>leg port. 4) (\<lambda>i. ''192.168.1.5'') 7 [demo_leg ''239.0.0.1'' False, demo_leg ''239.0.0.2'' True]
       5004 96 1000 (Some (SweepSource 1 0 0)) init_sender = Some (True, s)"
    and f: "m_vLegs s = [demo_leg ''239.0.0.1'' False, demo_leg ''239.0.0.2'' True]" "m_abLegEnabled s = [False, True]"
      "m_nPort s = 5004"
    by (simp_all add: s_def tx_Configure_def tx_Stop_def init_sender_def wr_def demo_leg_def)
  have "tx_reachable (send_start s) s" using tx_reachable.configure [OF tx_reachable.fresh _ c] by simp
  from DescribeSession_legs [OF this f(1), of "''Studio''" "''00:11''"] c f show ?thesis
    by (auto simp: demo_leg_def)
qed

section \<open>From the sender to the receiver\<close>

lemma concat_pairs: "length xs = 2 * n \<Longrightarrow> concat (map (\<lambda>f. [g (xs ! (f * 2)), g (xs ! (f * 2 + 1))]) [0..<n]) = map g xs"
proof (induction n arbitrary: xs)
  case (Suc n)
  then obtain a b ys where xs: "xs = a # b # ys" "length ys = 2 * n"
    by (auto simp: length_Suc_conv)
  have "[0..<Suc n] = 0 # map Suc [0..<n]" by (simp add: map_Suc_upt upt_conv_Cons del: upt_Suc)
  then show ?case using Suc.IH [OF xs(2)] by (simp add: xs(1) comp_def del: upt_Suc)
qed simp

lemma packet_audio_l24:
  assumes "bytes_per_sample (m_session r) = 3" "channel_count (m_session r) = 2" "m_nMonLeft r = -1" "m_nMonRight r = -1"
    and "rtp_payload p = concat (map l24_bytes xs)" "length xs = 2 * n"
  shows "packet_audio r p = map quantised xs" and "packet_frames (m_session r) p = n"
proof -
  show n: "packet_frames (m_session r) p = n" using assms by (simp add: packet_frames_def)
  have "map (\<lambda>f. [sample_at 3 (rtp_payload p) (f * 2), sample_at 3 (rtp_payload p) (f * 2 + 1)]) [0..<n]
      = map (\<lambda>f. [quantised (xs ! (f * 2)), quantised (xs ! (f * 2 + 1))]) [0..<n]"
    using sample_at_l24 [of _ xs] assms(6) unfolding assms(5) by auto
  then have "concat (map (\<lambda>f. [sample_at 3 (rtp_payload p) (f * 2), sample_at 3 (rtp_payload p) (f * 2 + 1)]) [0..<n])
      = map quantised xs"
    using concat_pairs [OF assms(6), of quantised] by (simp only:)
  then show "packet_audio r p = map quantised xs"
    using n assms(1-4) by (simp add: packet_audio_def monitor_pair_def Let_def)
qed

text \<open>
  C4. Transmission.  A packet that the sender has built, received on any leg by a receiver of a
  stereo L24 session that does not hold it yet, is buffered under the sender's sequence number and
  holds the sender's audio, sample by sample within three steps of the 24-bit resolution of the
  clipped original.
\<close>

theorem transmission:
  assumes "tx_reachable l s" "tx_pc l = TxSpin" "rx_reachable p r" "nLeg < 2"
    and "nBitsPerSample (m_session r) = 24" "nChannels (m_session r) = 2" "m_nMonLeft r = -1" "m_nMonRight r = -1"
    and "\<not> buffered r (nSeq l)"
  shows "\<exists>r'. HandlePacket nLeg (vPacket l) now r = Some r' \<and> holds r' (nSeq l) (map quantised (vAudio l))
    \<and> (\<forall>x \<in> set (vAudio l). \<bar>quantised x - clamp x (-1) 1\<bar> \<le> 3 / 8388608)"
proof -
  have inv: "rx_inv r" using assms(3) by (rule rx_reachable_inv)
  have tx: "tx_inv l s" using assms(1) by (rule tx_reachable_inv)
  then have due: "packet_due l s" and len: "length (vAudio l) = 2 * tx_frames s" and "6 \<le> tx_frames s"
    using assms(2) frames_pos by (simp_all add: tx_inv_def)
  then have ne: "concat (map l24_bytes (vAudio l)) \<noteq> []"
    by (cases "vAudio l") (simp_all add: l24_bytes_def)
  have pkt: "is_rtp (vPacket l)" "rtp_seq (vPacket l) = nSeq l" "rtp_payload (vPacket l) = concat (map l24_bytes (vAudio l))"
    using due ne by (simp_all add: packet_due_def rtp_header_fields)
  have ses: "bytes_per_sample (m_session r) = 3" "channel_count (m_session r) = 2"
    using assms(5,6) by (simp_all add: bytes_per_sample_def channel_count_def)
  note A = packet_audio_l24 [OF ses assms(7,8) pkt(3) len]
  obtain r' where r': "HandlePacket nLeg (vPacket l) now r = Some r'"
    using HandlePacket_inv [OF inv _ assms(4)] pkt(1) by (auto simp: is_rtp_def)
  have "0 < packet_frames (m_session r) (vPacket l)" using A(2) \<open>6 \<le> tx_frames s\<close> by simp
  from HandlePacket_merge(5) [OF inv assms(4) pkt(1) this r'] assms(9)
  have "holds r' (nSeq l) (map quantised (vAudio l))"
    using inv by (simp add: holds_def store_slot_def A(1) pkt(2) rx_inv_def jitter_ok_def)
  then show ?thesis using r' quantised_error by blast
qed

theorem transmission_witness:
  "\<exists>l s r'. demo_sending = Some (l, s) \<and> HandlePacket 0 (vPacket l) 0 init_receiver = Some r'
    \<and> holds r' (nSeq l) (map quantised (vAudio l))
    \<and> (\<forall>x \<in> set (vAudio l). \<bar>quantised x - clamp x (-1) 1\<bar> \<le> 3 / 8388608)"
proof -
  obtain l s where d: "demo_sending = Some (l, s)" "tx_pc l = TxSpin" using demo_sending_facts by auto
  have "\<not> buffered init_receiver q" for q
    using generation_nonzero [of q] by (simp add: buffered_def init_receiver_slot init_slot_def)
  then show ?thesis
    using transmission [OF demo_sending_reachable [OF d(1)] d(2) rx_reachable.fresh, of 0 0] d(1)
    by (auto simp: init_receiver_def default_session_def)
qed

end
