(* ===== verification/Connection.thy ===== *)
theory Connection
  imports Config Rtp_Sender
begin

text \<open>
  The IS-05 connection API, \<^verbatim>\<open>src/src/nmos/connection.cpp\<close>: a staged and an active document for the
  sender and for the receiver, changed by PATCH requests and made active by an immediate
  activation.  A handler runs under the lock of the API.  It may throw, and then what it changed
  before remains; so an operation maps a state to an outcome and the state it leaves.

  The state holds the four documents and what the handlers reach through the node: the
  configuration with the files written, the stream sender and the resource version.  The record is
  extensible; the two callbacks are arguments and may change the rest of it.
\<close>

section \<open>Operations that may throw\<close>

type_synonym ('s, 'a) act = "'s \<Rightarrow> 'a outcome \<times> 's"

definition returnS :: "'a \<Rightarrow> ('s, 'a) act" where
  "returnS x = (\<lambda>s. (Val x, s))"

definition evalS :: "'a outcome \<Rightarrow> ('s, 'a) act" where
  "evalS m = (\<lambda>s. (m, s))"

definition modifyS :: "('s \<Rightarrow> 's) \<Rightarrow> ('s, unit) act" where
  "modifyS f = (\<lambda>s. (Val (), f s))"

definition bindS :: "('s, 'a) act \<Rightarrow> ('a \<Rightarrow> ('s, 'b) act) \<Rightarrow> ('s, 'b) act" where
  "bindS m f = (\<lambda>s. case m s of (Val x, s') \<Rightarrow> f x s' | (Throw, s') \<Rightarrow> (Throw, s') | (Undef, s') \<Rightarrow> (Undef, s'))"

definition thenS :: "('s, unit) act \<Rightarrow> ('s, 'b) act \<Rightarrow> ('s, 'b) act" where
  "thenS m n = bindS m (\<lambda>_. n)"

definition whenS :: "bool \<Rightarrow> ('s, unit) act \<Rightarrow> ('s, unit) act" where
  "whenS b m = (if b then m else returnS ())"

section \<open>State\<close>

record ConnectionApi =
  cfg :: Config
  written :: "(string \<times> json) list"
  sender :: RtpSender
  m_nVersion :: u64
  m_jsSenderStaged :: json
  m_jsSenderActive :: json
  m_jsReceiverStaged :: json
  m_jsReceiverActive :: json

definition activation_none :: json where
  "activation_none = obj [(''mode'', JNull), (''requested_time'', JNull), (''activation_time'', JNull)]"

definition sender_leg :: json where
  "sender_leg = obj [(''source_ip'', JNull), (''destination_ip'', JNull), (''destination_port'', JInt 5004), (''rtp_enabled'', JBool True)]"

definition receiver_leg :: json where
  "receiver_leg = obj [(''source_ip'', JNull), (''interface_ip'', JStr ''auto''), (''destination_port'', JInt 5004),
     (''multicast_ip'', JNull), (''rtp_enabled'', JBool True)]"

definition sender_document :: json where
  "sender_document = obj [(''master_enable'', JBool False), (''receiver_id'', JNull), (''activation'', activation_none),
     (''transport_params'', JArr [sender_leg, sender_leg])]"

definition receiver_document :: json where
  "receiver_document = obj [(''master_enable'', JBool False), (''sender_id'', JNull),
     (''transport_file'', obj [(''data'', JNull), (''type'', JNull)]), (''activation'', activation_none),
     (''transport_params'', JArr [receiver_leg, receiver_leg])]"

definition init_connection :: "Config \<Rightarrow> RtpSender \<Rightarrow> ConnectionApi" where
  "init_connection c tx = \<lparr>cfg = c, written = [], sender = tx, m_nVersion = 0,
     m_jsSenderStaged = sender_document, m_jsSenderActive = sender_document,
     m_jsReceiverStaged = receiver_document, m_jsReceiverActive = receiver_document\<rparr>"

section \<open>Documents\<close>

text \<open>
  Assignment to a member of a document that is an object, and the legs of a document.  In every
  reachable state the documents are objects whose transport parameters are an array of objects
  (\<open>conn_inv\<close> below), so the other cases do not arise.
\<close>

definition put :: "string \<Rightarrow> json \<Rightarrow> json \<Rightarrow> json" where
  "put key v js = (case jput key v js of Val js' \<Rightarrow> js' | _ \<Rightarrow> js)"

definition legs_of :: "json \<Rightarrow> json list" where
  "legs_of js = (case jfind ''transport_params'' js of Some (JArr xs) \<Rightarrow> xs | _ \<Rightarrow> [])"

definition set_legs :: "json list \<Rightarrow> json \<Rightarrow> json" where
  "set_legs legs js = put ''transport_params'' (JArr legs) js"

definition null_member :: "string \<Rightarrow> json \<Rightarrow> json" where
  "null_member key js = (case jfind key js of Some v \<Rightarrow> v | None \<Rightarrow> JNull)"

text \<open>The staging part of a PATCH: \<open>stage_keys\<close> copies members, \<open>stage_legs\<close> merges the legs.\<close>

definition stage_keys :: "string list \<Rightarrow> json \<Rightarrow> json \<Rightarrow> json" where
  "stage_keys keys jsPatch js =
     fold (\<lambda>key js. case jfind key jsPatch of Some v \<Rightarrow> put key v js | None \<Rightarrow> js) keys js"

definition merge_items :: "(string \<times> json) list \<Rightarrow> json \<Rightarrow> json" where
  "merge_items items js = fold (\<lambda>(key, v) js. put key v js) items js"

fun merge_legs :: "json list \<Rightarrow> json list \<Rightarrow> json list" where
  "merge_legs (p # ps) (leg # legs) = merge_items (jitems p) leg # merge_legs ps legs"
| "merge_legs ps legs = legs"

definition stage_legs :: "json \<Rightarrow> json \<Rightarrow> json" where
  "stage_legs jsPatch js =
    (case jfind ''transport_params'' jsPatch of Some (JArr ps) \<Rightarrow> set_legs (merge_legs ps (legs_of js)) js | _ \<Rightarrow> js)"

definition stage_file :: "json \<Rightarrow> json \<Rightarrow> json" where
  "stage_file jsPatch js =
    (case jfind ''transport_file'' jsPatch of
       Some (JObj ms) \<Rightarrow> put ''transport_file'' (merge_items ms (null_member ''transport_file'' js)) js
     | _ \<Rightarrow> js)"

definition wants_activation :: "json \<Rightarrow> bool outcome" where
  "wants_activation jsPatch =
    (case jfind ''activation'' jsPatch of
       Some a \<Rightarrow> bindO (jvalue get_string ''mode'' [] a) (\<lambda>mode. Val (mode = ''activate_immediate''))
     | None \<Rightarrow> Val False)"

definition ActivationDone :: "nat \<Rightarrow> json" where
  "ActivationDone nNow = obj [(''mode'', JNull), (''requested_time'', JNull),
     (''activation_time'', JStr (nat_str (nNow div 1000000000) @ '':'' @ nat_str (nNow mod 1000000000)))]"

definition BuildConstraints :: "nat \<Rightarrow> json" where
  "BuildConstraints nLegs = JArr (replicate nLegs (JObj []))"

definition ReceiverSenderId :: "'r ConnectionApi_scheme \<Rightarrow> json outcome" where
  "ReceiverSenderId s =
     bindO (jvalue get_bool ''master_enable'' False (m_jsReceiverActive s)) (\<lambda>b.
       if b then jvalue Val ''sender_id'' JNull (m_jsReceiverActive s) else Val JNull)"

section \<open>Sender\<close>

definition set_config :: "string \<Rightarrow> json \<Rightarrow> ('r ConnectionApi_scheme, unit) act" where
  "set_config sPath v s =
    (let (ok, c, w) = SetValue sPath v (cfg s);
         s = s\<lparr>cfg := c, written := written s @ (case w of Some f \<Rightarrow> [f] | None \<Rightarrow> [])\<rparr>
     in (if ok then Val () else Throw, s))"

definition destination_key :: "nat \<Rightarrow> string" where
  "destination_key i = (if i = 0 then ''sender.multicast_primary'' else ''sender.multicast_secondary'')"

definition enabled_key :: "nat \<Rightarrow> string" where
  "enabled_key i = (if i = 0 then ''sender.leg1_enabled'' else ''sender.leg2_enabled'')"

definition apply_destination :: "json list \<Rightarrow> nat \<Rightarrow> ('r ConnectionApi_scheme, unit) act" where
  "apply_destination legs i =
    (if i < length legs then
       bindS (evalS (jvalue Val ''destination_ip'' JNull (legs ! i))) (\<lambda>ip. whenS (is_string ip) (set_config (destination_key i) ip))
     else returnS ())"

definition apply_port :: "json list \<Rightarrow> ('r ConnectionApi_scheme, unit) act" where
  "apply_port legs =
    (if 0 < length legs \<and> is_number (null_member ''destination_port'' (legs ! 0)) then
       bindS (evalS (get_int (null_member ''destination_port'' (legs ! 0)))) (\<lambda>n. set_config ''sender.port'' (JInt n))
     else returnS ())"

definition apply_enabled :: "json list \<Rightarrow> nat \<Rightarrow> ('r ConnectionApi_scheme, unit) act" where
  "apply_enabled legs i =
    (if i < length legs then
       case jfind ''rtp_enabled'' (legs ! i) of
         Some (JBool b) \<Rightarrow>
           thenS (set_config (enabled_key i) (JBool b)) (modifyS (\<lambda>s. s\<lparr>sender := SetLegEnabled i b (sender s)\<rparr>))
       | _ \<Rightarrow> returnS ()
     else returnS ())"

text \<open>A loop over the legs of a document that changes each in place.\<close>

fun for_legs :: "(nat \<Rightarrow> (json, unit) act) \<Rightarrow> nat \<Rightarrow> (json list, unit) act" where
  "for_legs f i [] = (Val (), [])"
| "for_legs f i (leg # legs) =
    (case f i leg of
       (Val _, leg) \<Rightarrow> (let (r, legs) = for_legs f (Suc i) legs in (r, leg # legs))
     | (Throw, leg) \<Rightarrow> (Throw, leg # legs)
     | (Undef, leg) \<Rightarrow> (Undef, leg # legs))"

definition actual_sender_leg :: "string list \<Rightarrow> Config \<Rightarrow> nat \<Rightarrow> (json, unit) act" where
  "actual_sender_leg vIps c i =
     thenS (whenS (i < length vIps) (modifyS (put ''source_ip'' (JStr (vIps ! i)))))
       (\<lambda>leg. let ip = null_member ''destination_ip'' leg; leg = put ''destination_ip'' ip leg in
          whenS (\<not> is_string ip) (bindS (evalS (GetValue get_string (destination_key i) [] c)) (\<lambda>ip.
            modifyS (put ''destination_ip'' (JStr ip)))) leg)"

definition ActivateSender ::
  "nat \<Rightarrow> string list \<Rightarrow> (bool \<Rightarrow> ('r ConnectionApi_scheme, unit) act) \<Rightarrow> ('r ConnectionApi_scheme, unit) act" where
  "ActivateSender nNow vIps onSender s =
    (let legs = legs_of (m_jsSenderStaged s) in
     bindS (evalS (jvalue get_bool ''master_enable'' False (m_jsSenderStaged s))) (\<lambda>bEnable.
     thenS (apply_destination legs 0) (
     thenS (apply_destination legs 1) (
     thenS (apply_port legs) (
     thenS (apply_enabled legs 0) (
     thenS (apply_enabled legs 1) (
     thenS (modifyS (\<lambda>s. s\<lparr>m_jsSenderActive := put ''activation'' (ActivationDone nNow) (m_jsSenderStaged s),
                           m_jsSenderStaged := put ''activation'' activation_none (m_jsSenderStaged s)\<rparr>)) (
     thenS (\<lambda>s. let (r, legs) = for_legs (actual_sender_leg vIps (cfg s)) 0 (legs_of (m_jsSenderActive s))
                 in (r, s\<lparr>m_jsSenderActive := set_legs legs (m_jsSenderActive s)\<rparr>)) (
     thenS (onSender bEnable) (
     modifyS (\<lambda>s. s\<lparr>m_nVersion := m_nVersion s + 1\<rparr>)))))))))) s)"

definition PatchSender ::
  "nat \<Rightarrow> string list \<Rightarrow> (bool \<Rightarrow> ('r ConnectionApi_scheme, unit) act) \<Rightarrow> json \<Rightarrow> ('r ConnectionApi_scheme, unit) act" where
  "PatchSender nNow vIps onSender jsPatch =
     thenS (modifyS (\<lambda>s. s\<lparr>m_jsSenderStaged :=
              stage_legs jsPatch (stage_keys [''master_enable'', ''receiver_id''] jsPatch (m_jsSenderStaged s))\<rparr>))
       (bindS (evalS (wants_activation jsPatch)) (\<lambda>b. whenS b (ActivateSender nNow vIps onSender)))"

text \<open>The active document as it is reported: with the state of the sender itself.\<close>

definition running_leg :: "RtpSender \<Rightarrow> nat \<Rightarrow> json \<Rightarrow> json" where
  "running_leg tx i leg =
     put ''rtp_enabled'' (JBool (LegEnabled i tx))
       (put ''destination_port'' (JInt (uint (m_nPort tx)))
         (put ''destination_ip'' (JStr (tx_sMulticast (m_vLegs tx ! i)))
           (put ''source_ip'' (if i < length (m_vSourceIps tx) then JStr (m_vSourceIps tx ! i) else JNull) leg)))"

definition configured_leg :: "RtpSender \<Rightarrow> Config \<Rightarrow> nat \<Rightarrow> (json, unit) act" where
  "configured_leg tx c i =
     bindS (evalS (GetValue get_string (destination_key i) [] c)) (\<lambda>ip. thenS (modifyS (put ''destination_ip'' (JStr ip)))
       (bindS (evalS (GetValue get_int ''sender.port'' 5004 c)) (\<lambda>port. thenS (modifyS (put ''destination_port'' (JInt port)))
         (modifyS (put ''rtp_enabled'' (JBool (tx_bRun tx)))))))"

definition SenderActiveNow :: "'r ConnectionApi_scheme \<Rightarrow> json outcome" where
  "SenderActiveNow s =
    (let tx = sender s; js = put ''master_enable'' (JBool (tx_bRun tx)) (m_jsSenderActive s) in
     let (r, legs) = for_legs (\<lambda>i. if tx_bRun tx \<and> i < length (m_vLegs tx) then modifyS (running_leg tx i)
                                   else configured_leg tx (cfg s) i) 0 (legs_of js)
     in bindO r (\<lambda>_. Val (set_legs legs js)))"

section \<open>Receiver\<close>

definition actual_receiver_leg :: "string list \<Rightarrow> nat \<Rightarrow> (json, unit) act" where
  "actual_receiver_leg vIps i leg =
     bindS (evalS (jvalue get_string ''interface_ip'' ''auto'' leg)) (\<lambda>ip.
       whenS (ip = ''auto'' \<and> i < length vIps) (modifyS (put ''interface_ip'' (JStr (vIps ! i))))) leg"

fun manual_legs :: "json list \<Rightarrow> SdpLeg list outcome" where
  "manual_legs [] = Val []"
| "manual_legs (leg # legs) =
     bindO (jvalue get_bool ''rtp_enabled'' True leg) (\<lambda>b.
       bindO (if b then jvalue Val ''multicast_ip'' JNull leg else Val JNull) (\<lambda>ip.
         bindO (if is_string ip then bindO (get_string ip) (\<lambda>ip. bindO (jvalue get_int ''destination_port'' 5004 leg) (\<lambda>port.
                  Val [\<lparr>sMid = [], sMulticast = ip, sSourceFilter = [], nPort = word_of_int port\<rparr>])) else Val []) (\<lambda>here.
           bindO (manual_legs legs) (\<lambda>rest. Val (here @ rest)))))"

definition receiver_session :: "bool \<Rightarrow> json \<Rightarrow> SdpSession option outcome" where
  "receiver_session bEnable js =
    (if \<not> bEnable then Val None
     else bindO (jvalue Val ''data'' JNull (null_member ''transport_file'' js)) (\<lambda>d.
       if is_string d then bindO (get_string d) ParseSdp
       else bindO (manual_legs (legs_of js)) (\<lambda>legs.
         Val (if legs = [] then None else Some (default_session\<lparr>sName := ''is-05 parameters'', vLegs := legs\<rparr>)))))"

definition ActivateReceiver ::
  "nat \<Rightarrow> string list \<Rightarrow> (bool \<Rightarrow> SdpSession option \<Rightarrow> ('r ConnectionApi_scheme, unit) act) \<Rightarrow> ('r ConnectionApi_scheme, unit) act" where
  "ActivateReceiver nNow vIps onReceiver s =
    (bindS (evalS (jvalue get_bool ''master_enable'' False (m_jsReceiverStaged s))) (\<lambda>bEnable.
     thenS (modifyS (\<lambda>s. s\<lparr>m_jsReceiverActive := put ''activation'' (ActivationDone nNow) (m_jsReceiverStaged s),
                           m_jsReceiverStaged := put ''activation'' activation_none (m_jsReceiverStaged s)\<rparr>)) (
     thenS (\<lambda>s. let (r, legs) = for_legs (actual_receiver_leg vIps) 0 (legs_of (m_jsReceiverActive s))
                 in (r, s\<lparr>m_jsReceiverActive := set_legs legs (m_jsReceiverActive s)\<rparr>)) (
     bindS (\<lambda>s. (receiver_session bEnable (m_jsReceiverActive s), s)) (\<lambda>ses.
     thenS (onReceiver bEnable ses) (
     modifyS (\<lambda>s. s\<lparr>m_nVersion := m_nVersion s + 1\<rparr>))))))) s"

definition PatchReceiver ::
  "nat \<Rightarrow> string list \<Rightarrow> (bool \<Rightarrow> SdpSession option \<Rightarrow> ('r ConnectionApi_scheme, unit) act) \<Rightarrow> json \<Rightarrow> ('r ConnectionApi_scheme, unit) act" where
  "PatchReceiver nNow vIps onReceiver jsPatch =
     thenS (modifyS (\<lambda>s. s\<lparr>m_jsReceiverStaged :=
              stage_legs jsPatch (stage_file jsPatch (stage_keys [''master_enable'', ''sender_id''] jsPatch (m_jsReceiverStaged s)))\<rparr>))
       (bindS (evalS (wants_activation jsPatch)) (\<lambda>b. whenS b (ActivateReceiver nNow vIps onReceiver)))"

section \<open>Requests\<close>

datatype response = Reply_Json int json | Reply_Text int string string

definition strings :: "string list \<Rightarrow> json" where
  "strings xs = JArr (map JStr xs)"

definition error_reply :: "int \<Rightarrow> string \<Rightarrow> response" where
  "error_reply n msg = Reply_Json n (obj [(''code'', JInt n), (''error'', JStr msg)])"

text \<open>
  \<open>body\<close> is the parsed request body, \<open>None\<close> for a syntax error; \<open>what\<close> is the text of the exception.
  The session description of the sender is \<open>DescribeSession\<close> with the label and the grandmaster.
\<close>

record conn_env =
  e_senderId :: string
  e_receiverId :: string
  e_ips :: "string list"
  e_now :: nat
  e_label :: string
  e_gm :: string
  e_what :: string

definition patch_reply :: "('s \<Rightarrow> json) \<Rightarrow> string \<Rightarrow> json option \<Rightarrow> (json \<Rightarrow> ('s, unit) act) \<Rightarrow> ('s, response) act" where
  "patch_reply staged what body patch s =
    (let (r, s) = (case body of None \<Rightarrow> (Throw, s) | Some js \<Rightarrow> patch js s)
     in (catchO (bindO r (\<lambda>_. Val (Reply_Json 200 (staged s)))) (error_reply 400 what), s))"

definition transport_file :: "conn_env \<Rightarrow> RtpSender \<Rightarrow> response outcome" where
  "transport_file e tx =
    (case DescribeSession (e_label e) (e_gm e) tx of
       None \<Rightarrow> Undef
     | Some ses \<Rightarrow>
         if vLegs ses = [] then Val (error_reply 404 ''sender not configured'')
         else let ips = m_vSourceIps tx in
           Val (Reply_Text 200 ''application/sdp'' (GenerateSdp (e_now e div 1000000000) ses (if ips = [] then ''0.0.0.0'' else ips ! 0) ips)))"

definition strip_slash :: "string \<Rightarrow> string" where
  "strip_slash s = (if s \<noteq> [] \<and> last s = CHR ''/'' then butlast s else s)"

definition Handle ::
  "conn_env \<Rightarrow> (bool \<Rightarrow> ('r ConnectionApi_scheme, unit) act) \<Rightarrow> (bool \<Rightarrow> SdpSession option \<Rightarrow> ('r ConnectionApi_scheme, unit) act)
    \<Rightarrow> string \<Rightarrow> string \<Rightarrow> json option \<Rightarrow> ('r ConnectionApi_scheme, response) act" where
  "Handle e onSender onReceiver sUri sMethod body s =
    (let sUri = strip_slash sUri;
         sBase = ''/x-nmos/connection/v1.1/single'';
         sSender = sBase @ ''/senders/'' @ e_senderId e;
         sReceiver = sBase @ ''/receivers/'' @ e_receiverId e;
         reply = (\<lambda>js. (Val (Reply_Json 200 js), s))
     in if sUri = ''/x-nmos/connection'' then reply (strings [''v1.1/''])
        else if sUri = ''/x-nmos/connection/v1.1'' then reply (strings [''bulk/'', ''single/''])
        else if sUri = sBase then reply (strings [''senders/'', ''receivers/''])
        else if sUri = sBase @ ''/senders'' then reply (strings [e_senderId e @ ''/''])
        else if sUri = sBase @ ''/receivers'' then reply (strings [e_receiverId e @ ''/''])
        else if sUri = sSender then reply (strings [''constraints/'', ''staged/'', ''active/'', ''transporttype/'', ''transportfile/''])
        else if sUri = sSender @ ''/constraints'' then reply (BuildConstraints (length (legs_of (m_jsSenderStaged s))))
        else if sUri = sSender @ ''/transporttype'' then reply (JStr ''urn:x-nmos:transport:rtp.mcast'')
        else if sUri = sSender @ ''/active'' then (bindO (SenderActiveNow s) (\<lambda>js. Val (Reply_Json 200 js)), s)
        else if sUri = sSender @ ''/transportfile'' then (transport_file e (sender s), s)
        else if sUri = sSender @ ''/staged'' then
          (if sMethod = ''PATCH'' then patch_reply m_jsSenderStaged (e_what e) body (PatchSender (e_now e) (e_ips e) onSender) s
           else reply (m_jsSenderStaged s))
        else if sUri = sReceiver then reply (strings [''constraints/'', ''staged/'', ''active/'', ''transporttype/''])
        else if sUri = sReceiver @ ''/constraints'' then reply (BuildConstraints (length (legs_of (m_jsReceiverStaged s))))
        else if sUri = sReceiver @ ''/transporttype'' then reply (JStr ''urn:x-nmos:transport:rtp.mcast'')
        else if sUri = sReceiver @ ''/active'' then reply (m_jsReceiverActive s)
        else if sUri = sReceiver @ ''/staged'' then
          (if sMethod = ''PATCH'' then patch_reply m_jsReceiverStaged (e_what e) body (PatchReceiver (e_now e) (e_ips e) onReceiver) s
           else reply (m_jsReceiverStaged s))
        else (Val (error_reply 404 ''not found''), s))"

section \<open>Well-formed documents\<close>

lemmas act_simps = returnS_def evalS_def modifyS_def bindS_def thenS_def whenS_def

definition doc_ok :: "json \<Rightarrow> bool" where
  "doc_ok js \<longleftrightarrow> is_object js \<and> json_ok js
     \<and> (\<exists>a b. jfind ''transport_params'' js = Some (JArr [a, b]) \<and> is_object a \<and> is_object b)"

definition file_ok :: "json \<Rightarrow> bool" where
  "file_ok js \<longleftrightarrow> is_object (null_member ''transport_file'' js)"

definition conn_inv :: "'r ConnectionApi_scheme \<Rightarrow> bool" where
  "conn_inv s \<longleftrightarrow> doc_ok (m_jsSenderStaged s) \<and> doc_ok (m_jsSenderActive s) \<and> doc_ok (m_jsReceiverStaged s) \<and> doc_ok (m_jsReceiverActive s)
     \<and> file_ok (m_jsReceiverStaged s) \<and> file_ok (m_jsReceiverActive s)"

lemma put_object:
  assumes "is_object js"
  shows "is_object (put k v js)" "json_ok js \<Longrightarrow> json_ok v \<Longrightarrow> json_ok (put k v js)"
    "json_ok js \<Longrightarrow> jfind k' (put k v js) = (if k' = k then Some v else jfind k' js)"
proof -
  obtain m where js: "js = JObj m" using assms by (auto simp: is_object_iff)
  have eq: "jput k v js = Val (put k v js)" by (simp add: js jput_def put_def)
  show "is_object (put k v js)" by (simp add: js put_def jput_def)
  show "json_ok js \<Longrightarrow> json_ok v \<Longrightarrow> json_ok (put k v js)" using jput_ok [OF _ _ eq] .
  show "json_ok js \<Longrightarrow> jfind k' (put k v js) = (if k' = k then Some v else jfind k' js)" using jfind_jput [OF _ eq] .
qed

lemma merge_items_object:
  "is_object js \<Longrightarrow> is_object (merge_items items js)"
  "is_object js \<Longrightarrow> json_ok js \<Longrightarrow> \<forall>(k, v) \<in> set items. json_ok v \<Longrightarrow> json_ok (merge_items items js)"
  unfolding merge_items_def by (induction items arbitrary: js) (auto simp: put_object)

lemma jitems_ok: "json_ok js \<Longrightarrow> \<forall>(k, v) \<in> set (jitems js). json_ok v"
  by (cases js) (auto simp: jitems_def dest: set_zip_rightD)

lemma merge_legs_ok:
  "\<forall>p \<in> set ps. json_ok p \<Longrightarrow> \<forall>leg \<in> set legs. is_object leg \<and> json_ok leg
    \<Longrightarrow> length (merge_legs ps legs) = length legs \<and> (\<forall>leg \<in> set (merge_legs ps legs). is_object leg \<and> json_ok leg)"
  by (induction ps legs rule: merge_legs.induct) (auto simp: merge_items_object jitems_ok)

lemma doc_ok_legs:
  assumes "doc_ok js"
  obtains a b where "legs_of js = [a, b]" "is_object a" "is_object b" "json_ok a" "json_ok b"
proof -
  obtain a b where ab: "jfind ''transport_params'' js = Some (JArr [a, b])" "is_object a" "is_object b" "json_ok js"
    using assms by (auto simp: doc_ok_def)
  moreover have "json_ok (JArr [a, b])" using jfind_ok [OF ab(4,1)] .
  ultimately show ?thesis using that by (simp add: legs_of_def)
qed

lemma doc_ok_put: "doc_ok js \<Longrightarrow> json_ok v \<Longrightarrow> k \<noteq> ''transport_params'' \<Longrightarrow> doc_ok (put k v js)"
  by (auto simp: doc_ok_def put_object)

lemma doc_ok_set_legs:
  "doc_ok js \<Longrightarrow> length legs = 2 \<Longrightarrow> \<forall>leg \<in> set legs. is_object leg \<and> json_ok leg \<Longrightarrow> doc_ok (set_legs legs js)"
  by (cases legs; cases "tl legs") (auto simp: doc_ok_def set_legs_def put_object)

lemma legs_of_set_legs: "is_object js \<Longrightarrow> json_ok js \<Longrightarrow> legs_of (set_legs legs js) = legs"
  by (simp add: legs_of_def set_legs_def put_object)

lemma stage_keys_ok: "doc_ok js \<Longrightarrow> json_ok p \<Longrightarrow> ''transport_params'' \<notin> set keys \<Longrightarrow> doc_ok (stage_keys keys p js)"
  unfolding stage_keys_def
proof (induction keys arbitrary: js)
  case (Cons k keys)
  then show ?case by (cases "jfind k p") (auto simp: doc_ok_put jfind_ok)
qed simp

lemma stage_legs_cases:
  obtains ps where "jfind ''transport_params'' p = Some (JArr ps)" "stage_legs p js = set_legs (merge_legs ps (legs_of js)) js"
  | "stage_legs p js = js"
proof (cases "jfind ''transport_params'' p")
  case (Some v)
  then show ?thesis using that by (cases v) (simp_all add: stage_legs_def)
qed (simp add: stage_legs_def that)

lemma stage_legs_ok:
  assumes js: "doc_ok js" and p: "json_ok p"
  shows "doc_ok (stage_legs p js)"
proof (rule stage_legs_cases [of p js])
  fix ps assume ps: "jfind ''transport_params'' p = Some (JArr ps)" and eq: "stage_legs p js = set_legs (merge_legs ps (legs_of js)) js"
  have "json_ok (JArr ps)" by (rule jfind_ok [OF p ps])
  then have "\<forall>p \<in> set ps. json_ok p" by (simp only: json_ok.simps)
  moreover have "\<forall>leg \<in> set (legs_of js). is_object leg \<and> json_ok leg" and two: "length (legs_of js) = 2"
    using js by (auto elim!: doc_ok_legs)
  ultimately have m: "length (merge_legs ps (legs_of js)) = length (legs_of js)"
      "\<forall>leg \<in> set (merge_legs ps (legs_of js)). is_object leg \<and> json_ok leg"
    using merge_legs_ok by blast+
  show ?thesis unfolding eq by (rule doc_ok_set_legs [OF js _ m(2)]) (simp only: m(1) two)
qed (use js in simp)

lemma null_member_ok: "json_ok js \<Longrightarrow> json_ok (null_member k js)"
  by (auto simp: null_member_def jfind_ok split: option.split)

lemma stage_file_cases:
  obtains ms where "jfind ''transport_file'' p = Some (JObj ms)"
    "stage_file p js = put ''transport_file'' (merge_items ms (null_member ''transport_file'' js)) js"
  | "stage_file p js = js"
proof (cases "jfind ''transport_file'' p")
  case (Some v)
  then show ?thesis using that by (cases v) (simp_all add: stage_file_def)
qed (simp add: stage_file_def that)

lemma stage_file_ok:
  assumes js: "doc_ok js" "file_ok js" and p: "json_ok p"
  shows "doc_ok (stage_file p js)" "file_ok (stage_file p js)"
proof -
  have "doc_ok (stage_file p js) \<and> file_ok (stage_file p js)"
  proof (rule stage_file_cases [of p js])
    fix ms let ?m = "merge_items ms (null_member ''transport_file'' js)"
    assume ms: "jfind ''transport_file'' p = Some (JObj ms)" and eq: "stage_file p js = put ''transport_file'' ?m js"
    have "json_ok (JObj ms)" by (rule jfind_ok [OF p ms])
    then have "\<forall>(k, v) \<in> set ms. json_ok v" by simp
    moreover have "json_ok (null_member ''transport_file'' js)" "is_object (null_member ''transport_file'' js)"
      using js null_member_ok by (simp_all add: doc_ok_def file_ok_def)
    ultimately have m: "json_ok ?m" "is_object ?m" using merge_items_object by blast+
    have "doc_ok (put ''transport_file'' ?m js)" using js(1) m(1) by (rule doc_ok_put) simp
    moreover have "jfind ''transport_file'' (put ''transport_file'' ?m js) = Some ?m"
      using put_object(3) [of js "''transport_file''" "''transport_file''" ?m] js(1) by (simp add: doc_ok_def)
    ultimately show ?thesis unfolding eq using m(2) by (simp add: file_ok_def null_member_def)
  qed (use js in simp)
  then show "doc_ok (stage_file p js)" "file_ok (stage_file p js)" by simp_all
qed
section \<open>Every handler keeps the documents well-formed\<close>

text \<open>\<open>keeps P m\<close>: whether \<open>m\<close> returns or throws, it leaves a state with \<open>P\<close>.\<close>

definition keeps :: "('s \<Rightarrow> bool) \<Rightarrow> ('s, 'a) act \<Rightarrow> bool" where
  "keeps P m \<longleftrightarrow> (\<forall>s. P s \<longrightarrow> P (snd (m s)))"

named_theorems keeps_intros \<open>compositional rules for \<open>keeps\<close>\<close>

lemma keepsD: "keeps P m \<Longrightarrow> P s \<Longrightarrow> P (snd (m s))"
  by (simp add: keeps_def)

lemma keeps_simple [keeps_intros]: "keeps P (evalS x)" "keeps P (returnS y)"
  by (simp_all add: keeps_def act_simps)

lemma keeps_modify: "(\<And>s. P s \<Longrightarrow> P (f s)) \<Longrightarrow> keeps P (modifyS f)"
  by (simp add: keeps_def modifyS_def)

lemma keeps_bind [keeps_intros]: "keeps P m \<Longrightarrow> (\<And>x. keeps P (f x)) \<Longrightarrow> keeps P (bindS m f)"
  unfolding keeps_def bindS_def by (simp add: case_prod_unfold split: outcome.split)

lemma keeps_then [keeps_intros]: "keeps P m \<Longrightarrow> keeps P n \<Longrightarrow> keeps P (thenS m n)"
  unfolding thenS_def by (rule keeps_bind)

lemma keeps_when [keeps_intros]: "keeps P m \<Longrightarrow> keeps P (whenS b m)"
  by (simp add: whenS_def keeps_simple)

lemma keeps_if [keeps_intros]: "keeps P m \<Longrightarrow> keeps P n \<Longrightarrow> keeps P (if b then m else n)"
  by simp

lemma keepsI: "(\<And>s. P s \<Longrightarrow> P (snd (m s))) \<Longrightarrow> keeps P m"
  by (simp add: keeps_def)

lemma for_legs_inv:
  assumes "\<And>i. keeps P (f i)"
  shows "\<forall>leg \<in> set legs. P leg \<Longrightarrow> length (snd (for_legs f i legs)) = length legs \<and> (\<forall>leg \<in> set (snd (for_legs f i legs)). P leg)"
proof (induction legs arbitrary: i)
  case (Cons leg legs)
  obtain r leg' where r: "f i leg = (r, leg')" by fastforce
  have "P leg'" using keepsD [OF assms, of leg i] r Cons.prems by simp
  then show ?case using Cons.IH [of "Suc i"] Cons.prems r by (cases r) (auto simp: Let_def case_prod_unfold)
qed simp

definition leg_doc :: "json \<Rightarrow> bool" where
  "leg_doc leg \<longleftrightarrow> is_object leg \<and> json_ok leg"

lemma leg_doc_put: "leg_doc leg \<Longrightarrow> json_ok v \<Longrightarrow> leg_doc (put k v leg)"
  by (simp add: leg_doc_def put_object)

lemma actual_sender_leg_ok: "keeps leg_doc (actual_sender_leg vIps c i)"
proof -
  have "keeps leg_doc (\<lambda>leg. let ip = null_member ''destination_ip'' leg; leg = put ''destination_ip'' ip leg in
      whenS (\<not> is_string ip) (bindS (evalS (GetValue get_string (destination_key i) [] c)) (\<lambda>ip.
        modifyS (put ''destination_ip'' (JStr ip)))) leg)"
  proof (unfold keeps_def Let_def, intro allI impI)
    fix leg assume l: "leg_doc leg"
    then have "leg_doc (put ''destination_ip'' (null_member ''destination_ip'' leg) leg)"
      by (intro leg_doc_put null_member_ok) (simp_all add: leg_doc_def)
    moreover have "keeps leg_doc (whenS b (bindS (evalS x) (\<lambda>ip. modifyS (put ''destination_ip'' (JStr ip)))))" for b x
      by (intro keeps_intros keeps_modify leg_doc_put) simp_all
    ultimately show "leg_doc (snd (whenS (\<not> is_string (null_member ''destination_ip'' leg))
        (bindS (evalS (GetValue get_string (destination_key i) [] c)) (\<lambda>ip. modifyS (put ''destination_ip'' (JStr ip))))
        (put ''destination_ip'' (null_member ''destination_ip'' leg) leg)))"
      by (rule keepsD [rotated])
  qed
  then show ?thesis
    unfolding actual_sender_leg_def by (intro keeps_intros keeps_modify leg_doc_put) simp_all
qed

lemma actual_receiver_leg_ok: "keeps leg_doc (actual_receiver_leg vIps i)"
proof (rule keepsI)
  fix leg assume "leg_doc leg"
  then show "leg_doc (snd (actual_receiver_leg vIps i leg))"
    unfolding actual_receiver_leg_def by (rule keepsD [rotated]) (intro keeps_intros keeps_modify leg_doc_put, simp_all)
qed

lemma for_legs_doc:
  assumes "doc_ok js" "\<And>i. keeps leg_doc (f i)"
  shows "doc_ok (set_legs (snd (for_legs f 0 (legs_of js))) js)"
proof -
  obtain a b where "legs_of js = [a, b]" "is_object a" "is_object b" "json_ok a" "json_ok b" using assms(1) by (rule doc_ok_legs)
  then have "\<forall>leg \<in> set (legs_of js). leg_doc leg" "length (legs_of js) = 2" by (simp_all add: leg_doc_def)
  from for_legs_inv [of leg_doc f, OF assms(2) this(1), of 0] this(2) show ?thesis
    by (intro doc_ok_set_legs [OF assms(1)]) (simp_all add: leg_doc_def)
qed

lemma set_config_documents [simp]:
  "m_jsSenderStaged (snd (set_config p v s)) = m_jsSenderStaged s" "m_jsSenderActive (snd (set_config p v s)) = m_jsSenderActive s"
  "m_jsReceiverStaged (snd (set_config p v s)) = m_jsReceiverStaged s" "m_jsReceiverActive (snd (set_config p v s)) = m_jsReceiverActive s"
  by (simp_all add: set_config_def Let_def case_prod_unfold)

lemma keeps_set_config [keeps_intros]: "keeps conn_inv (set_config p v)"
  by (simp add: keeps_def conn_inv_def)

lemma keeps_enabled: "keeps conn_inv (modifyS (\<lambda>s. s\<lparr>sender := f (sender s)\<rparr>))" "keeps conn_inv (modifyS (\<lambda>s. s\<lparr>m_nVersion := m_nVersion s + 1\<rparr>))"
  by (intro keeps_modify; simp add: conn_inv_def)+

lemma keeps_applies [keeps_intros]:
  "keeps conn_inv (apply_destination legs i)" "keeps conn_inv (apply_port legs)" "keeps conn_inv (apply_enabled legs i)"
proof -
  show "keeps conn_inv (apply_destination legs i)" "keeps conn_inv (apply_port legs)"
    unfolding apply_destination_def apply_port_def by (intro keeps_intros)+
  have "keeps conn_inv (case x of Some (JBool b) \<Rightarrow> thenS (set_config p (JBool b)) (modifyS (\<lambda>s. s\<lparr>sender := SetLegEnabled i b (sender s)\<rparr>))
      | _ \<Rightarrow> returnS ())" for x p
    using keeps_enabled(1) [of "SetLegEnabled i b" for b]
    by (auto intro!: keeps_intros split: option.split json.split)
  then show "keeps conn_inv (apply_enabled legs i)" unfolding apply_enabled_def by (intro keeps_intros)
qed

lemma ActivationDone_ok: "json_ok (ActivationDone n)" "json_ok activation_none"
  by (simp_all add: ActivationDone_def activation_none_def obj_def omap_ok_def)
lemma keeps_activate_sender:
  assumes "\<And>b. keeps conn_inv (onSender b)"
  shows "keeps conn_inv (ActivateSender nNow vIps onSender)"
proof -
  have copy: "keeps conn_inv (modifyS (\<lambda>s. s\<lparr>m_jsSenderActive := put ''activation'' (ActivationDone nNow) (m_jsSenderStaged s),
      m_jsSenderStaged := put ''activation'' activation_none (m_jsSenderStaged s)\<rparr>))"
    by (intro keeps_modify) (simp add: conn_inv_def doc_ok_put ActivationDone_ok)
  have legs: "keeps conn_inv (\<lambda>s. let (r, legs) = for_legs (actual_sender_leg vIps (cfg s)) 0 (legs_of (m_jsSenderActive s))
      in (r, s\<lparr>m_jsSenderActive := set_legs legs (m_jsSenderActive s)\<rparr>))"
    unfolding keeps_def using for_legs_doc [OF _ actual_sender_leg_ok] by (simp add: conn_inv_def Let_def case_prod_unfold)
  show ?thesis
  proof (rule keepsI)
    fix s :: "'a ConnectionApi_scheme" assume "conn_inv s"
    then show "conn_inv (snd (ActivateSender nNow vIps onSender s))"
      unfolding ActivateSender_def Let_def
      by (rule keepsD [rotated]) (intro keeps_intros copy legs [unfolded Let_def] assms keeps_enabled(2))
  qed
qed

lemma keeps_activate_receiver:
  assumes "\<And>b ses. keeps conn_inv (onReceiver b ses)"
  shows "keeps conn_inv (ActivateReceiver nNow vIps onReceiver)"
proof -
  have fil: "file_ok (put k v js) = file_ok js" if "doc_ok js" "k \<noteq> ''transport_file''" for k v js
    using that by (simp add: file_ok_def null_member_def doc_ok_def put_object)
  have copy: "keeps conn_inv (modifyS (\<lambda>s. s\<lparr>m_jsReceiverActive := put ''activation'' (ActivationDone nNow) (m_jsReceiverStaged s),
      m_jsReceiverStaged := put ''activation'' activation_none (m_jsReceiverStaged s)\<rparr>))"
    by (intro keeps_modify) (simp add: conn_inv_def doc_ok_put ActivationDone_ok fil)
  have legs: "keeps conn_inv (\<lambda>s. let (r, legs) = for_legs (actual_receiver_leg vIps) 0 (legs_of (m_jsReceiverActive s))
      in (r, s\<lparr>m_jsReceiverActive := set_legs legs (m_jsReceiverActive s)\<rparr>))"
    unfolding keeps_def using for_legs_doc [OF _ actual_receiver_leg_ok] fil
    by (simp add: conn_inv_def Let_def case_prod_unfold) (simp add: set_legs_def)
  have ses: "keeps conn_inv (\<lambda>s. (receiver_session b (m_jsReceiverActive s), s))" for b
    by (simp add: keeps_def)
  show ?thesis
  proof (rule keepsI)
    fix s :: "'a ConnectionApi_scheme" assume "conn_inv s"
    then show "conn_inv (snd (ActivateReceiver nNow vIps onReceiver s))"
      unfolding ActivateReceiver_def by (rule keepsD [rotated]) (intro keeps_intros copy legs ses assms keeps_enabled(2))
  qed
qed

lemma keeps_stage_receiver:
  assumes "json_ok js"
  shows "keeps conn_inv (modifyS (\<lambda>s. s\<lparr>m_jsReceiverStaged :=
      stage_legs js (stage_file js (stage_keys [''master_enable'', ''sender_id''] js (m_jsReceiverStaged s)))\<rparr>))"
proof -
  have keys: "file_ok (stage_keys [''master_enable'', ''sender_id''] js d) = file_ok d" if "doc_ok d" for d
    using that assms
    by (auto simp: stage_keys_def file_ok_def null_member_def doc_ok_def put_object jfind_ok split: option.splits)
  have legs: "file_ok (stage_legs js d) = file_ok d" if "doc_ok d" for d
    by (rule stage_legs_cases [of js d]) (use that in \<open>simp_all add: set_legs_def file_ok_def null_member_def doc_ok_def put_object\<close>)
  show ?thesis
    using assms by (intro keeps_modify) (simp add: conn_inv_def stage_legs_ok stage_keys_ok stage_file_ok keys legs)
qed

lemma keeps_patches:
  assumes "json_ok js"
  shows "(\<And>b. keeps conn_inv (onSender b)) \<Longrightarrow> keeps conn_inv (PatchSender nNow vIps onSender js)"
    and "(\<And>b ses. keeps conn_inv (onReceiver b ses)) \<Longrightarrow> keeps conn_inv (PatchReceiver nNow vIps onReceiver js)"
proof -
  have tx: "keeps conn_inv (modifyS (\<lambda>s. s\<lparr>m_jsSenderStaged :=
      stage_legs js (stage_keys [''master_enable'', ''receiver_id''] js (m_jsSenderStaged s))\<rparr>))"
    using assms by (intro keeps_modify) (simp add: conn_inv_def stage_legs_ok stage_keys_ok)
  show "keeps conn_inv (PatchSender nNow vIps onSender js)" if "\<And>b. keeps conn_inv (onSender b)"
    unfolding PatchSender_def by (intro keeps_intros tx keeps_activate_sender that)
  show "keeps conn_inv (PatchReceiver nNow vIps onReceiver js)" if "\<And>b ses. keeps conn_inv (onReceiver b ses)"
    unfolding PatchReceiver_def by (intro keeps_intros keeps_stage_receiver [OF assms] keeps_activate_receiver that)
qed

lemma keeps_reply: "(\<And>js. body = Some js \<Longrightarrow> keeps P (patch js)) \<Longrightarrow> keeps P (patch_reply staged what body patch)"
  unfolding keeps_def patch_reply_def by (cases body) (simp_all add: Let_def case_prod_unfold)

lemma Handle_keeps:
  assumes "\<And>js. body = Some js \<Longrightarrow> keeps P (PatchSender (e_now e) (e_ips e) onSender js)"
    and "\<And>js. body = Some js \<Longrightarrow> keeps P (PatchReceiver (e_now e) (e_ips e) onReceiver js)"
  shows "keeps P (Handle e onSender onReceiver sUri sMethod body)"
  using keeps_reply [of body P "PatchSender (e_now e) (e_ips e) onSender" m_jsSenderStaged "e_what e"]
    keeps_reply [of body P "PatchReceiver (e_now e) (e_ips e) onReceiver" m_jsReceiverStaged "e_what e"] assms
  unfolding keeps_def Handle_def Let_def by simp
section \<open>Reachable states\<close>

definition docs :: "'r ConnectionApi_scheme \<Rightarrow> json \<times> json \<times> json \<times> json" where
  "docs s = (m_jsSenderStaged s, m_jsSenderActive s, m_jsReceiverStaged s, m_jsReceiverActive s)"

text \<open>The callbacks and the other threads change the engine, not the documents of the API.\<close>

definition outside :: "(bool \<Rightarrow> ('r ConnectionApi_scheme, unit) act) \<Rightarrow> (bool \<Rightarrow> SdpSession option \<Rightarrow> ('r ConnectionApi_scheme, unit) act) \<Rightarrow> bool" where
  "outside onSender onReceiver \<longleftrightarrow> (\<forall>b s. docs (snd (onSender b s)) = docs s) \<and> (\<forall>b ses s. docs (snd (onReceiver b ses s)) = docs s)"

inductive conn_reachable :: "(bool \<Rightarrow> ('r ConnectionApi_scheme, unit) act) \<Rightarrow> (bool \<Rightarrow> SdpSession option \<Rightarrow> ('r ConnectionApi_scheme, unit) act)
    \<Rightarrow> 'r ConnectionApi_scheme \<Rightarrow> bool" for onSender onReceiver where
  start: "docs s = (sender_document, sender_document, receiver_document, receiver_document) \<Longrightarrow> conn_reachable onSender onReceiver s"
| request: "conn_reachable onSender onReceiver s \<Longrightarrow> (\<And>js. body = Some js \<Longrightarrow> json_ok js)
    \<Longrightarrow> conn_reachable onSender onReceiver (snd (Handle e onSender onReceiver sUri sMethod body s))"
| engine: "conn_reachable onSender onReceiver s \<Longrightarrow> docs s' = docs s \<Longrightarrow> conn_reachable onSender onReceiver s'"

lemma conn_inv_docs: "docs s' = docs s \<Longrightarrow> conn_inv s \<Longrightarrow> conn_inv s'"
  by (simp add: docs_def conn_inv_def)

lemma documents_ok: "doc_ok sender_document" "doc_ok receiver_document" "file_ok receiver_document"
proof -
  have "is_object sender_document" "is_object receiver_document" "json_ok sender_document" "json_ok receiver_document" by code_simp+
  moreover have "jfind ''transport_params'' sender_document = Some (JArr [sender_leg, sender_leg])"
    "jfind ''transport_params'' receiver_document = Some (JArr [receiver_leg, receiver_leg])" by code_simp+
  moreover have "is_object sender_leg" "is_object receiver_leg" by code_simp+
  ultimately show "doc_ok sender_document" "doc_ok receiver_document" by (auto simp: doc_ok_def)
  show "file_ok receiver_document" by code_simp
qed

lemma outside_keeps: "outside onSender onReceiver \<Longrightarrow> keeps conn_inv (onSender b) \<and> keeps conn_inv (onReceiver b ses)"
  unfolding outside_def keeps_def using conn_inv_docs by blast

lemma conn_reachable_inv:
  assumes "conn_reachable onSender onReceiver s" "outside onSender onReceiver"
  shows "conn_inv s"
  using assms(1)
proof induction
  case (start s)
  then show ?case by (simp add: docs_def conn_inv_def documents_ok)
next
  case (request s body e sUri sMethod)
  have "keeps conn_inv (Handle e onSender onReceiver sUri sMethod body)"
    using outside_keeps [OF assms(2)] request.hyps(2) by (intro Handle_keeps keeps_patches) auto
  then show ?case using request.IH by (rule keepsD)
next
  case (engine s s')
  then show ?case using conn_inv_docs by blast
qed

text \<open>
  C18. Whatever requests the API has handled, including those that failed half way, each of its
  four documents is an object with exactly two legs, which are objects, so no later request can
  run into a missing or misshapen leg.
\<close>

theorem connection_documents:
  assumes "conn_reachable onSender onReceiver s" "outside onSender onReceiver"
    and "d \<in> {m_jsSenderStaged s, m_jsSenderActive s, m_jsReceiverStaged s, m_jsReceiverActive s}"
  shows "is_object d \<and> json_ok d \<and> length (legs_of d) = 2 \<and> (\<forall>leg \<in> set (legs_of d). is_object leg)"
proof -
  have "doc_ok d" using conn_reachable_inv [OF assms(1,2)] assms(3) by (auto simp: conn_inv_def)
  moreover from this obtain a b where "legs_of d = [a, b]" "is_object a" "is_object b" by (rule doc_ok_legs)
  ultimately show ?thesis by (simp add: doc_ok_def)
qed

theorem connection_documents_witness:
  "(let s = snd (Handle \<lparr>e_senderId = ''s'', e_receiverId = ''r'', e_ips = [], e_now = 5, e_label = [], e_gm = [], e_what = []\<rparr>
        (\<lambda>b. returnS ()) (\<lambda>b ses. returnS ()) ''/x-nmos/connection/v1.1/single/receivers/r/staged'' ''PATCH''
        (Some (obj [(''transport_params'', JArr [JNull, JArr [JInt 1], JInt 2])]))
        (init_connection \<lparr>m_json = JNull, m_sPath = []\<rparr> init_sender))
    in length (legs_of (m_jsReceiverStaged s)) = 2)"
proof -
  let ?tx = "\<lambda>b. returnS ()" and ?rx = "\<lambda>b ses. returnS ()"
  have o: "outside ?tx ?rx" by (simp add: outside_def returnS_def)
  have "conn_reachable ?tx ?rx (init_connection \<lparr>m_json = JNull, m_sPath = []\<rparr> init_sender)"
    by (rule conn_reachable.start) (simp add: docs_def init_connection_def)
  then have "conn_reachable ?tx ?rx (snd (Handle \<lparr>e_senderId = ''s'', e_receiverId = ''r'', e_ips = [], e_now = 5, e_label = [], e_gm = [], e_what = []\<rparr>
        ?tx ?rx ''/x-nmos/connection/v1.1/single/receivers/r/staged'' ''PATCH''
        (Some (obj [(''transport_params'', JArr [JNull, JArr [JInt 1], JInt 2])]))
        (init_connection \<lparr>m_json = JNull, m_sPath = []\<rparr> init_sender)))"
    by (rule conn_reachable.request) (simp add: obj_def omap_ok_def)
  from connection_documents [OF this o] show ?thesis by (simp add: Let_def)
qed

section \<open>Staging\<close>

text \<open>
  What sender and receiver have in common: a PATCH that does not ask for an activation changes
  nothing that is in effect.
\<close>

locale staged_resource =
  fixes patch :: "json \<Rightarrow> ('s, unit) act"
    and effective :: "'s \<Rightarrow> 'e"
  assumes stage_only: "wants_activation js \<noteq> Val True \<Longrightarrow> effective (snd (patch js s)) = effective s"
begin

lemma staging_run:
  "\<forall>js \<in> set patches. wants_activation js \<noteq> Val True \<Longrightarrow> effective (fold (\<lambda>js s. snd (patch js s)) patches s) = effective s"
  by (induction patches arbitrary: s) (simp_all add: stage_only)

end

definition in_effect :: "'r ConnectionApi_scheme \<Rightarrow> Config \<times> (string \<times> json) list \<times> RtpSender \<times> u64 \<times> json \<times> json \<times> 'r" where
  "in_effect s = (cfg s, written s, sender s, m_nVersion s, m_jsSenderActive s, m_jsReceiverActive s, ConnectionApi.more s)"

lemma staging_patch:
  assumes "wants_activation js \<noteq> Val True"
  shows "in_effect (snd (PatchSender nNow vIps onSender js s)) = in_effect s"
    and "in_effect (snd (PatchReceiver nNow vIps onReceiver js s)) = in_effect s"
  using assms by (cases "wants_activation js"; simp add: PatchSender_def PatchReceiver_def act_simps in_effect_def)+

interpretation sender_api: staged_resource "PatchSender nNow vIps onSender" in_effect
  for nNow vIps and onSender :: "bool \<Rightarrow> ('r ConnectionApi_scheme, unit) act"
  by unfold_locales (rule staging_patch(1))

interpretation receiver_api: staged_resource "PatchReceiver nNow vIps onReceiver" in_effect
  for nNow vIps and onReceiver :: "bool \<Rightarrow> SdpSession option \<Rightarrow> ('r ConnectionApi_scheme, unit) act"
  by unfold_locales (rule staging_patch(2))

text \<open>
  C17. Staging has no effect: a request that does not ask for an immediate activation, read or
  PATCH, accepted or refused, leaves the active documents, the configuration and its file, the
  stream sender and the resource version as they are.
\<close>

theorem staging_has_no_effect:
  assumes "\<And>js. body = Some js \<Longrightarrow> wants_activation js \<noteq> Val True"
  shows "in_effect (snd (Handle e onSender onReceiver sUri sMethod body s)) = in_effect s"
proof -
  have "keeps (\<lambda>t. in_effect t = in_effect s) (PatchSender (e_now e) (e_ips e) onSender js)"
    "keeps (\<lambda>t. in_effect t = in_effect s) (PatchReceiver (e_now e) (e_ips e) onReceiver js)" if "body = Some js" for js
    by (rule keepsI, simp add: sender_api.stage_only [OF assms [OF that]] receiver_api.stage_only [OF assms [OF that]])+
  then have "keeps (\<lambda>t. in_effect t = in_effect s) (Handle e onSender onReceiver sUri sMethod body)"
    by (rule Handle_keeps)
  then show ?thesis by (rule keepsD) (rule refl)
qed

theorem staging_has_no_effect_witness:
  "in_effect (snd (Handle \<lparr>e_senderId = ''s'', e_receiverId = ''r'', e_ips = [], e_now = 5, e_label = [], e_gm = [], e_what = []\<rparr>
        (\<lambda>b. returnS ()) (\<lambda>b ses. returnS ()) ''/x-nmos/connection/v1.1/single/receivers/r/staged'' ''PATCH''
        (Some (obj [(''master_enable'', JBool True)])) (init_connection \<lparr>m_json = JNull, m_sPath = []\<rparr> init_sender)))
   = in_effect (init_connection \<lparr>m_json = JNull, m_sPath = []\<rparr> init_sender)"
  by (rule staging_has_no_effect) (auto simp: wants_activation_def obj_def)

section \<open>Activation\<close>

text \<open>The request the web interface and controllers send to connect the receiver to a stream.\<close>

definition connect_patch :: "string \<Rightarrow> json" where
  "connect_patch sdp = obj
    [(''master_enable'', JBool True), (''activation'', obj [(''mode'', JStr ''activate_immediate'')]),
     (''transport_file'', obj [(''type'', JStr ''application/sdp''), (''data'', JStr sdp)])]"

lemma connect_patch_members:
  "jfind ''master_enable'' (connect_patch sdp) = Some (JBool True)" "jfind ''sender_id'' (connect_patch sdp) = None"
  "jfind ''transport_file'' (connect_patch sdp) = Some (JObj [(''data'', JStr sdp), (''type'', JStr ''application/sdp'')])"
  "jfind ''transport_params'' (connect_patch sdp) = None" "wants_activation (connect_patch sdp) = Val True"
  by (simp_all add: connect_patch_def obj_def wants_activation_def jvalue_def)

definition connected :: "string \<Rightarrow> json \<Rightarrow> json" where
  "connected sdp js =
     put ''transport_file'' (merge_items [(''data'', JStr sdp), (''type'', JStr ''application/sdp'')] (null_member ''transport_file'' js))
       (put ''master_enable'' (JBool True) js)"

lemma connected_members:
  assumes "doc_ok js" "file_ok js"
  shows "doc_ok (connected sdp js)" "jvalue get_bool ''master_enable'' False (connected sdp js) = Val True"
    "legs_of (connected sdp js) = legs_of js"
    "jfind ''data'' (null_member ''transport_file'' (connected sdp js)) = Some (JStr sdp)" "file_ok (connected sdp js)"
proof -
  let ?f = "null_member ''transport_file'' js" and ?m = "put ''master_enable'' (JBool True) js"
  let ?g = "merge_items [(''data'', JStr sdp), (''type'', JStr ''application/sdp'')] ?f"
  have js: "is_object js" "json_ok js" and f: "is_object ?f" "json_ok ?f" using assms null_member_ok by (auto simp: doc_ok_def file_ok_def)
  have g: "is_object ?g" "json_ok ?g" using merge_items_object [OF f(1)] f(2) by simp_all
  have m: "doc_ok ?m" using assms(1) by (rule doc_ok_put) simp_all
  then have mo: "is_object ?m" "json_ok ?m" by (simp_all add: doc_ok_def)
  show "doc_ok (connected sdp js)" unfolding connected_def using m g(2) by (rule doc_ok_put) simp
  have find: "jfind k (connected sdp js) = (if k = ''transport_file'' then Some ?g else if k = ''master_enable'' then Some (JBool True) else jfind k js)" for k
    unfolding connected_def using put_object(3) [OF mo, of k] put_object(3) [OF js, of k] by simp
  have co: "is_object (connected sdp js)" unfolding connected_def by (rule put_object(1) [OF mo(1)])
  show "jvalue get_bool ''master_enable'' False (connected sdp js) = Val True" using co find by (simp add: jvalue_def)
  show "legs_of (connected sdp js) = legs_of js" using find by (simp add: legs_of_def)
  have nm: "null_member ''transport_file'' (connected sdp js) = ?g" using find by (simp add: null_member_def)
  show "file_ok (connected sdp js)" using g nm by (simp add: file_ok_def)
  show "jfind ''data'' (null_member ''transport_file'' (connected sdp js)) = Some (JStr sdp)"
    unfolding nm using f by (simp add: merge_items_def put_object)
qed

lemma actual_receiver_legs:
  assumes "\<forall>leg \<in> set legs. is_object leg \<and> (\<exists>ip. jfind ''interface_ip'' leg = Some (JStr ip))"
  shows "fst (for_legs (actual_receiver_leg vIps) i legs) = Val ()"
  using assms
proof (induction legs arbitrary: i)
  case (Cons leg legs)
  then obtain ip where "is_object leg" "jfind ''interface_ip'' leg = Some (JStr ip)" by auto
  then have "\<exists>leg'. actual_receiver_leg vIps i leg = (Val (), leg')"
    by (cases "ip = ''auto'' \<and> i < length vIps") (auto simp: actual_receiver_leg_def jvalue_def act_simps)
  then obtain leg' where "actual_receiver_leg vIps i leg = (Val (), leg')" ..
  then show ?case using Cons by (simp add: Let_def case_prod_unfold)
qed simp

lemma PatchReceiver_connect:
  assumes s: "doc_ok (m_jsReceiverStaged s)" "file_ok (m_jsReceiverStaged s)"
    and legs: "\<forall>leg \<in> set (legs_of (m_jsReceiverStaged s)). \<exists>ip. jfind ''interface_ip'' leg = Some (JStr ip)"
    and sdp: "ParseSdp sdp = Val ses"
  shows "\<exists>staged active. PatchReceiver nNow vIps onReceiver (connect_patch sdp) s
    = thenS (onReceiver True ses) (modifyS (\<lambda>s. s\<lparr>m_nVersion := m_nVersion s + 1\<rparr>))
        (s\<lparr>m_jsReceiverStaged := staged, m_jsReceiverActive := active\<rparr>)
      \<and> jfind ''master_enable'' active = Some (JBool True)"
proof -
  let ?c = "connected sdp (m_jsReceiverStaged s)"
  note c = connected_members [OF s, of sdp]
  let ?a = "put ''activation'' (ActivationDone nNow) ?c"
  have a: "doc_ok ?a" using c(1) ActivationDone_ok(1) by (rule doc_ok_put) simp
  have co: "is_object ?c" "json_ok ?c" and ao: "is_object ?a" "json_ok ?a" using c(1) a by (simp_all add: doc_ok_def)
  have find: "jfind k ?a = (if k = ''activation'' then Some (ActivationDone nNow) else jfind k ?c)" for k
    by (rule put_object(3) [OF co])
  have la: "legs_of ?a = legs_of (m_jsReceiverStaged s)" using find c(3) by (simp add: legs_of_def)
  obtain x y where xy: "legs_of (m_jsReceiverStaged s) = [x, y]" "is_object x" "is_object y" using s(1) by (rule doc_ok_legs)
  obtain new where new: "for_legs (actual_receiver_leg vIps) 0 (legs_of ?a) = (Val (), new)"
    using actual_receiver_legs [of "legs_of (m_jsReceiverStaged s)" vIps 0] legs xy la
    by (cases "for_legs (actual_receiver_leg vIps) 0 (legs_of ?a)") auto
  let ?b = "set_legs new ?a"
  have fb: "jfind k ?b = (if k = ''transport_params'' then Some (JArr new) else jfind k ?a)" for k
    unfolding set_legs_def by (rule put_object(3) [OF ao])
  have "receiver_session True ?b = Val ses"
  proof -
    have "null_member ''transport_file'' ?b = null_member ''transport_file'' ?c" using fb find by (simp add: null_member_def)
    then show ?thesis using c(4,5) sdp by (simp add: receiver_session_def jvalue_def file_ok_def)
  qed
  moreover have "stage_legs (connect_patch sdp) (stage_file (connect_patch sdp)
      (stage_keys [''master_enable'', ''sender_id''] (connect_patch sdp) (m_jsReceiverStaged s))) = ?c"
  proof -
    have "null_member ''transport_file'' (put ''master_enable'' (JBool True) (m_jsReceiverStaged s)) = null_member ''transport_file'' (m_jsReceiverStaged s)"
      using put_object(3) s(1) by (simp add: null_member_def doc_ok_def)
    then show ?thesis by (simp add: stage_keys_def stage_file_def stage_legs_def connect_patch_members connected_def)
  qed
  moreover have "jfind ''master_enable'' ?b = Some (JBool True)"
    using fb find c(2) co(1) by (auto simp: jvalue_def split: option.splits elim!: get_bool.elims)
  ultimately show ?thesis
    using c(2) new
    by (intro exI [of _ "put ''activation'' activation_none ?c"] exI [of _ ?b])
      (simp add: PatchReceiver_def ActivateReceiver_def connect_patch_members act_simps)
qed

text \<open>
  Connecting: in every state in which the interfaces of the staged legs are texts, the request
  of the web interface with the description of a stream, as the printer writes it, starts the
  receiver with exactly that stream.  The callback is called once, with the session read back, on
  a state that differs from the old one in the receiver's documents only; the active document
  says that the receiver is enabled, and the resource version is increased after it.
\<close>

theorem connect_starts_receiver:
  assumes "conn_reachable onSender onReceiver s" "outside onSender onReceiver"
    and "\<forall>leg \<in> set (legs_of (m_jsReceiverStaged s)). \<exists>ip. jfind ''interface_ip'' leg = Some (JStr ip)"
    and "session_ok ses" "plain origin" "origin \<noteq> []" "\<forall>ip \<in> set ips. plain ip \<and> ip \<noteq> []"
  shows "\<exists>staged active. PatchReceiver nNow vIps onReceiver (connect_patch (GenerateSdp nSessId ses origin ips)) s
    = thenS (onReceiver True (Some (ses\<lparr>sName := Trim (sName ses), vLegs := read_legs ses 0 (vLegs ses) origin ips\<rparr>)))
        (modifyS (\<lambda>s. s\<lparr>m_nVersion := m_nVersion s + 1\<rparr>)) (s\<lparr>m_jsReceiverStaged := staged, m_jsReceiverActive := active\<rparr>)
      \<and> jfind ''master_enable'' active = Some (JBool True)"
proof -
  have "doc_ok (m_jsReceiverStaged s)" "file_ok (m_jsReceiverStaged s)"
    using conn_reachable_inv [OF assms(1,2)] by (simp_all add: conn_inv_def)
  then show ?thesis
    using assms(3) by (rule PatchReceiver_connect) (rule parse_printed [OF assms(4-7)])
qed

theorem connect_starts_receiver_witness:
  "\<exists>staged active. PatchReceiver 7 [''10.0.0.2''] (\<lambda>b ses. modifyS (\<lambda>s. s\<lparr>written := [(sName (the ses), JBool b)]\<rparr>))
        (connect_patch (GenerateSdp 9 sample_session ''10.0.0.1'' [])) (init_connection \<lparr>m_json = JNull, m_sPath = []\<rparr> init_sender)
    = (Val (), (init_connection \<lparr>m_json = JNull, m_sPath = []\<rparr> init_sender)
        \<lparr>m_jsReceiverStaged := staged, m_jsReceiverActive := active, written := [(''studio'', JBool True)], m_nVersion := 1\<rparr>)"
proof -
  let ?tx = "\<lambda>b. returnS ()" and ?rx = "\<lambda>b ses. modifyS (\<lambda>s :: ConnectionApi. s\<lparr>written := [(sName (the ses), JBool b)]\<rparr>)"
  let ?s = "init_connection \<lparr>m_json = JNull, m_sPath = []\<rparr> init_sender"
  have o: "outside ?tx ?rx" by (simp add: outside_def returnS_def modifyS_def docs_def)
  have r: "conn_reachable ?tx ?rx ?s" by (rule conn_reachable.start) (simp add: docs_def init_connection_def)
  have "legs_of receiver_document = [receiver_leg, receiver_leg]" "jfind ''interface_ip'' receiver_leg = Some (JStr ''auto'')" by code_simp+
  then have l: "\<forall>leg \<in> set (legs_of (m_jsReceiverStaged ?s)). \<exists>ip. jfind ''interface_ip'' leg = Some (JStr ip)"
    by (simp add: init_connection_def)
  have p: "plain ''10.0.0.1''" "Trim (sName sample_session) = ''studio''" by code_simp+
  from connect_starts_receiver [OF r o l sample_session_ok p(1), of "[]" 7 "[''10.0.0.2'']" 9] show ?thesis
    using p(2) by (auto simp: act_simps init_connection_def)
qed


end
