(* ===== verification/Is12.thy ===== *)
theory Is12
  imports Json
begin

text \<open>
  The IS-12 control protocol server and its BCP-008 status monitors, \<^verbatim>\<open>src/src/nmos/is12.cpp\<close>.  A
  websocket connection is a number; what is written to connections is a list of pairs of a
  connection and a message.  The clock is an argument, and so are the identifiers of the node and
  the version of the program.
\<close>

section \<open>State\<close>

record McDomain =
  nStatus :: int
  sMessage :: string
  nTransitions :: u32
  nPendingStatus :: int
  pendingSince :: int

record Monitor =
  nOid :: int
  sRole :: string
  sLabel :: string
  sTouchpointType :: string
  sTouchpointId :: string
  aDomains :: "McDomain list"
  nOverall :: int
  sOverallMessage :: string
  sSyncSource :: "string option"
  mCounters1 :: "(string, u64) omap"
  mCounters2 :: "(string, u64) omap"
  bIsReceiver :: bool

type_synonym subscriptions = "(nat, int list) omap"

record Is12Server =
  m_rxMonitor :: Monitor
  m_txMonitor :: Monitor
  m_mSubscriptions :: subscriptions

type_synonym sends = "(nat \<times> json) list"

abbreviation "LINK \<equiv> 0 :: nat"
abbreviation "PATH \<equiv> 1 :: nat"
abbreviation "SYNC \<equiv> 2 :: nat"
abbreviation "STREAM \<equiv> 3 :: nat"

definition init_domain :: McDomain where
  "init_domain = \<lparr>nStatus = 0, sMessage = [], nTransitions = 0, nPendingStatus = -1, pendingSince = 0\<rparr>"

definition init_monitor :: "int \<Rightarrow> string \<Rightarrow> string \<Rightarrow> string \<Rightarrow> string \<Rightarrow> bool \<Rightarrow> Monitor" where
  "init_monitor oid role label ttype tid rx =
     \<lparr>nOid = oid, sRole = role, sLabel = label, sTouchpointType = ttype, sTouchpointId = tid,
      aDomains = [init_domain\<lparr>nStatus := 1\<rparr>, init_domain, init_domain, init_domain],
      nOverall = 0, sOverallMessage = [], sSyncSource = None, mCounters1 = [], mCounters2 = [], bIsReceiver = rx\<rparr>"

definition init_is12 :: "string \<Rightarrow> string \<Rightarrow> Is12Server" where
  "init_is12 sReceiverId sSenderId =
     \<lparr>m_rxMonitor = init_monitor 10 ''ReceiverMonitor'' ''receiver monitor'' ''receiver'' sReceiverId True,
      m_txMonitor = init_monitor 11 ''SenderMonitor'' ''sender monitor'' ''sender'' sSenderId False,
      m_mSubscriptions = []\<rparr>"

section \<open>Messages\<close>

definition Ok :: "json \<Rightarrow> json" where
  "Ok v = obj [(''status'', JInt 200), (''value'', v)]"

definition OkVoid :: json where
  "OkVoid = obj [(''status'', JInt 200)]"

definition Error :: "int \<Rightarrow> string \<Rightarrow> json" where
  "Error n s = obj [(''status'', JInt n), (''errorMessage'', JStr s)]"

definition Counters :: "(string, u64) omap \<Rightarrow> json" where
  "Counters m = JArr (map (\<lambda>(n, v). obj [(''name'', JStr n), (''value'', JInt (uint v)), (''description'', JNull)]) m)"

definition ints :: "int list \<Rightarrow> json" where
  "ints xs = JArr (map JInt xs)"

definition MemberDescriptor :: "int \<Rightarrow> string \<Rightarrow> string \<Rightarrow> int list \<Rightarrow> json" where
  "MemberDescriptor oid role label cls =
     obj [(''description'', JNull), (''role'', JStr role), (''oid'', JInt oid), (''constantOid'', JBool True),
          (''classId'', ints cls), (''userLabel'', JStr label), (''owner'', if oid = 1 then JNull else JInt 1)]"

definition members :: "Is12Server \<Rightarrow> json" where
  "members s = JArr
    [MemberDescriptor 2 ''DeviceManager'' ''device manager'' [1, 3, 1],
     MemberDescriptor 3 ''ClassManager'' ''class manager'' [1, 3, 2],
     MemberDescriptor (nOid (m_rxMonitor s)) (sRole (m_rxMonitor s)) (sLabel (m_rxMonitor s)) [1, 2, 2, 1],
     MemberDescriptor (nOid (m_txMonitor s)) (sRole (m_txMonitor s)) (sLabel (m_txMonitor s)) [1, 2, 2, 2]]"

definition FindMonitor :: "int \<Rightarrow> Is12Server \<Rightarrow> Monitor option" where
  "FindMonitor oid s =
    (if oid = nOid (m_rxMonitor s) then Some (m_rxMonitor s)
     else if oid = nOid (m_txMonitor s) then Some (m_txMonitor s) else None)"

definition notification :: "int \<Rightarrow> int \<Rightarrow> int \<Rightarrow> json \<Rightarrow> json" where
  "notification oid level index v = obj
    [(''messageType'', JInt 2),
     (''notifications'', JArr [obj
       [(''oid'', JInt oid),
        (''eventId'', obj [(''level'', JInt 1), (''index'', JInt 1)]),
        (''eventData'', obj
          [(''propertyId'', obj [(''level'', JInt level), (''index'', JInt index)]),
           (''changeType'', JInt 0), (''value'', v), (''sequenceItemIndex'', JNull)])]])]"

definition Notify :: "subscriptions \<Rightarrow> int \<Rightarrow> int \<Rightarrow> int \<Rightarrow> json \<Rightarrow> sends" where
  "Notify subs oid level index v =
     map (\<lambda>(conn, oids). (conn, notification oid level index v)) (filter (\<lambda>(conn, oids). oid \<in> set oids) subs)"

section \<open>Status domains\<close>

definition DOMAIN_BASE :: "int list" where
  "DOMAIN_BASE = [1, 4, 7, 11]"

text \<open>The worst of the active domains, and its message; inactive while the path is.\<close>

fun worst_of :: "Monitor \<Rightarrow> nat list \<Rightarrow> int \<Rightarrow> string \<Rightarrow> int \<times> string" where
  "worst_of mon [] n msg = (n, msg)"
| "worst_of mon (d # ds) n msg =
    (let domn = aDomains mon ! d in
     if (d = SYNC \<or> d = STREAM) \<and> nStatus domn = 0 then worst_of mon ds n msg
     else if n < nStatus domn then worst_of mon ds (nStatus domn) (sMessage domn)
     else worst_of mon ds n msg)"

definition overall_of :: "Monitor \<Rightarrow> int \<times> string" where
  "overall_of mon =
    (let path = aDomains mon ! PATH in
     if nStatus path = 0 then (0, [])
     else worst_of mon [LINK, SYNC, STREAM] (nStatus path) (sMessage path))"

definition RecomputeOverall :: "subscriptions \<Rightarrow> Monitor \<Rightarrow> Monitor \<times> sends" where
  "RecomputeOverall subs mon =
    (let (n, msg) = overall_of mon;
         (mon, out1) = (if n \<noteq> nOverall mon then (mon\<lparr>nOverall := n\<rparr>, Notify subs (nOid mon) 3 1 (JInt n)) else (mon, []));
         (mon, out2) = (if msg \<noteq> sOverallMessage mon
                        then (mon\<lparr>sOverallMessage := msg\<rparr>, Notify subs (nOid mon) 3 2 (JStr msg)) else (mon, []))
     in (mon, out1 @ out2))"

definition set_domain :: "nat \<Rightarrow> McDomain \<Rightarrow> Monitor \<Rightarrow> Monitor" where
  "set_domain d domn mon = mon\<lparr>aDomains := (aDomains mon)[d := domn]\<rparr>"

text \<open>
  \<open>hold\<close> is the reporting delay: the domain with its pending state, and whether the new status is
  still held back.
\<close>

definition hold :: "int \<Rightarrow> int \<Rightarrow> McDomain \<Rightarrow> McDomain \<times> bool" where
  "hold now st domn =
    (if 1 < st \<and> nStatus domn < st then
       let domn = (if nPendingStatus domn \<noteq> st then domn\<lparr>nPendingStatus := st, pendingSince := now\<rparr> else domn)
       in (domn, now - pendingSince domn < 3000000000)
     else (domn, False))"

definition UpdateDomain :: "int \<Rightarrow> subscriptions \<Rightarrow> nat \<Rightarrow> int \<Rightarrow> string \<Rightarrow> Monitor \<Rightarrow> Monitor \<times> sends" where
  "UpdateDomain now subs d st msg mon =
    (let (domn, held) = hold now st (aDomains mon ! d) in
     if held then (set_domain d domn mon, [])
     else
       let domn = domn\<lparr>nPendingStatus := -1\<rparr>;
           base = DOMAIN_BASE ! d;
           (domn, out1) =
             (if nStatus domn \<noteq> st then
                let (domn, out) =
                  (if nStatus domn < st \<and> nStatus domn \<noteq> 0 then
                     (domn\<lparr>nTransitions := nTransitions domn + 1\<rparr>,
                      Notify subs (nOid mon) 4 (base + 2) (JInt (uint (nTransitions domn + 1))))
                   else (domn, []))
                in (domn\<lparr>nStatus := st\<rparr>, out @ Notify subs (nOid mon) 4 base (JInt st))
              else (domn, []));
           (domn, out2) =
             (if sMessage domn \<noteq> msg then (domn\<lparr>sMessage := msg\<rparr>, Notify subs (nOid mon) 4 (base + 1) (JStr msg))
              else (domn, []));
           (mon, out3) = RecomputeOverall subs (set_domain d domn mon)
       in (mon, out1 @ out2 @ out3))"

definition UpdateReceiverDomain :: "int \<Rightarrow> nat \<Rightarrow> int \<Rightarrow> string \<Rightarrow> Is12Server \<Rightarrow> Is12Server \<times> sends" where
  "UpdateReceiverDomain now d st msg s =
    (let (mon, out) = UpdateDomain now (m_mSubscriptions s) d st msg (m_rxMonitor s) in (s\<lparr>m_rxMonitor := mon\<rparr>, out))"

definition UpdateSenderDomain :: "int \<Rightarrow> nat \<Rightarrow> int \<Rightarrow> string \<Rightarrow> Is12Server \<Rightarrow> Is12Server \<times> sends" where
  "UpdateSenderDomain now d st msg s =
    (let (mon, out) = UpdateDomain now (m_mSubscriptions s) d st msg (m_txMonitor s) in (s\<lparr>m_txMonitor := mon\<rparr>, out))"

definition source_json :: "string option \<Rightarrow> json" where
  "source_json x = (case x of Some i \<Rightarrow> JStr i | None \<Rightarrow> JNull)"

definition sync_source :: "subscriptions \<Rightarrow> string option \<Rightarrow> Monitor \<Rightarrow> Monitor \<times> sends" where
  "sync_source subs src mon =
    (if sSyncSource mon \<noteq> src then (mon\<lparr>sSyncSource := src\<rparr>, Notify subs (nOid mon) 4 10 (source_json src)) else (mon, []))"

definition SetSyncSource :: "string option \<Rightarrow> Is12Server \<Rightarrow> Is12Server \<times> sends" where
  "SetSyncSource src s =
    (let (rx, out1) = sync_source (m_mSubscriptions s) src (m_rxMonitor s);
         (tx, out2) = sync_source (m_mSubscriptions s) src (m_txMonitor s)
     in (s\<lparr>m_rxMonitor := rx, m_txMonitor := tx\<rparr>, out1 @ out2))"

definition bump :: "string \<Rightarrow> u64 \<Rightarrow> (string, u64) omap \<Rightarrow> (string, u64) omap" where
  "bump k n m = omap_put k ((case map_of m k of Some x \<Rightarrow> x | None \<Rightarrow> 0) + n) m"

definition AddReceiverLost :: "string \<Rightarrow> u64 \<Rightarrow> Is12Server \<Rightarrow> Is12Server" where
  "AddReceiverLost sLeg n s = s\<lparr>m_rxMonitor := (m_rxMonitor s)\<lparr>mCounters1 := bump sLeg n (mCounters1 (m_rxMonitor s))\<rparr>\<rparr>"

definition AddReceiverLate :: "u64 \<Rightarrow> Is12Server \<Rightarrow> Is12Server" where
  "AddReceiverLate n s = s\<lparr>m_rxMonitor := (m_rxMonitor s)\<lparr>mCounters2 := bump ''late'' n (mCounters2 (m_rxMonitor s))\<rparr>\<rparr>"

definition AddSenderErrors :: "string \<Rightarrow> u64 \<Rightarrow> Is12Server \<Rightarrow> Is12Server" where
  "AddSenderErrors sCounter n s =
     s\<lparr>m_txMonitor := (m_txMonitor s)\<lparr>mCounters1 := bump sCounter n (mCounters1 (m_txMonitor s))\<rparr>\<rparr>"

section \<open>Properties and methods\<close>

definition reset_domains :: "Monitor \<Rightarrow> Monitor" where
  "reset_domains mon = mon\<lparr>aDomains := map (\<lambda>d. d\<lparr>nTransitions := 0, sMessage := []\<rparr>) (aDomains mon)\<rparr>"

definition InvokeMethod :: "int \<Rightarrow> Monitor \<Rightarrow> json \<times> Monitor" where
  "InvokeMethod index mon =
    (if bIsReceiver mon then
       if index = 1 then (Ok (Counters (mCounters1 mon)), mon)
       else if index = 2 then (Ok (Counters (mCounters2 mon)), mon)
       else if index = 3 then (OkVoid, reset_domains (mon\<lparr>mCounters1 := [], mCounters2 := []\<rparr>))
       else (Error 501 ''method not implemented'', mon)
     else
       if index = 1 then (Ok (Counters (mCounters1 mon)), mon)
       else if index = 2 then (OkVoid, reset_domains (mon\<lparr>mCounters1 := []\<rparr>))
       else (Error 501 ''method not implemented'', mon))"

definition not_implemented :: json where
  "not_implemented = Error 502 ''property not implemented''"

definition root_property :: "Is12Server \<Rightarrow> int \<Rightarrow> int \<Rightarrow> json" where
  "root_property s level index =
    (if level = 1 \<and> index = 1 then Ok (ints [1, 1])
     else if level = 1 \<and> index = 2 then Ok (JInt 1)
     else if level = 1 \<and> index = 3 then Ok (JBool True)
     else if level = 1 \<and> index = 4 then Ok JNull
     else if level = 1 \<and> index = 5 then Ok (JStr ''root'')
     else if level = 1 \<and> index = 6 then Ok (JStr ''root'')
     else if level = 1 \<and> index = 7 then Ok (JArr [])
     else if level = 2 \<and> index = 1 then Ok (members s)
     else not_implemented)"

definition manager_property :: "string \<Rightarrow> string \<Rightarrow> int \<Rightarrow> int \<Rightarrow> json" where
  "manager_property nodeId version level index =
    (if level = 1 \<and> index = 1 then Ok (ints [1, 3, 1])
     else if level = 1 \<and> index = 2 then Ok (JInt 2)
     else if level = 1 \<and> index = 5 then Ok (JStr ''DeviceManager'')
     else if level = 1 \<and> index = 6 then Ok (JStr ''device manager'')
     else if level = 1 \<and> index = 7 then Ok (JArr [])
     else if level = 3 then
       if index = 1 then Ok (JStr ''v1.0.0'')
       else if index = 2 then Ok (obj [(''name'', JStr ''pi-audio-node''), (''organizationId'', JNull), (''website'', JNull)])
       else if index = 3 then Ok (obj [(''name'', JStr ''pi-audio-node''), (''key'', JStr ''pi-audio-node''),
              (''revisionLevel'', JStr version), (''brandName'', JNull), (''uuid'', JNull), (''description'', JNull)])
       else if index = 4 then Ok (JStr nodeId)
       else if index = 8 then Ok (obj [(''generic'', JInt 1), (''deviceSpecificDetails'', JNull)])
       else if index = 9 then Ok (JInt 0)
       else Ok JNull
     else not_implemented)"

definition class_manager_property :: "int \<Rightarrow> int \<Rightarrow> json" where
  "class_manager_property level index =
    (if level = 1 \<and> index = 1 then Ok (ints [1, 3, 2])
     else if level = 1 \<and> index = 2 then Ok (JInt 3)
     else if level = 1 \<and> index = 5 then Ok (JStr ''ClassManager'')
     else if level = 1 \<and> index = 6 then Ok (JStr ''class manager'')
     else if level = 1 \<and> index = 7 then Ok (JArr [])
     else if level = 3 \<and> (index = 1 \<or> index = 2) then Ok (JArr [])
     else not_implemented)"

fun domain_property :: "Monitor \<Rightarrow> nat list \<Rightarrow> int \<Rightarrow> json option" where
  "domain_property mon [] index = None"
| "domain_property mon (d # ds) index =
    (let base = DOMAIN_BASE ! d; domn = aDomains mon ! d in
     if index = base then Some (Ok (JInt (nStatus domn)))
     else if index = base + 1 then Some (Ok (JStr (sMessage domn)))
     else if index = base + 2 then Some (Ok (JInt (uint (nTransitions domn))))
     else domain_property mon ds index)"

definition monitor_property :: "Monitor \<Rightarrow> int \<Rightarrow> int \<Rightarrow> json" where
  "monitor_property mon level index =
    (if level = 1 then
       if index = 1 then Ok (ints (if bIsReceiver mon then [1, 2, 2, 1] else [1, 2, 2, 2]))
       else if index = 2 then Ok (JInt (nOid mon))
       else if index = 3 then Ok (JBool True)
       else if index = 4 then Ok (JInt 1)
       else if index = 5 then Ok (JStr (sRole mon))
       else if index = 6 then Ok (JStr (sLabel mon))
       else if index = 7 then Ok (JArr [obj [(''contextNamespace'', JStr ''x-nmos''),
              (''resource'', obj [(''resourceType'', JStr (sTouchpointType mon)), (''id'', JStr (sTouchpointId mon))])]])
       else not_implemented
     else if level = 2 \<and> index = 1 then Ok (JBool True)
     else if level = 3 then
       if index = 1 then Ok (JInt (nOverall mon))
       else if index = 2 then Ok (JStr (sOverallMessage mon))
       else if index = 3 then Ok (JInt 3)
       else not_implemented
     else if level = 4 then
       case domain_property mon [0, 1, 2, 3] index of
         Some js \<Rightarrow> js
       | None \<Rightarrow> if index = 10 then Ok (source_json (sSyncSource mon))
                 else if index = 14 then Ok (JBool True) else not_implemented
     else not_implemented)"

definition GetProperty :: "string \<Rightarrow> string \<Rightarrow> Is12Server \<Rightarrow> int \<Rightarrow> int \<Rightarrow> int \<Rightarrow> json" where
  "GetProperty nodeId version s oid level index =
    (if oid = 1 then root_property s level index
     else if oid = 2 then manager_property nodeId version level index
     else if oid = 3 then class_manager_property level index
     else case FindMonitor oid s of
       None \<Rightarrow> Error 404 ''unknown oid''
     | Some mon \<Rightarrow> monitor_property mon level index)"

section \<open>Connections\<close>

definition WsReady :: "nat \<Rightarrow> Is12Server \<Rightarrow> Is12Server" where
  "WsReady conn s = s\<lparr>m_mSubscriptions := omap_put conn [] (m_mSubscriptions s)\<rparr>"

definition WsClose :: "nat \<Rightarrow> Is12Server \<Rightarrow> Is12Server" where
  "WsClose conn s = s\<lparr>m_mSubscriptions := omap_del conn (m_mSubscriptions s)\<rparr>"

fun accepted_oids :: "Is12Server \<Rightarrow> json list \<Rightarrow> int list outcome" where
  "accepted_oids s [] = Val []"
| "accepted_oids s (js # jss) =
    (if is_number js then
       bindO (get_int js) (\<lambda>oid. bindO (accepted_oids s jss) (\<lambda>rest.
         Val (if oid = 1 \<or> FindMonitor oid s \<noteq> None then oid # rest else rest)))
     else accepted_oids s jss)"

definition put_monitor :: "int \<Rightarrow> Monitor \<Rightarrow> Is12Server \<Rightarrow> Is12Server" where
  "put_monitor oid mon s = (if oid = nOid (m_rxMonitor s) then s\<lparr>m_rxMonitor := mon\<rparr> else s\<lparr>m_txMonitor := mon\<rparr>)"

text \<open>The dispatch of one command, after its identifiers were read.\<close>

definition dispatch ::
  "string \<Rightarrow> string \<Rightarrow> int \<Rightarrow> int \<Rightarrow> int \<Rightarrow> json \<Rightarrow> Is12Server \<Rightarrow> Is12Server \<times> json outcome" where
  "dispatch nodeId version oid level index args s =
    (if level = 1 \<and> index = 1 then
       (s, bindO (jat ''id'' args) (\<lambda>i. bindO (jvalue get_int ''level'' (-1) i) (\<lambda>l.
             bindO (jvalue get_int ''index'' (-1) i) (\<lambda>x. Val (GetProperty nodeId version s oid l x)))))
     else if level = 1 \<and> index = 2 then (s, Val (Error 405 ''property is read only''))
     else if level = 2 \<and> index = 1 \<and> oid = 1 then (s, Val (Ok (members s)))
     else case FindMonitor oid s of
       Some mon \<Rightarrow>
         if level = 4 then let (js, mon) = InvokeMethod index mon in (put_monitor oid mon s, Val js)
         else (s, Val (Error 501 ''method not implemented''))
     | None \<Rightarrow> (s, Val (Error 501 ''method not implemented'')))"

definition method_part :: "string \<Rightarrow> json \<Rightarrow> int outcome" where
  "method_part key cmd =
    (case jfind ''methodId'' cmd of Some m \<Rightarrow> jvalue get_int key (-1) m | None \<Rightarrow> Val (-1))"

definition command_ids :: "json \<Rightarrow> (int \<times> int \<times> int \<times> json) outcome" where
  "command_ids cmd =
     bindO (jvalue get_int ''oid'' (-1) cmd) (\<lambda>oid. bindO (method_part ''level'' cmd) (\<lambda>level.
       bindO (method_part ''index'' cmd) (\<lambda>index. bindO (jvalue Val ''arguments'' (JObj []) cmd) (\<lambda>args.
         Val (oid, level, index, args)))))"

text \<open>The commands of a message; effects of the commands before an exception remain.\<close>

fun commands :: "string \<Rightarrow> string \<Rightarrow> json list \<Rightarrow> Is12Server \<Rightarrow> Is12Server \<times> json list outcome" where
  "commands nodeId version [] s = (s, Val [])"
| "commands nodeId version (cmd # cmds) s =
    (case command_ids cmd of
       Val (oid, level, index, args) \<Rightarrow>
         (let (s, res) = dispatch nodeId version oid level index args s in
          case bindO res (\<lambda>r. bindO (jvalue get_int ''handle'' 0 cmd) (\<lambda>h.
                 Val (obj [(''handle'', JInt h), (''result'', r)]))) of
            Val r \<Rightarrow> (let (s, rest) = commands nodeId version cmds s in (s, bindO rest (\<lambda>rs. Val (r # rs))))
          | Throw \<Rightarrow> (s, Throw)
          | Undef \<Rightarrow> (s, Undef))
     | Throw \<Rightarrow> (s, Throw)
     | Undef \<Rightarrow> (s, Undef))"

definition is12_HandleMessage ::
  "string \<Rightarrow> string \<Rightarrow> nat \<Rightarrow> json \<Rightarrow> Is12Server \<Rightarrow> Is12Server \<times> sends outcome" where
  "is12_HandleMessage nodeId version conn js s =
    (case jvalue get_int ''messageType'' (-1) js of
       Val nType \<Rightarrow>
         if nType = 3 then
           (case bindO (jvalue Val ''subscriptions'' (JArr []) js) (\<lambda>subs. accepted_oids s (jelems subs)) of
              Val oids \<Rightarrow> (s\<lparr>m_mSubscriptions := omap_put conn oids (m_mSubscriptions s)\<rparr>,
                           Val [(conn, obj [(''messageType'', JInt 4), (''subscriptions'', ints oids)])])
            | Throw \<Rightarrow> (s, Throw)
            | Undef \<Rightarrow> (s, Undef))
         else if nType \<noteq> 0 then
           (s, Val [(conn, obj [(''messageType'', JInt 5), (''status'', JInt 400), (''errorMessage'', JStr ''unsupported messageType'')])])
         else
           (case jvalue Val ''commands'' (JArr []) js of
              Val cmds \<Rightarrow>
                (let (s, rs) = commands nodeId version (jelems cmds) s
                 in (s, bindO rs (\<lambda>rs. Val [(conn, obj [(''messageType'', JInt 1), (''responses'', JArr rs)])])))
            | Throw \<Rightarrow> (s, Throw)
            | Undef \<Rightarrow> (s, Undef))
     | Throw \<Rightarrow> (s, Throw)
     | Undef \<Rightarrow> (s, Undef))"

text \<open>
  A websocket frame: \<open>parsed\<close> is the parser's result, \<open>None\<close> for a syntax error, and \<open>what\<close> the text
  of the exception.
\<close>

definition WsData ::
  "string \<Rightarrow> string \<Rightarrow> string \<Rightarrow> nat \<Rightarrow> nat \<Rightarrow> json option \<Rightarrow> Is12Server \<Rightarrow> Is12Server \<times> sends outcome" where
  "WsData nodeId version what conn nBits parsed s =
    (if nBits mod 16 \<noteq> 1 then (s, Val [])
     else
       let (s, out) = (case parsed of None \<Rightarrow> (s, Throw) | Some js \<Rightarrow> is12_HandleMessage nodeId version conn js s)
       in (s, catchO out [(conn, obj [(''messageType'', JInt 5), (''status'', JInt 400), (''errorMessage'', JStr what)])]))"

definition dump_monitor :: "Monitor \<Rightarrow> json" where
  "dump_monitor mon =
    (let domn = (\<lambda>d. obj [(''status'', JInt (nStatus (aDomains mon ! d))), (''message'', JStr (sMessage (aDomains mon ! d))),
                        (''transitions'', JInt (uint (nTransitions (aDomains mon ! d))))])
     in obj [(''overall'', JInt (nOverall mon)), (''overall_message'', JStr (sOverallMessage mon)),
             (''link'', domn 0), (''path'', domn 1), (''sync'', domn 2), (''stream'', domn 3),
             (''counters'', Counters (mCounters1 mon)), (''counters2'', Counters (mCounters2 mon))])"

definition GetMonitorJson :: "Is12Server \<Rightarrow> json" where
  "GetMonitorJson s = obj [(''receiver'', dump_monitor (m_rxMonitor s)), (''sender'', dump_monitor (m_txMonitor s))]"

section \<open>Single updates\<close>

text \<open>What an update makes of its own domain, without the messages it sends.\<close>

definition domain_step :: "int \<Rightarrow> int \<Rightarrow> string \<Rightarrow> McDomain \<Rightarrow> McDomain" where
  "domain_step now st msg d =
    (let (d, held) = hold now st d in
     if held then d
     else d\<lparr>nPendingStatus := -1,
            nTransitions := (if nStatus d < st \<and> nStatus d \<noteq> 0 then nTransitions d + 1 else nTransitions d),
            nStatus := st, sMessage := msg\<rparr>)"

text \<open>The overall status as the comment above the function defines it.\<close>

definition active_statuses :: "Monitor \<Rightarrow> int set" where
  "active_statuses mon = {nStatus (aDomains mon ! PATH), nStatus (aDomains mon ! LINK)}
     \<union> {s. s \<noteq> 0 \<and> (s = nStatus (aDomains mon ! SYNC) \<or> s = nStatus (aDomains mon ! STREAM))}"

definition overall_status :: "Monitor \<Rightarrow> int" where
  "overall_status mon = (if nStatus (aDomains mon ! PATH) = 0 then 0 else Max (active_statuses mon))"

lemma Notify_empty [simp]: "Notify [] oid level index v = []"
  by (simp add: Notify_def)

lemma worst_of_Max:
  assumes "nStatus (aDomains mon ! PATH) \<noteq> 0"
  shows "fst (worst_of mon [LINK, SYNC, STREAM] (nStatus (aDomains mon ! PATH)) msg) = overall_status mon"
proof -
  have eq: "active_statuses mon = {nStatus (aDomains mon ! PATH), nStatus (aDomains mon ! LINK)}
      \<union> (if nStatus (aDomains mon ! SYNC) = 0 then {} else {nStatus (aDomains mon ! SYNC)})
      \<union> (if nStatus (aDomains mon ! STREAM) = 0 then {} else {nStatus (aDomains mon ! STREAM)})"
    by (auto simp: active_statuses_def)
  show ?thesis using assms unfolding overall_status_def eq by (simp add: Let_def max_def)
qed

lemma overall_of_status: "fst (overall_of mon) = overall_status mon"
  using worst_of_Max [of mon "sMessage (aDomains mon ! PATH)"]
  by (simp add: overall_of_def overall_status_def Let_def del: worst_of.simps)

lemma RecomputeOverall_monitor:
  "fst (RecomputeOverall subs mon) = mon\<lparr>nOverall := overall_status mon, sOverallMessage := snd (overall_of mon)\<rparr>"
  using overall_of_status [of mon] by (cases "overall_of mon") (simp add: RecomputeOverall_def Let_def)

text \<open>The notifications of an update before the overall status is computed.\<close>

definition domain_notes :: "subscriptions \<Rightarrow> int \<Rightarrow> int \<Rightarrow> McDomain \<Rightarrow> int \<Rightarrow> string \<Rightarrow> sends" where
  "domain_notes subs oid base d st msg =
     (if nStatus d \<noteq> st then
        (if nStatus d < st \<and> nStatus d \<noteq> 0 then Notify subs oid 4 (base + 2) (JInt (uint (nTransitions d + 1))) else [])
        @ Notify subs oid 4 base (JInt st) else [])
     @ (if sMessage d \<noteq> msg then Notify subs oid 4 (base + 1) (JStr msg) else [])"

lemma hold_same:
  "hold now st d = (d', held) \<Longrightarrow> nStatus d' = nStatus d \<and> sMessage d' = sMessage d \<and> nTransitions d' = nTransitions d"
  by (auto simp: hold_def Let_def split: if_splits)

lemma status_same: "nStatus d = st \<Longrightarrow> d\<lparr>nPendingStatus := p, nStatus := st, sMessage := m\<rparr> = d\<lparr>nPendingStatus := p, sMessage := m\<rparr>"
  "sMessage d = m \<Longrightarrow> d\<lparr>nPendingStatus := p, nStatus := st, sMessage := m\<rparr> = d\<lparr>nPendingStatus := p, nStatus := st\<rparr>"
  "sMessage d = m \<Longrightarrow> d\<lparr>nPendingStatus := p, nTransitions := n, nStatus := st, sMessage := m\<rparr> = d\<lparr>nPendingStatus := p, nTransitions := n, nStatus := st\<rparr>"
  "sMessage d = m \<Longrightarrow> d\<lparr>nPendingStatus := p, sMessage := m\<rparr> = d\<lparr>nPendingStatus := p\<rparr>"
  "nStatus d = st \<Longrightarrow> d\<lparr>nPendingStatus := p, nStatus := st\<rparr> = d\<lparr>nPendingStatus := p\<rparr>"
  by simp_all

text \<open>An update is either held back, or it sets its domain, announces that and computes the overall status.\<close>

lemma UpdateDomain_held:
  "snd (hold now st (aDomains mon ! d))
    \<Longrightarrow> UpdateDomain now subs d st msg mon = (set_domain d (domain_step now st msg (aDomains mon ! d)) mon, [])"
  by (cases "hold now st (aDomains mon ! d)") (simp add: UpdateDomain_def domain_step_def)

lemma UpdateDomain_released:
  assumes "\<not> snd (hold now st (aDomains mon ! d))" "mon1 = set_domain d (domain_step now st msg (aDomains mon ! d)) mon"
  shows "UpdateDomain now subs d st msg mon =
    (fst (RecomputeOverall subs mon1),
     domain_notes subs (nOid mon) (DOMAIN_BASE ! d) (aDomains mon ! d) st msg @ snd (RecomputeOverall subs mon1))"
proof -
  obtain d' where h: "hold now st (aDomains mon ! d) = (d', False)"
    using assms(1) by (cases "hold now st (aDomains mon ! d)") auto
  note same = hold_same [OF h]
  have announced: "domain_notes subs (nOid mon) (DOMAIN_BASE ! d) (aDomains mon ! d) st msg
      = domain_notes subs (nOid mon) (DOMAIN_BASE ! d) d' st msg"
    using same by (simp add: domain_notes_def)
  show ?thesis
    unfolding announced unfolding UpdateDomain_def assms(2) domain_notes_def domain_step_def h Let_def
    by (cases "nStatus d' = st"; cases "sMessage d' = msg"; cases "nStatus d' < st"; cases "nStatus d' = 0")
      (simp_all add: case_prod_unfold status_same)
qed

lemma UpdateDomain_monitor:
  obtains n m where "fst (UpdateDomain now subs d st msg mon)
      = (set_domain d (domain_step now st msg (aDomains mon ! d)) mon)\<lparr>nOverall := n, sOverallMessage := m\<rparr>"
    "nOverall mon = overall_status mon \<Longrightarrow> d < length (aDomains mon)
      \<Longrightarrow> n = overall_status (set_domain d (domain_step now st msg (aDomains mon ! d)) mon)"
proof (cases "snd (hold now st (aDomains mon ! d))")
  case True
  have "nStatus (domain_step now st msg (aDomains mon ! d)) = nStatus (aDomains mon ! d)"
    using True hold_same by (cases "hold now st (aDomains mon ! d)") (auto simp: domain_step_def)
  then have "nStatus ((aDomains mon)[d := domain_step now st msg (aDomains mon ! d)] ! i) = nStatus (aDomains mon ! i)"
    if "d < length (aDomains mon)" for i
    using that by (cases "i = d") auto
  then have "overall_status (set_domain d (domain_step now st msg (aDomains mon ! d)) mon) = overall_status mon"
    if "d < length (aDomains mon)"
    using that by (simp add: set_domain_def overall_status_def active_statuses_def)
  then show ?thesis
    using that [of "sOverallMessage mon" "nOverall mon"] True by (simp add: UpdateDomain_held set_domain_def)
next
  case False
  then show ?thesis using that by (simp add: UpdateDomain_released [OF False refl] RecomputeOverall_monitor)
qed

lemma UpdateDomain_domains:
  "aDomains (fst (UpdateDomain now subs d st msg mon)) = (aDomains mon)[d := domain_step now st msg (aDomains mon ! d)]"
  by (rule UpdateDomain_monitor [of now subs d st msg mon]) (simp add: set_domain_def)

lemma UpdateDomain_keeps:
  "nOid (fst (UpdateDomain now subs d st msg mon)) = nOid mon"
  "bIsReceiver (fst (UpdateDomain now subs d st msg mon)) = bIsReceiver mon"
  by (rule UpdateDomain_monitor [of now subs d st msg mon], simp add: set_domain_def)+

lemma UpdateDomain_overall:
  assumes "d < length (aDomains mon)" "nOverall mon = overall_status mon"
  shows "nOverall (fst (UpdateDomain now subs d st msg mon)) = overall_status (fst (UpdateDomain now subs d st msg mon))"
  by (rule UpdateDomain_monitor [of now subs d st msg mon])
    (use assms in \<open>simp add: set_domain_def overall_status_def active_statuses_def\<close>)
section \<open>Messages of controllers\<close>

text \<open>What a monitor reports of its status; a controller's reset touches the other fields only.\<close>

definition reported :: "Monitor \<Rightarrow> int list \<times> int \<times> string \<times> string option \<times> int \<times> bool" where
  "reported mon = (map nStatus (aDomains mon), nOverall mon, sOverallMessage mon, sSyncSource mon, nOid mon, bIsReceiver mon)"

definition reported_all :: "Is12Server \<Rightarrow> (int list \<times> int \<times> string \<times> string option \<times> int \<times> bool) \<times> (int list \<times> int \<times> string \<times> string option \<times> int \<times> bool)" where
  "reported_all s = (reported (m_rxMonitor s), reported (m_txMonitor s))"

lemma InvokeMethod_reported: "reported (snd (InvokeMethod index mon)) = reported mon"
  by (simp add: InvokeMethod_def reported_def reset_domains_def)

lemma dispatch_reported: "reported_all (fst (dispatch nodeId version oid level index args s)) = reported_all s"
  using InvokeMethod_reported
  by (auto simp: dispatch_def reported_all_def put_monitor_def FindMonitor_def case_prod_unfold Let_def split: option.splits if_splits)

lemma dispatch_subscriptions:
  "m_mSubscriptions (fst (dispatch nodeId version oid level index args s)) = m_mSubscriptions s"
  by (auto simp: dispatch_def put_monitor_def case_prod_unfold Let_def split: option.splits)

lemma commands_reported:
  "reported_all (fst (commands nodeId version cmds s)) = reported_all s
    \<and> m_mSubscriptions (fst (commands nodeId version cmds s)) = m_mSubscriptions s"
proof (induction cmds arbitrary: s)
  case (Cons cmd cmds)
  show ?case
  proof (cases "command_ids cmd")
    case (Val x)
    obtain oid level index args where x: "x = (oid, level, index, args)" by (cases x)
    obtain s' res where d: "dispatch nodeId version oid level index args s = (s', res)" by fastforce
    have "reported_all s' = reported_all s" "m_mSubscriptions s' = m_mSubscriptions s"
      using dispatch_reported dispatch_subscriptions d by (metis fst_conv)+
    then show ?thesis
      using Cons [of s'] Val x d by (auto simp: Let_def case_prod_unfold split: outcome.splits)
  qed auto
qed simp

lemma HandleMessage_reported:
  "reported_all (fst (is12_HandleMessage nodeId version conn js s)) = reported_all s"
  using commands_reported
  by (auto simp: is12_HandleMessage_def Let_def case_prod_unfold reported_all_def split: outcome.splits)

lemma HandleMessage_subscriptions:
  "omap_ok (m_mSubscriptions s) \<Longrightarrow> omap_ok (m_mSubscriptions (fst (is12_HandleMessage nodeId version conn js s)))"
  "conn' \<noteq> conn \<Longrightarrow> omap_ok (m_mSubscriptions s)
    \<Longrightarrow> map_of (m_mSubscriptions (fst (is12_HandleMessage nodeId version conn js s))) conn' = map_of (m_mSubscriptions s) conn'"
  using commands_reported
  by (auto simp: is12_HandleMessage_def Let_def case_prod_unfold map_of_omap_put split: outcome.splits)

lemma WsData_state:
  "fst (WsData nodeId version what conn nBits parsed s)
    = (if nBits mod 16 = 1 then case parsed of None \<Rightarrow> s | Some js \<Rightarrow> fst (is12_HandleMessage nodeId version conn js s) else s)"
  by (simp add: WsData_def Let_def case_prod_unfold split: option.splits)

section \<open>Reachable states\<close>

inductive is12_reachable :: "string \<Rightarrow> string \<Rightarrow> Is12Server \<Rightarrow> bool" for rid sid where
  start: "is12_reachable rid sid (init_is12 rid sid)"
| receiver: "is12_reachable rid sid s \<Longrightarrow> d < 4 \<Longrightarrow> is12_reachable rid sid (fst (UpdateReceiverDomain now d st msg s))"
| sender: "is12_reachable rid sid s \<Longrightarrow> d < 4 \<Longrightarrow> is12_reachable rid sid (fst (UpdateSenderDomain now d st msg s))"
| sync: "is12_reachable rid sid s \<Longrightarrow> is12_reachable rid sid (fst (SetSyncSource src s))"
| lost: "is12_reachable rid sid s \<Longrightarrow> is12_reachable rid sid (AddReceiverLost leg n s)"
| late: "is12_reachable rid sid s \<Longrightarrow> is12_reachable rid sid (AddReceiverLate n s)"
| errors: "is12_reachable rid sid s \<Longrightarrow> is12_reachable rid sid (AddSenderErrors c n s)"
| ready: "is12_reachable rid sid s \<Longrightarrow> is12_reachable rid sid (WsReady conn s)"
| close: "is12_reachable rid sid s \<Longrightarrow> is12_reachable rid sid (WsClose conn s)"
| data: "is12_reachable rid sid s \<Longrightarrow> is12_reachable rid sid (fst (WsData nodeId version what conn nBits parsed s))"

definition monitor_inv :: "Monitor \<Rightarrow> bool" where
  "monitor_inv mon \<longleftrightarrow> length (aDomains mon) = 4 \<and> nOverall mon = overall_status mon"

definition is12_inv :: "Is12Server \<Rightarrow> bool" where
  "is12_inv s \<longleftrightarrow> monitor_inv (m_rxMonitor s) \<and> monitor_inv (m_txMonitor s) \<and> nOid (m_rxMonitor s) = 10
     \<and> nOid (m_txMonitor s) = 11 \<and> bIsReceiver (m_rxMonitor s) \<and> \<not> bIsReceiver (m_txMonitor s) \<and> omap_ok (m_mSubscriptions s)"

lemma monitor_inv_cong:
  assumes "monitor_inv mon" "map nStatus (aDomains mon') = map nStatus (aDomains mon)" "nOverall mon' = nOverall mon"
  shows "monitor_inv mon'"
proof -
  have len: "length (aDomains mon') = 4" using assms(1,2) by (metis length_map monitor_inv_def)
  then have "nStatus (aDomains mon' ! i) = nStatus (aDomains mon ! i)" if "i < 4" for i
    using that assms(1,2) by (metis monitor_inv_def nth_map)
  then show ?thesis
    using assms(1,3) len by (simp add: monitor_inv_def overall_status_def active_statuses_def)
qed

lemma monitor_inv_fields [simp]:
  "monitor_inv (mon\<lparr>sSyncSource := x\<rparr>) = monitor_inv mon"
  "monitor_inv (mon\<lparr>mCounters1 := c\<rparr>) = monitor_inv mon"
  "monitor_inv (mon\<lparr>mCounters2 := c\<rparr>) = monitor_inv mon"
  by (simp_all add: monitor_inv_def overall_status_def active_statuses_def)

lemma monitor_inv_reported: "reported mon' = reported mon \<Longrightarrow> monitor_inv mon \<Longrightarrow> monitor_inv mon'"
  by (rule monitor_inv_cong) (auto simp: reported_def)

lemma UpdateDomain_inv: "monitor_inv mon \<Longrightarrow> d < 4 \<Longrightarrow> monitor_inv (fst (UpdateDomain now subs d st msg mon))"
  using UpdateDomain_overall UpdateDomain_domains by (simp add: monitor_inv_def)

lemma is12_inv_reported:
  assumes "is12_inv s" "reported_all s' = reported_all s" "omap_ok (m_mSubscriptions s')"
  shows "is12_inv s'"
proof -
  have r: "reported (m_rxMonitor s') = reported (m_rxMonitor s)" "reported (m_txMonitor s') = reported (m_txMonitor s)"
    using assms(2) by (auto simp: reported_all_def)
  then have "monitor_inv (m_rxMonitor s')" "monitor_inv (m_txMonitor s')"
    using assms(1) monitor_inv_reported by (auto simp: is12_inv_def)
  then show ?thesis using assms r by (auto simp: is12_inv_def reported_def)
qed

lemma sync_source_keeps:
  "monitor_inv (fst (sync_source subs src mon)) = monitor_inv mon" "nOid (fst (sync_source subs src mon)) = nOid mon"
  "bIsReceiver (fst (sync_source subs src mon)) = bIsReceiver mon"
  by (simp_all add: sync_source_def)

lemma is12_reachable_inv: "is12_reachable rid sid s \<Longrightarrow> is12_inv s"
proof (induction rule: is12_reachable.induct)
  case start
  show ?case
    by (simp add: is12_inv_def init_is12_def init_monitor_def monitor_inv_def overall_status_def init_domain_def)
next
  case (receiver s d now st msg)
  then show ?case by (simp add: UpdateReceiverDomain_def is12_inv_def Let_def case_prod_unfold UpdateDomain_inv UpdateDomain_keeps)
next
  case (sender s d now st msg)
  then show ?case by (simp add: UpdateSenderDomain_def is12_inv_def Let_def case_prod_unfold UpdateDomain_inv UpdateDomain_keeps)
next
  case (sync s src)
  then show ?case by (simp add: sync_source_keeps SetSyncSource_def is12_inv_def Let_def case_prod_unfold)
next
  case (lost s leg n)
  then show ?case by (simp add: AddReceiverLost_def is12_inv_def)
next
  case (late s n)
  then show ?case by (simp add: AddReceiverLate_def is12_inv_def)
next
  case (errors s c n)
  then show ?case by (simp add: AddSenderErrors_def is12_inv_def)
next
  case (ready s conn)
  then show ?case by (simp add: WsReady_def is12_inv_def)
next
  case (close s conn)
  then show ?case by (simp add: WsClose_def is12_inv_def)
next
  case (data s nodeId version what conn nBits parsed)
  have "is12_inv (fst (is12_HandleMessage nodeId version conn js s))" for js
    using data HandleMessage_reported HandleMessage_subscriptions(1)
    by (intro is12_inv_reported [OF data.IH]) (simp_all add: is12_inv_def)
  with data show ?case by (simp add: WsData_state split: option.split)
qed

text \<open>
  C15. Whatever updates and controller messages have happened, the overall status of each monitor
  is the worst status of its active domains, and it is inactive exactly as long as the path is.
\<close>

theorem overall_is_worst:
  assumes "is12_reachable rid sid s" "mon = m_rxMonitor s \<or> mon = m_txMonitor s"
  shows "(nStatus (aDomains mon ! PATH) = 0 \<longrightarrow> nOverall mon = 0)
    \<and> (nStatus (aDomains mon ! PATH) \<noteq> 0 \<longrightarrow> nOverall mon \<in> active_statuses mon \<and> (\<forall>st \<in> active_statuses mon. st \<le> nOverall mon))"
proof -
  have "nOverall mon = overall_status mon" using is12_reachable_inv [OF assms(1)] assms(2) by (auto simp: is12_inv_def monitor_inv_def)
  moreover have "finite (active_statuses mon)" "active_statuses mon \<noteq> {}" by (auto simp: active_statuses_def)
  ultimately show ?thesis by (simp add: overall_status_def)
qed
theorem overall_is_worst_witness:
  "(let s = fst (UpdateReceiverDomain 5 STREAM 1 [] (fst (UpdateReceiverDomain 4 PATH 1 ''ok'' (init_is12 [] []))));
        mon = m_rxMonitor s
    in nStatus (aDomains mon ! PATH) = 1 \<and> nOverall mon = 1 \<and> nOverall mon \<in> active_statuses mon)"
proof -
  let ?s = "fst (UpdateReceiverDomain 5 STREAM 1 [] (fst (UpdateReceiverDomain 4 PATH 1 ''ok'' (init_is12 [] []))))"
  have "is12_reachable [] [] ?s" by (intro is12_reachable.intros) simp_all
  from overall_is_worst [OF this, of "m_rxMonitor ?s"] have
    "nStatus (aDomains (m_rxMonitor ?s) ! PATH) \<noteq> 0 \<longrightarrow> nOverall (m_rxMonitor ?s) \<in> active_statuses (m_rxMonitor ?s)" by blast
  moreover have "nStatus (aDomains (m_rxMonitor ?s) ! PATH) = 1" "nOverall (m_rxMonitor ?s) = 1" by code_simp+
  ultimately show ?thesis by (simp add: Let_def)
qed

section \<open>The reporting delay\<close>

text \<open>A sequence of updates of one monitor: time, domain, status and message.\<close>

type_synonym update = "int \<times> nat \<times> int \<times> string"

definition run_updates :: "subscriptions \<Rightarrow> update list \<Rightarrow> Monitor \<Rightarrow> Monitor" where
  "run_updates subs us mon = fold (\<lambda>(t, d, st, msg) m. fst (UpdateDomain t subs d st msg m)) us mon"

definition updates_of :: "nat \<Rightarrow> update list \<Rightarrow> update list" where
  "updates_of d us = filter (\<lambda>(t, d', st, msg). d' = d) us"

text \<open>\<open>steadily st t us\<close>: the updates end with a stretch of status \<open>st\<close> that began at \<open>t\<close>.\<close>

definition steadily :: "int \<Rightarrow> int \<Rightarrow> update list \<Rightarrow> bool" where
  "steadily st t us \<longleftrightarrow> (\<exists>us1 us2. us = us1 @ us2 \<and> us2 \<noteq> [] \<and> fst (hd us2) = t \<and> (\<forall>(t', d, st', msg) \<in> set us2. st' = st))"

lemma run_updates_snoc:
  "run_updates subs (us @ [(t, d, st, msg)]) mon = fst (UpdateDomain t subs d st msg (run_updates subs us mon))"
  by (simp add: run_updates_def)

lemma steadily_snoc: "steadily st t us \<Longrightarrow> steadily st t (us @ [(t', d, st, msg)])"
  unfolding steadily_def by (elim exE conjE, rule_tac x = us1 in exI, rule_tac x = "us2 @ [(t', d, st, msg)]" in exI) auto

lemma steadily_new: "steadily st t (us @ [(t, d, st, msg)])"
  unfolding steadily_def by (rule exI [of _ us], rule exI [of _ "[(t, d, st, msg)]"]) auto

lemma domain_step_pending:
  "nPendingStatus (domain_step now st msg d) \<noteq> -1 \<Longrightarrow> nPendingStatus (domain_step now st msg d) = st
    \<and> pendingSince (domain_step now st msg d) = (if nPendingStatus d = st then pendingSince d else now)"
  by (auto simp: domain_step_def hold_def Let_def split: if_splits)

lemma domain_step_raise:
  "nStatus d < nStatus (domain_step now st msg d) \<Longrightarrow> nStatus (domain_step now st msg d) = st
    \<and> (1 < st \<longrightarrow> nPendingStatus d = st \<and> 3000000000 \<le> now - pendingSince d)"
  by (auto simp: domain_step_def hold_def Let_def split: if_splits)

text \<open>A domain sees its own updates only.\<close>

definition run_domain :: "update list \<Rightarrow> McDomain \<Rightarrow> McDomain" where
  "run_domain us = fold (\<lambda>(t, d, st, msg). domain_step t st msg) us"

lemma run_domain_simps [simp]:
  "run_domain [] d = d" "run_domain [(t, d', st, msg)] d = domain_step t st msg d"
  "run_domain (us @ [(t, d', st, msg)]) d = domain_step t st msg (run_domain us d)"
  by (simp_all add: run_domain_def)

lemma run_updates_domains:
  assumes "length (aDomains mon) = 4" "\<forall>(t, d, st, msg) \<in> set us. d < 4" "d < 4"
  shows "length (aDomains (run_updates subs us mon)) = 4
    \<and> aDomains (run_updates subs us mon) ! d = run_domain (updates_of d us) (aDomains mon ! d)"
  using assms(2)
proof (induction us rule: rev_induct)
  case Nil
  then show ?case using assms(1) by (simp add: run_updates_def updates_of_def)
next
  case (snoc u us)
  obtain t d' st msg where u: "u = (t, d', st, msg)" by (cases u)
  have len: "length (aDomains (run_updates subs us mon)) = 4" and d': "d' < 4"
    and IH: "aDomains (run_updates subs us mon) ! d = run_domain (updates_of d us) (aDomains mon ! d)"
    using snoc u by auto
  show ?case
    using UpdateDomain_domains len d' IH
    by (cases "d' = d") (simp_all add: u run_updates_snoc updates_of_def)
qed

lemma pending_is_steady:
  assumes "nPendingStatus d = -1" "nPendingStatus (run_domain us d) \<noteq> -1"
  shows "steadily (nPendingStatus (run_domain us d)) (pendingSince (run_domain us d)) us"
  using assms(2)
proof (induction us rule: rev_induct)
  case Nil
  then show ?case using assms(1) by simp
next
  case (snoc u us)
  obtain t d' st msg where u: "u = (t, d', st, msg)" by (cases u)
  have pend: "nPendingStatus (run_domain (us @ [u]) d) = st"
    "pendingSince (run_domain (us @ [u]) d) = (if nPendingStatus (run_domain us d) = st then pendingSince (run_domain us d) else t)"
    "st \<noteq> -1"
    using domain_step_pending [of t st msg "run_domain us d"] snoc.prems by (simp_all add: u)
  show ?case
    using snoc.IH pend steadily_new steadily_snoc by (cases "nPendingStatus (run_domain us d) = st") (auto simp: u)
qed

text \<open>
  C16. The reporting delay: when an update makes a domain less healthy than before, and less than
  healthy, then the status it reports is the one that every update of this domain gave for at
  least three seconds, from some update at time \<open>t\<close> on.  Transients are never reported.
\<close>

theorem reporting_delay:
  assumes "length (aDomains mon) = 4" "d < 4" "nPendingStatus (aDomains mon ! d) = -1"
    and "\<forall>(t, d, st, msg) \<in> set us. d < 4" "mon' = run_updates subs us mon"
    and "mon'' = fst (UpdateDomain now subs d st msg mon')"
    and "nStatus (aDomains mon' ! d) < nStatus (aDomains mon'' ! d)" "1 < nStatus (aDomains mon'' ! d)"
  shows "nStatus (aDomains mon'' ! d) = st \<and> (\<exists>t. t + 3000000000 \<le> now \<and> steadily st t (updates_of d us))"
proof -
  have run: "length (aDomains mon') = 4" "aDomains mon' ! d = run_domain (updates_of d us) (aDomains mon ! d)"
    using run_updates_domains assms by blast+
  then have dom: "aDomains mon'' ! d = domain_step now st msg (aDomains mon' ! d)"
    using assms(2,6) UpdateDomain_domains by simp
  note r = domain_step_raise [OF assms(7) [unfolded dom]]
  have p: "nPendingStatus (aDomains mon' ! d) = st" "3000000000 \<le> now - pendingSince (aDomains mon' ! d)" "st \<noteq> -1"
    using r assms(8) dom by auto
  then have "steadily st (pendingSince (aDomains mon' ! d)) (updates_of d us)"
    using pending_is_steady [OF assms(3), of "updates_of d us"] run(2) by simp
  then show ?thesis using r dom p by (intro conjI exI [of _ "pendingSince (aDomains mon' ! d)"]) auto
qed

theorem reporting_delay_witness:
  "(let us = [(0, PATH, 3, ''no packets''), (1000000000, SYNC, 1, []), (2000000000, PATH, 3, ''no packets'')];
        mon = run_updates [] us (m_rxMonitor (init_is12 [] []))
    in nStatus (aDomains mon ! PATH) = 0
       \<and> nStatus (aDomains (fst (UpdateDomain 3000000000 [] PATH 3 [] mon)) ! PATH) = 3
       \<and> (\<exists>t. t + 3000000000 \<le> 3000000000 \<and> steadily 3 t (updates_of PATH us)))"
proof -
  let ?us = "[(0, PATH, 3, ''no packets''), (1000000000, SYNC, 1, []), (2000000000, PATH, 3, ''no packets'')]"
  let ?m = "run_updates [] ?us (m_rxMonitor (init_is12 [] []))"
  have "nStatus (aDomains ?m ! PATH) = 0" "nStatus (aDomains (fst (UpdateDomain 3000000000 [] PATH 3 [] ?m)) ! PATH) = 3"
    by code_simp+
  moreover from this have "\<exists>t. t + 3000000000 \<le> 3000000000 \<and> steadily 3 t (updates_of PATH ?us)"
    using reporting_delay [of "m_rxMonitor (init_is12 [] [])" PATH ?us ?m "[]" _ 3000000000 3 "[]"]
    by (simp add: init_is12_def init_monitor_def init_domain_def)
  ultimately show ?thesis by (simp add: Let_def)
qed

lemma run_domain_steady:
  assumes "nPendingStatus d = -1" "us \<noteq> []" "\<forall>(t, d, st', msg) \<in> set us. st' = st"
  shows "nStatus (run_domain us d) = st
    \<or> (nPendingStatus (run_domain us d) = st \<and> pendingSince (run_domain us d) = fst (hd us))"
  using assms(2,3)
proof (induction us rule: rev_induct)
  case (snoc u us)
  obtain t d' msg where u: "u = (t, d', st, msg)" using snoc.prems by (cases u) auto
  have step: "nStatus (domain_step t st msg e) = st \<or> (nPendingStatus (domain_step t st msg e) = st
      \<and> pendingSince (domain_step t st msg e) = (if nPendingStatus e = st then pendingSince e else t))" for e
    by (auto simp: domain_step_def hold_def Let_def)
  have stay: "nStatus (domain_step t st msg e) = st" if "nStatus e = st \<or> st \<le> 1" for e
    using that by (auto simp: domain_step_def hold_def)
  show ?case
  proof (cases "us = []")
    case True
    then show ?thesis using step [of d] assms(1) stay [of d] by (cases "st = -1") (auto simp: u)
  next
    case False
    then have "nStatus (run_domain us d) = st
        \<or> (nPendingStatus (run_domain us d) = st \<and> pendingSince (run_domain us d) = fst (hd us))"
      using snoc by auto
    then show ?thesis using step [of "run_domain us d"] stay [of "run_domain us d"] False by (auto simp: u)
  qed
qed simp

text \<open>
  A status that persists is reported: once the updates of a domain have all given one status
  for three seconds, the next update with it makes it the reported one, with its message.  (A
  status that is not worse than the reported one, or healthy, is reported at once.)
\<close>

theorem persistent_status_reported:
  assumes "length (aDomains mon) = 4" "d < 4" "nPendingStatus (aDomains mon ! d) = -1"
    and "\<forall>(t, d, st, msg) \<in> set us. d < 4" "mon' = fst (UpdateDomain now subs d st msg (run_updates subs us mon))"
    and "(updates_of d us \<noteq> [] \<and> fst (hd (updates_of d us)) + 3000000000 \<le> now
            \<and> (\<forall>(t, d, st', msg) \<in> set (updates_of d us). st' = st))
         \<or> st \<le> 1 \<or> st \<le> nStatus (aDomains (run_updates subs us mon) ! d)"
  shows "nStatus (aDomains mon' ! d) = st \<and> sMessage (aDomains mon' ! d) = msg"
proof -
  let ?d = "run_domain (updates_of d us) (aDomains mon ! d)"
  have run: "length (aDomains (run_updates subs us mon)) = 4" "aDomains (run_updates subs us mon) ! d = ?d"
    using run_updates_domains assms by blast+
  then have dom: "aDomains mon' ! d = domain_step now st msg ?d"
    using assms(2,5) UpdateDomain_domains by simp
  have "st \<le> 1 \<or> st \<le> nStatus ?d \<or> (nPendingStatus ?d = st \<and> pendingSince ?d + 3000000000 \<le> now)"
    using assms(6) run_domain_steady [OF assms(3), of "updates_of d us" st] run(2) by fastforce
  then show ?thesis unfolding dom by (auto simp: domain_step_def hold_def Let_def)
qed

theorem persistent_status_reported_witness:
  "(let us = [(0, PATH, 3, ''no packets''), (1000000000, SYNC, 1, []), (2000000000, PATH, 3, ''no packets'')];
        mon = fst (UpdateDomain 3000000000 [] PATH 3 ''gone'' (run_updates [] us (m_rxMonitor (init_is12 [] []))))
    in nStatus (aDomains mon ! PATH) = 3 \<and> sMessage (aDomains mon ! PATH) = ''gone'')"
  unfolding Let_def
  by (rule persistent_status_reported [OF _ _ _ _ refl])
    (simp_all add: init_is12_def init_monitor_def init_domain_def updates_of_def)

text \<open>
  A domain that alternates between partially healthy and unhealthy is never reported as
  anything but what it was before, however long that lasts and whenever the updates come: each
  update restarts the delay of the other.
\<close>

theorem flapping_never_reported:
  assumes "length (aDomains mon) = 4" "d < 4" "nStatus (aDomains mon ! d) \<le> 1" "nPendingStatus (aDomains mon ! d) = -1"
  shows "nStatus (aDomains (run_updates subs (map (\<lambda>i. (time i, d, if even i then 2 else 3, msg i)) [0..<n]) mon) ! d)
    = nStatus (aDomains mon ! d)"
proof -
  let ?u = "\<lambda>i. (time i, d, if even i then 2 else 3, msg i)"
  let ?us = "map ?u [0..<n]"
  have flap: "nStatus (run_domain (map ?u [0..<k]) e) = nStatus e
      \<and> nPendingStatus (run_domain (map ?u [0..<k]) e) = (if k = 0 then -1 else if even k then 3 else 2)"
    if e: "nStatus e \<le> 1" "nPendingStatus e = -1" for k e
    using e by (induction k) (auto simp: domain_step_def hold_def)
  have "updates_of d ?us = ?us" by (auto simp: updates_of_def filter_map o_def)
  moreover have "\<forall>(t, d, st, msg) \<in> set ?us. d < 4" using assms(2) by auto
  ultimately show ?thesis using run_updates_domains [OF assms(1) _ assms(2), of ?us subs] flap [OF assms(3,4), of n] by simp
qed

theorem flapping_never_reported_witness:
  "nStatus (aDomains (run_updates [] (map (\<lambda>i. (1000000000 * int i, PATH, if even i then 2 else 3, [])) [0..<1000])
     (m_rxMonitor (init_is12 [] []))) ! PATH) = 0"
  by (subst flapping_never_reported) (simp_all add: init_is12_def init_monitor_def init_domain_def)
section \<open>Subscriptions\<close>

text \<open>
  A controller that mirrors the properties of a monitor from the notifications it receives: the
  mirror maps an object, level and index to the value last announced.
\<close>

type_synonym mirror = "int \<times> int \<times> int \<Rightarrow> json"

definition read_note :: "json \<Rightarrow> ((int \<times> int \<times> int) \<times> json) option" where
  "read_note n =
    (case (jfind ''oid'' n, jfind ''eventData'' n) of
       (Some (JInt oid), Some d) \<Rightarrow>
         (case (jfind ''propertyId'' d, jfind ''value'' d) of
            (Some p, Some v) \<Rightarrow>
              (case (jfind ''level'' p, jfind ''index'' p) of
                 (Some (JInt level), Some (JInt index)) \<Rightarrow> Some ((oid, level, index), v)
               | _ \<Rightarrow> None)
          | _ \<Rightarrow> None)
     | _ \<Rightarrow> None)"

definition read_notes :: "json \<Rightarrow> ((int \<times> int \<times> int) \<times> json) list" where
  "read_notes js = (case jfind ''notifications'' js of Some ns \<Rightarrow> List.map_filter read_note (jelems ns) | None \<Rightarrow> [])"

definition receive :: "nat \<Rightarrow> sends \<Rightarrow> mirror \<Rightarrow> mirror" where
  "receive conn out = fold (\<lambda>(c, js) mir. if c = conn then fold (\<lambda>(k, v) mir. mir(k := v)) (read_notes js) mir else mir) out"

definition subscribed :: "subscriptions \<Rightarrow> nat \<Rightarrow> int \<Rightarrow> bool" where
  "subscribed subs conn oid \<longleftrightarrow> (case map_of subs conn of Some oids \<Rightarrow> oid \<in> set oids | None \<Rightarrow> False)"

lemma receive_append [simp]: "receive conn (a @ b) mir = receive conn b (receive conn a mir)"
  by (simp add: receive_def)

lemma receive_Nil [simp]: "receive conn [] mir = mir"
  by (simp add: receive_def)

lemma read_notification [simp]: "read_notes (notification oid level index v) = [((oid, level, index), v)]"
  by (simp add: read_notes_def notification_def obj_def jelems_def read_note_def List.map_filter_def)

lemma receive_Notify_other: "conn \<notin> fst ` set subs \<Longrightarrow> receive conn (Notify subs oid level index v) mir = mir"
  by (induction subs arbitrary: mir) (auto simp: Notify_def receive_def)

lemma Notify_Cons:
  "Notify ((c, oids) # subs) oid level index v
    = (if oid \<in> set oids then [(c, notification oid level index v)] else []) @ Notify subs oid level index v"
  by (simp add: Notify_def)

lemma receive_Notify:
  "distinct (map fst subs) \<Longrightarrow> receive conn (Notify subs oid level index v) mir
     = (if subscribed subs conn oid then mir((oid, level, index) := v) else mir)"
proof (induction subs arbitrary: mir)
  case Nil
  then show ?case by (simp add: Notify_def receive_def subscribed_def)
next
  case (Cons e subs)
  obtain c oids where e: "e = (c, oids)" by (cases e)
  have one: "receive conn [(c, notification oid level index v)] mir = (if c = conn then mir((oid, level, index) := v) else mir)" for c
    by (simp add: receive_def)
  have other: "receive conn (Notify subs oid level index v) m = m" if "c = conn" for m
    using Cons.prems that e by (intro receive_Notify_other) auto
  show ?case
    using Cons.prems Cons.IH [of mir] by (cases "c = conn") (simp_all add: Notify_Cons one other e subscribed_def)
qed

text \<open>The mirror agrees with every property a read would return.\<close>

definition in_step :: "mirror \<Rightarrow> Monitor \<Rightarrow> bool" where
  "in_step mir mon \<longleftrightarrow> (\<forall>level index v. monitor_property mon level index = Ok v \<longrightarrow> mir (nOid mon, level, index) = v)"

definition fixed_in_step :: "mirror \<Rightarrow> Monitor \<Rightarrow> bool" where
  "fixed_in_step mir mon \<longleftrightarrow>
    (\<forall>index v. monitor_property mon 1 index = Ok v \<longrightarrow> mir (nOid mon, 1, index) = v) \<and> mir (nOid mon, 2, 1) = JBool True
    \<and> mir (nOid mon, 3, 3) = JInt 3 \<and> mir (nOid mon, 4, 14) = JBool True"

definition domain_in_step :: "mirror \<Rightarrow> int \<Rightarrow> int \<Rightarrow> McDomain \<Rightarrow> bool" where
  "domain_in_step mir oid base d \<longleftrightarrow> mir (oid, 4, base) = JInt (nStatus d) \<and> mir (oid, 4, base + 1) = JStr (sMessage d)
     \<and> mir (oid, 4, base + 2) = JInt (uint (nTransitions d))"

lemma Ok_eq [simp]: "Ok v = Ok w \<longleftrightarrow> v = w" "Error n msg = Ok w \<longleftrightarrow> False" "not_implemented = Ok w \<longleftrightarrow> False"
  by (simp_all add: Ok_def Error_def not_implemented_def obj_def)

lemma all_domains: "(\<forall>d < 4. P d) \<longleftrightarrow> P 0 \<and> P 1 \<and> P 2 \<and> P (3::nat)"
  by (auto simp: less_Suc_eq numeral_eq_Suc)

lemma monitor_property_4:
  "monitor_property mon 4 index =
    (if index = 1 then Ok (JInt (nStatus (aDomains mon ! 0))) else if index = 2 then Ok (JStr (sMessage (aDomains mon ! 0)))
     else if index = 3 then Ok (JInt (uint (nTransitions (aDomains mon ! 0))))
     else if index = 4 then Ok (JInt (nStatus (aDomains mon ! 1))) else if index = 5 then Ok (JStr (sMessage (aDomains mon ! 1)))
     else if index = 6 then Ok (JInt (uint (nTransitions (aDomains mon ! 1))))
     else if index = 7 then Ok (JInt (nStatus (aDomains mon ! 2))) else if index = 8 then Ok (JStr (sMessage (aDomains mon ! 2)))
     else if index = 9 then Ok (JInt (uint (nTransitions (aDomains mon ! 2))))
     else if index = 10 then Ok (source_json (sSyncSource mon))
     else if index = 11 then Ok (JInt (nStatus (aDomains mon ! 3))) else if index = 12 then Ok (JStr (sMessage (aDomains mon ! 3)))
     else if index = 13 then Ok (JInt (uint (nTransitions (aDomains mon ! 3))))
     else if index = 14 then Ok (JBool True) else not_implemented)"
  by (simp add: monitor_property_def DOMAIN_BASE_def Let_def)

lemma in_step_iff:
  "in_step mir mon \<longleftrightarrow> fixed_in_step mir mon \<and> mir (nOid mon, 3, 1) = JInt (nOverall mon)
     \<and> mir (nOid mon, 3, 2) = JStr (sOverallMessage mon) \<and> mir (nOid mon, 4, 10) = source_json (sSyncSource mon)
     \<and> (\<forall>d < 4. domain_in_step mir (nOid mon) (DOMAIN_BASE ! d) (aDomains mon ! d))"
  (is "?l = ?r")
proof
  assume ?l
  then have get: "mir (nOid mon, level, index) = v" if "monitor_property mon level index = Ok v" for level index v
    using that by (simp add: in_step_def)
  have "\<forall>d < 4. domain_in_step mir (nOid mon) (DOMAIN_BASE ! d) (aDomains mon ! d)"
    unfolding all_domains domain_in_step_def DOMAIN_BASE_def by (intro conjI; rule get; simp add: monitor_property_4)
  moreover have "fixed_in_step mir mon"
    unfolding fixed_in_step_def by (intro conjI allI impI get) (assumption | simp add: monitor_property_4 | simp add: monitor_property_def)+
  moreover have "mir (nOid mon, 3, 1) = JInt (nOverall mon)" "mir (nOid mon, 3, 2) = JStr (sOverallMessage mon)"
      "mir (nOid mon, 4, 10) = source_json (sSyncSource mon)"
    by (rule get, simp add: monitor_property_def, rule get, simp add: monitor_property_def, rule get, simp add: monitor_property_4)
  ultimately show ?r by blast
next
  assume ?r
  then have fixed: "fixed_in_step mir mon" and overall: "mir (nOid mon, 3, 1) = JInt (nOverall mon)"
      "mir (nOid mon, 3, 2) = JStr (sOverallMessage mon)" and source: "mir (nOid mon, 4, 10) = source_json (sSyncSource mon)"
    and doms: "domain_in_step mir (nOid mon) 1 (aDomains mon ! 0)" "domain_in_step mir (nOid mon) 4 (aDomains mon ! 1)"
      "domain_in_step mir (nOid mon) 7 (aDomains mon ! 2)" "domain_in_step mir (nOid mon) 11 (aDomains mon ! 3)"
    by (simp_all add: all_domains DOMAIN_BASE_def)
  have "mir (nOid mon, level, index) = v" if v: "monitor_property mon level index = Ok v" for level index v
  proof (cases "level = 4")
    case True
    then show ?thesis
      using v doms source fixed by (simp add: monitor_property_4 domain_in_step_def fixed_in_step_def split: if_splits)
  next
    case False
    then show ?thesis
      using v fixed overall
      by (cases "level = 1") (simp add: fixed_in_step_def, simp add: monitor_property_def fixed_in_step_def split: if_splits)
  qed
  then show ?l by (simp add: in_step_def)
qed
lemma RecomputeOverall_notifies:
  assumes "distinct (map fst subs)" "subscribed subs conn (nOid mon)"
    and "mir (nOid mon, 3, 1) = JInt (nOverall mon)" "mir (nOid mon, 3, 2) = JStr (sOverallMessage mon)"
  shows "receive conn (snd (RecomputeOverall subs mon)) mir
    = mir((nOid mon, 3, 1) := JInt (overall_status mon), (nOid mon, 3, 2) := JStr (snd (overall_of mon)))"
  using assms overall_of_status [of mon]
  by (cases "overall_of mon") (auto simp: RecomputeOverall_def Let_def receive_Notify)

lemma domain_notes_mirror:
  assumes "distinct (map fst subs)" "subscribed subs conn oid" "domain_in_step mir oid base d"
  shows "receive conn (domain_notes subs oid base d st msg) mir
    = mir((oid, 4, base) := JInt st, (oid, 4, base + 1) := JStr msg,
          (oid, 4, base + 2) := JInt (uint (if nStatus d < st \<and> nStatus d \<noteq> 0 then nTransitions d + 1 else nTransitions d)))"
  using assms by (auto simp: domain_notes_def receive_Notify domain_in_step_def)

lemma fixed_in_step_cong:
  assumes "fixed_in_step mir mon" "nOid mon' = nOid mon" "bIsReceiver mon' = bIsReceiver mon" "sRole mon' = sRole mon"
    "sLabel mon' = sLabel mon" "sTouchpointType mon' = sTouchpointType mon" "sTouchpointId mon' = sTouchpointId mon"
    and "\<And>level index. level < 3 \<or> index = 3 \<and> level = 3 \<or> index = 14 \<and> level = 4 \<Longrightarrow> mir' (nOid mon, level, index) = mir (nOid mon, level, index)"
  shows "fixed_in_step mir' mon'"
proof -
  have "monitor_property mon' 1 index = monitor_property mon 1 index" for index
    using assms(2-7) by (simp add: monitor_property_def)
  then show ?thesis using assms(1,2,8) by (simp add: fixed_in_step_def)
qed

lemma domain_bases:
  assumes "d < 4" "e < 4"
  shows "DOMAIN_BASE ! d = DOMAIN_BASE ! e \<longleftrightarrow> d = e" "DOMAIN_BASE ! d \<noteq> DOMAIN_BASE ! e + 1" "DOMAIN_BASE ! d \<noteq> DOMAIN_BASE ! e + 2"
    "DOMAIN_BASE ! d + 1 \<noteq> DOMAIN_BASE ! e" "DOMAIN_BASE ! d + 1 \<noteq> DOMAIN_BASE ! e + 2"
    "DOMAIN_BASE ! d + 2 \<noteq> DOMAIN_BASE ! e" "DOMAIN_BASE ! d + 2 \<noteq> DOMAIN_BASE ! e + 1"
    "10 \<noteq> DOMAIN_BASE ! d" "10 \<noteq> DOMAIN_BASE ! d + 1" "10 \<noteq> DOMAIN_BASE ! d + 2"
    "14 \<noteq> DOMAIN_BASE ! d" "14 \<noteq> DOMAIN_BASE ! d + 1" "14 \<noteq> DOMAIN_BASE ! d + 2"
  using assms by (auto simp: DOMAIN_BASE_def less_Suc_eq numeral_eq_Suc)

lemma UpdateDomain_in_step:
  assumes "distinct (map fst subs)" "subscribed subs conn (nOid mon)" "in_step mir mon" "d < 4" "length (aDomains mon) = 4"
  shows "in_step (receive conn (snd (UpdateDomain now subs d st msg mon)) mir) (fst (UpdateDomain now subs d st msg mon))"
proof (cases "snd (hold now st (aDomains mon ! d))")
  case True
  have same: "nStatus (domain_step now st msg (aDomains mon ! d)) = nStatus (aDomains mon ! d)"
    "sMessage (domain_step now st msg (aDomains mon ! d)) = sMessage (aDomains mon ! d)"
    "nTransitions (domain_step now st msg (aDomains mon ! d)) = nTransitions (aDomains mon ! d)"
    using True hold_same by (cases "hold now st (aDomains mon ! d)"; auto simp: domain_step_def)+
  have "domain_in_step mir (nOid mon) b ((aDomains mon)[d := domain_step now st msg (aDomains mon ! d)] ! i)
      = domain_in_step mir (nOid mon) b (aDomains mon ! i)" for b i
    using assms(4,5) same by (cases "i = d") (auto simp: domain_in_step_def)
  then show ?thesis
    using assms(3) fixed_in_step_cong [of mir mon "set_domain d (domain_step now st msg (aDomains mon ! d)) mon" mir]
    by (simp add: UpdateDomain_held [OF True] in_step_iff set_domain_def)
next
  case False
  let ?d = "domain_step now st msg (aDomains mon ! d)" and ?oid = "nOid mon" and ?b = "DOMAIN_BASE ! d"
  let ?mon1 = "set_domain d ?d mon"
  let ?mir1 = "receive conn (domain_notes subs ?oid ?b (aDomains mon ! d) st msg) mir"
  let ?mir2 = "?mir1((?oid, 3, 1) := JInt (overall_status ?mon1), (?oid, 3, 2) := JStr (snd (overall_of ?mon1)))"
  note before = assms(3) [unfolded in_step_iff]
  have mir1: "?mir1 = mir((?oid, 4, ?b) := JInt (nStatus ?d), (?oid, 4, ?b + 1) := JStr (sMessage ?d),
      (?oid, 4, ?b + 2) := JInt (uint (nTransitions ?d)))"
    using False before assms(4) hold_same [of now st "aDomains mon ! d"] domain_notes_mirror [OF assms(1,2)]
    by (cases "hold now st (aDomains mon ! d)") (auto simp: domain_step_def)
  have upd: "UpdateDomain now subs d st msg mon = (?mon1\<lparr>nOverall := overall_status ?mon1, sOverallMessage := snd (overall_of ?mon1)\<rparr>,
      domain_notes subs ?oid ?b (aDomains mon ! d) st msg @ snd (RecomputeOverall subs ?mon1))"
    using UpdateDomain_released [OF False refl] RecomputeOverall_monitor by simp
  have oid: "nOid ?mon1 = ?oid" by (simp add: set_domain_def)
  have mir2: "receive conn (snd (UpdateDomain now subs d st msg mon)) mir = ?mir2"
    using before RecomputeOverall_notifies [of subs conn ?mon1 ?mir1, unfolded oid, OF assms(1,2)]
    by (simp add: upd mir1 set_domain_def)
  have "domain_in_step ?mir2 ?oid (DOMAIN_BASE ! i) ((aDomains mon)[d := ?d] ! i)" if "i < 4" for i
    using that before assms(4,5) domain_bases [OF that assms(4)] unfolding mir1
    by (cases "i = d") (simp_all add: domain_in_step_def)
  moreover have "fixed_in_step ?mir2 (fst (UpdateDomain now subs d st msg mon))"
    by (rule fixed_in_step_cong [of mir mon]) (use before domain_bases [OF assms(4,4)] in \<open>auto simp: upd set_domain_def mir1\<close>)
  moreover have "?mir2 (?oid, 4, 10) = source_json (sSyncSource mon)"
    using before domain_bases [OF assms(4,4)] by (simp add: mir1)
  ultimately have "fixed_in_step ?mir2 (fst (UpdateDomain now subs d st msg mon))
      \<and> ?mir2 (?oid, 3, 1) = JInt (overall_status ?mon1) \<and> ?mir2 (?oid, 3, 2) = JStr (snd (overall_of ?mon1))
      \<and> ?mir2 (?oid, 4, 10) = source_json (sSyncSource mon) \<and> (\<forall>i < 4. domain_in_step ?mir2 ?oid (DOMAIN_BASE ! i) ((aDomains mon)[d := ?d] ! i))"
    by simp
  moreover have "fst (UpdateDomain now subs d st msg mon) = mon' \<Longrightarrow> nOid mon' = ?oid \<and> nOverall mon' = overall_status ?mon1
      \<and> sOverallMessage mon' = snd (overall_of ?mon1) \<and> sSyncSource mon' = sSyncSource mon \<and> aDomains mon' = (aDomains mon)[d := ?d]" for mon'
    by (auto simp: upd set_domain_def)
  ultimately show ?thesis unfolding mir2 in_step_iff by metis
qed

lemma sync_source_in_step:
  assumes "distinct (map fst subs)" "subscribed subs conn (nOid mon)" "in_step mir mon"
  shows "in_step (receive conn (snd (sync_source subs src mon)) mir) (fst (sync_source subs src mon))"
proof -
  note before = assms(3) [unfolded in_step_iff]
  have "domain_in_step (mir((nOid mon, 4, 10) := v)) (nOid mon) (DOMAIN_BASE ! i) dm = domain_in_step mir (nOid mon) (DOMAIN_BASE ! i) dm"
    if "i < 4" for i v dm
    using domain_bases(8-10) [OF that that] by (simp add: domain_in_step_def)
  moreover have "fixed_in_step (mir((nOid mon, 4, 10) := v)) (mon\<lparr>sSyncSource := src\<rparr>)" for v
    by (rule fixed_in_step_cong [of mir mon]) (use before in auto)
  ultimately show ?thesis using assms before by (simp add: sync_source_def receive_Notify in_step_iff)
qed
text \<open>Notifications about one object leave the mirror of the others alone.\<close>

definition notes_only :: "int \<Rightarrow> sends \<Rightarrow> bool" where
  "notes_only oid out \<longleftrightarrow> (\<forall>(c, js) \<in> set out. \<exists>level index v. js = notification oid level index v)"

lemma receive_others: "notes_only oid' out \<Longrightarrow> oid' \<noteq> oid \<Longrightarrow> receive conn out mir (oid, level, index) = mir (oid, level, index)"
proof (induction out arbitrary: mir)
  case (Cons e out)
  obtain c l i v where e: "e = (c, notification oid' l i v)" using Cons.prems(1) by (cases e) (auto simp: notes_only_def)
  have "notes_only oid' out" using Cons.prems(1) by (simp add: notes_only_def)
  note IH = Cons.IH [OF this Cons.prems(2)]
  have "receive conn (e # out) mir = receive conn out (if c = conn then mir((oid', l, i) := v) else mir)"
    by (simp add: receive_def e)
  then show ?case using IH Cons.prems(2) by simp
qed simp

lemma notes_only_append [simp]: "notes_only oid (a @ b) \<longleftrightarrow> notes_only oid a \<and> notes_only oid b"
  by (simp add: notes_only_def ball_Un)

lemma notes_only_Notify [simp]: "notes_only oid (Notify subs oid level index v)" "notes_only oid []"
  by (auto simp: notes_only_def Notify_def)

lemma notes_only_update: "notes_only (nOid mon) (snd (UpdateDomain now subs d st msg mon))"
proof -
  have "notes_only (nOid m) (snd (RecomputeOverall subs m))" for m
    by (cases "overall_of m") (simp add: RecomputeOverall_def Let_def)
  from this [of "set_domain d e mon" for e] show ?thesis
    by (cases "snd (hold now st (aDomains mon ! d))")
      (simp_all add: UpdateDomain_held UpdateDomain_released domain_notes_def set_domain_def)
qed

lemma notes_only_sync: "notes_only (nOid mon) (snd (sync_source subs src mon))"
  by (simp add: sync_source_def)

lemma in_step_cong: "in_step mir mon \<Longrightarrow> (\<And>level index. mir' (nOid mon, level, index) = mir (nOid mon, level, index)) \<Longrightarrow> in_step mir' mon"
  by (simp add: in_step_def)

lemma in_step_other: "in_step mir mon \<Longrightarrow> notes_only oid out \<Longrightarrow> oid \<noteq> nOid mon \<Longrightarrow> in_step (receive conn out mir) mon"
  by (erule in_step_cong) (rule receive_others)

text \<open>
  What happens while connection \<open>conn\<close> stays subscribed: updates, counters, and messages and
  connections of controllers, as long as none of them resets a monitor.
\<close>

inductive observed :: "nat \<Rightarrow> Is12Server \<Rightarrow> mirror \<Rightarrow> Is12Server \<Rightarrow> mirror \<Rightarrow> bool" for conn s0 mir0 where
  nothing: "observed conn s0 mir0 s0 mir0"
| receiver: "observed conn s0 mir0 s mir \<Longrightarrow> d < 4 \<Longrightarrow> UpdateReceiverDomain now d st msg s = (s', out)
    \<Longrightarrow> observed conn s0 mir0 s' (receive conn out mir)"
| sender: "observed conn s0 mir0 s mir \<Longrightarrow> d < 4 \<Longrightarrow> UpdateSenderDomain now d st msg s = (s', out)
    \<Longrightarrow> observed conn s0 mir0 s' (receive conn out mir)"
| sync: "observed conn s0 mir0 s mir \<Longrightarrow> SetSyncSource src s = (s', out) \<Longrightarrow> observed conn s0 mir0 s' (receive conn out mir)"
| lost: "observed conn s0 mir0 s mir \<Longrightarrow> observed conn s0 mir0 (AddReceiverLost leg n s) mir"
| late: "observed conn s0 mir0 s mir \<Longrightarrow> observed conn s0 mir0 (AddReceiverLate n s) mir"
| errors: "observed conn s0 mir0 s mir \<Longrightarrow> observed conn s0 mir0 (AddSenderErrors c n s) mir"
| ready: "observed conn s0 mir0 s mir \<Longrightarrow> conn' \<noteq> conn \<Longrightarrow> observed conn s0 mir0 (WsReady conn' s) mir"
| close: "observed conn s0 mir0 s mir \<Longrightarrow> conn' \<noteq> conn \<Longrightarrow> observed conn s0 mir0 (WsClose conn' s) mir"
| data: "observed conn s0 mir0 s mir \<Longrightarrow> s' = fst (WsData nodeId version what conn' nBits parsed s)
    \<Longrightarrow> m_rxMonitor s' = m_rxMonitor s \<Longrightarrow> m_txMonitor s' = m_txMonitor s
    \<Longrightarrow> map_of (m_mSubscriptions s') conn = map_of (m_mSubscriptions s) conn \<Longrightarrow> observed conn s0 mir0 s' mir"

definition follows :: "nat \<Rightarrow> int \<Rightarrow> Is12Server \<Rightarrow> mirror \<Rightarrow> bool" where
  "follows conn oid s mir \<longleftrightarrow> is12_inv s \<and> subscribed (m_mSubscriptions s) conn oid
     \<and> (oid = 10 \<and> in_step mir (m_rxMonitor s) \<or> oid = 11 \<and> in_step mir (m_txMonitor s))"

lemma in_step_counters [simp]:
  "in_step mir (mon\<lparr>mCounters1 := c\<rparr>) = in_step mir mon" "in_step mir (mon\<lparr>mCounters2 := c\<rparr>) = in_step mir mon"
  by (simp_all add: in_step_iff fixed_in_step_def monitor_property_def)

lemma follows_receiver:
  assumes "follows conn oid s mir" "d < 4" "UpdateReceiverDomain now d st msg s = (s', out)"
  shows "follows conn oid s' (receive conn out mir)"
proof -
  let ?u = "UpdateDomain now (m_mSubscriptions s) d st msg (m_rxMonitor s)"
  have s': "s' = s\<lparr>m_rxMonitor := fst ?u\<rparr>" and out: "out = snd ?u"
    using assms(3) by (auto simp: UpdateReceiverDomain_def Let_def case_prod_unfold)
  have inv: "is12_inv s'" using assms(1,2) UpdateDomain_inv UpdateDomain_keeps by (simp add: s' follows_def is12_inv_def)
  have len: "length (aDomains (m_rxMonitor s)) = 4" and dist: "distinct (map fst (m_mSubscriptions s))"
    and oids: "nOid (m_rxMonitor s) = 10" "nOid (m_txMonitor s) = 11"
    using assms(1) by (auto simp: follows_def is12_inv_def monitor_inv_def omap_ok_distinct)
  have only: "notes_only 10 out" using notes_only_update [of "m_rxMonitor s"] oids by (simp add: out)
  show ?thesis
    using assms(1) inv UpdateDomain_in_step [OF dist _ _ assms(2) len] in_step_other [OF _ only] oids
    by (auto simp: follows_def s' out)
qed

lemma follows_sender:
  assumes "follows conn oid s mir" "d < 4" "UpdateSenderDomain now d st msg s = (s', out)"
  shows "follows conn oid s' (receive conn out mir)"
proof -
  let ?u = "UpdateDomain now (m_mSubscriptions s) d st msg (m_txMonitor s)"
  have s': "s' = s\<lparr>m_txMonitor := fst ?u\<rparr>" and out: "out = snd ?u"
    using assms(3) by (auto simp: UpdateSenderDomain_def Let_def case_prod_unfold)
  have inv: "is12_inv s'" using assms(1,2) UpdateDomain_inv UpdateDomain_keeps by (simp add: s' follows_def is12_inv_def)
  have len: "length (aDomains (m_txMonitor s)) = 4" and dist: "distinct (map fst (m_mSubscriptions s))"
    and oids: "nOid (m_rxMonitor s) = 10" "nOid (m_txMonitor s) = 11"
    using assms(1) by (auto simp: follows_def is12_inv_def monitor_inv_def omap_ok_distinct)
  have only: "notes_only 11 out" using notes_only_update [of "m_txMonitor s"] oids by (simp add: out)
  show ?thesis
    using assms(1) inv UpdateDomain_in_step [OF dist _ _ assms(2) len] in_step_other [OF _ only] oids
    by (auto simp: follows_def s' out)
qed

lemma follows_sync:
  assumes "follows conn oid s mir" "SetSyncSource src s = (s', out)"
  shows "follows conn oid s' (receive conn out mir)"
proof -
  let ?rx = "sync_source (m_mSubscriptions s) src (m_rxMonitor s)" and ?tx = "sync_source (m_mSubscriptions s) src (m_txMonitor s)"
  have s': "s' = s\<lparr>m_rxMonitor := fst ?rx, m_txMonitor := fst ?tx\<rparr>" and out: "out = snd ?rx @ snd ?tx"
    using assms(2) by (auto simp: SetSyncSource_def Let_def case_prod_unfold)
  have inv: "is12_inv s'" using assms(1) sync_source_keeps by (simp add: s' follows_def is12_inv_def)
  have dist: "distinct (map fst (m_mSubscriptions s))" and oids: "nOid (m_rxMonitor s) = 10" "nOid (m_txMonitor s) = 11"
    using assms(1) by (auto simp: follows_def is12_inv_def omap_ok_distinct)
  have only: "notes_only 10 (snd ?rx)" "notes_only 11 (snd ?tx)" using notes_only_sync oids by metis+
  have "in_step (receive conn (snd ?tx) m) (fst ?rx)" if "in_step m (fst ?rx)" for m
    using that only(2) oids sync_source_keeps(2) by (intro in_step_other) auto
  moreover have "in_step (receive conn (snd ?rx) mir) (m_txMonitor s)" if "in_step mir (m_txMonitor s)"
    using that only(1) oids by (intro in_step_other) auto
  ultimately show ?thesis
    using assms(1) inv sync_source_in_step [OF dist] oids by (auto simp: follows_def s' out)
qed

lemma follows_step: "observed conn s mir s' mir' \<Longrightarrow> follows conn oid s mir \<Longrightarrow> follows conn oid s' mir'"
proof (induction rule: observed.induct)
  case (data s1 mir1 s2 nodeId version what conn' nBits parsed)
  then have "is12_inv s1" by (simp add: follows_def)
  then have "omap_ok (m_mSubscriptions s2)"
    using data.hyps(2) by (auto simp: WsData_state HandleMessage_subscriptions(1) is12_inv_def split: option.split)
  then show ?case using data by (simp add: follows_def is12_inv_def subscribed_def)
next
  case (receiver s mir d now st msg s' out)
  then show ?case using follows_receiver by blast
next
  case (sender s mir d now st msg s' out)
  then show ?case using follows_sender by blast
next
  case (sync s mir src s' out)
  then show ?case using follows_sync by blast
qed (simp_all add: follows_def is12_inv_def AddReceiverLost_def AddReceiverLate_def AddSenderErrors_def WsReady_def WsClose_def
    subscribed_def map_of_omap_put map_of_omap_del)
lemma follows_GetProperty:
  assumes "is12_inv s" "oid = 10 \<or> oid = 11" "subscribed (m_mSubscriptions s) conn oid"
  shows "(\<forall>level index v. GetProperty nodeId version s oid level index = Ok v \<longrightarrow> mir (oid, level, index) = v) \<longleftrightarrow> follows conn oid s mir"
  using assms by (auto simp: follows_def is12_inv_def GetProperty_def FindMonitor_def in_step_def)

text \<open>
  C8. Notifications are complete: a controller that has read the properties of a monitor and is
  subscribed to it knows the current value of every property from the notifications alone,
  through any sequence of updates and other controllers' messages that does not reset a monitor.
\<close>

theorem notifications_complete:
  assumes "is12_reachable rid sid s" "oid = 10 \<or> oid = 11" "subscribed (m_mSubscriptions s) conn oid"
    and "\<forall>level index v. GetProperty nodeId version s oid level index = Ok v \<longrightarrow> mir (oid, level, index) = v"
    and "observed conn s mir s' mir'"
  shows "\<forall>level index v. GetProperty nodeId version s' oid level index = Ok v \<longrightarrow> mir' (oid, level, index) = v"
proof -
  have "follows conn oid s mir"
    using follows_GetProperty [OF is12_reachable_inv [OF assms(1)] assms(2,3)] assms(4) by (rule iffD1)
  then have f: "follows conn oid s' mir'" by (rule follows_step [OF assms(5)])
  then have "is12_inv s'" "subscribed (m_mSubscriptions s') conn oid" by (simp_all add: follows_def)
  from follows_GetProperty [OF this(1) assms(2) this(2)] f show ?thesis by (rule iffD2)
qed

theorem notifications_complete_witness:
  "(let s = fst (WsData [] [] [] 7 1 (Some (obj [(''messageType'', JInt 3), (''subscriptions'', JArr [JInt 10])]))
              (WsReady 7 (init_is12 [] [])));
        mir = (\<lambda>(oid, level, index). case jfind ''value'' (GetProperty [] [] s oid level index) of Some v \<Rightarrow> v | None \<Rightarrow> JNull);
        (s', out) = UpdateReceiverDomain 9 PATH 1 ''ok'' s
    in length out = 4 \<and> (\<forall>level index v. GetProperty [] [] s' 10 level index = Ok v \<longrightarrow> receive 7 out mir (10, level, index) = v))"
proof -
  define s where "s = fst (WsData [] [] [] 7 1 (Some (obj [(''messageType'', JInt 3), (''subscriptions'', JArr [JInt 10])]))
    (WsReady 7 (init_is12 [] [])))"
  define mir :: mirror where "mir = (\<lambda>(oid, level, index). case jfind ''value'' (GetProperty [] [] s oid level index) of Some v \<Rightarrow> v | None \<Rightarrow> JNull)"
  obtain s' out where u: "UpdateReceiverDomain 9 PATH 1 ''ok'' s = (s', out)" by fastforce
  have "is12_reachable [] [] s" unfolding s_def by (intro is12_reachable.intros)
  moreover have "subscribed (m_mSubscriptions s) 7 10" unfolding s_def by code_simp
  moreover have "\<forall>level index v. GetProperty [] [] s 10 level index = Ok v \<longrightarrow> mir (10, level, index) = v"
    by (simp add: mir_def Ok_def obj_def)
  moreover have "observed 7 s mir s' (receive 7 out mir)" by (rule observed.receiver [OF observed.nothing _ u]) simp
  ultimately have "\<forall>level index v. GetProperty [] [] s' 10 level index = Ok v \<longrightarrow> receive 7 out mir (10, level, index) = v"
    using notifications_complete [of "[]" "[]" s 10 7 "[]" "[]" mir s' "receive 7 out mir"] by blast
  moreover have "length (snd (UpdateReceiverDomain 9 PATH 1 ''ok'' s)) = 4" unfolding s_def by code_simp
  ultimately show ?thesis unfolding Let_def s_def [symmetric] mir_def [symmetric] u prod.case by simp
qed

text \<open>
  A reset by one controller is not announced: here connection 7 is subscribed to the receiver
  monitor when connection 8 resets its messages and counters; the answer to 8 is the only message
  sent, and the message of the path domain (property 4p5) has changed.  The overall message
  keeps the text that the domain no longer has.
\<close>

theorem reset_not_notified:
  "(let cmd = obj [(''messageType'', JInt 0), (''commands'', JArr [obj [(''handle'', JInt 1), (''oid'', JInt 10),
                (''methodId'', obj [(''level'', JInt 4), (''index'', JInt 3)])]])];
        s = fst (UpdateReceiverDomain 9 PATH 1 ''ok'' (fst (WsData [] [] [] 7 1
              (Some (obj [(''messageType'', JInt 3), (''subscriptions'', JArr [JInt 10])])) (WsReady 7 (init_is12 [] [])))));
        (s', out) = WsData [] [] [] 8 1 (Some cmd) s
    in out = Val [(8, obj [(''messageType'', JInt 1),
                           (''responses'', JArr [obj [(''handle'', JInt 1), (''result'', OkVoid)]])])]
       \<and> GetProperty [] [] s 10 4 5 = Ok (JStr ''ok'') \<and> GetProperty [] [] s' 10 4 5 = Ok (JStr [])
       \<and> GetProperty [] [] s' 10 3 2 = Ok (JStr ''ok''))"
  by code_simp

text \<open>
  C38. Controllers only read: no message on a connection, well-formed or not, changes a domain's
  status, the overall status and message or the sync source of a monitor, or the subscriptions of
  another connection.
\<close>

theorem controllers_only_read:
  assumes "is12_reachable rid sid s" "s' = fst (WsData nodeId version what conn nBits parsed s)"
  shows "reported (m_rxMonitor s') = reported (m_rxMonitor s) \<and> reported (m_txMonitor s') = reported (m_txMonitor s)
    \<and> (\<forall>conn'. conn' \<noteq> conn \<longrightarrow> map_of (m_mSubscriptions s') conn' = map_of (m_mSubscriptions s) conn')"
proof -
  have "omap_ok (m_mSubscriptions s)" using is12_reachable_inv [OF assms(1)] by (simp add: is12_inv_def)
  then show ?thesis
    using HandleMessage_reported [of nodeId version conn _ s] HandleMessage_subscriptions(2) assms(2)
    by (auto simp: WsData_state reported_all_def split: option.splits)
qed

theorem controllers_only_read_witness:
  "reported (m_rxMonitor (fst (WsData [] [] [] 8 1 (Some (obj [(''messageType'', JInt 0), (''commands'', JArr [JNull])])) (init_is12 [] []))))
    = reported (m_rxMonitor (init_is12 [] []))"
  using controllers_only_read [OF is12_reachable.start refl] by blast

text \<open>
  A read without the identifier of the property in its arguments reaches the constant
  subscript of a missing member: the message has no defined behaviour.
\<close>

theorem get_without_id_undefined:
  assumes "nBits mod 16 = 1" "jvalue get_int ''messageType'' (-1) js = Val 0"
    and "jfind ''commands'' js = Some (JArr (cmd # cmds))" "command_ids cmd = Val (oid, 1, 1, args)"
    and "is_object args" "\<not> jcontains ''id'' args"
  shows "snd (WsData nodeId version what conn nBits (Some js) s) = Undef"
proof -
  have "is_object js" using assms(2) by (auto simp: jvalue_def split: if_splits)
  then have "jvalue Val ''commands'' (JArr []) js = Val (JArr (cmd # cmds))" using assms(3) by (simp add: jvalue_def)
  moreover have "jat ''id'' args = Undef" using assms(5,6) by (simp add: jat_def jcontains_def)
  ultimately show ?thesis
    using assms by (simp add: WsData_def is12_HandleMessage_def jelems_def dispatch_def Let_def case_prod_unfold)
qed

theorem get_without_id_undefined_witness:
  "snd (WsData [] [] [] 8 1 (Some (obj [(''messageType'', JInt 0), (''commands'', JArr [obj [(''handle'', JInt 1), (''oid'', JInt 10),
      (''methodId'', obj [(''level'', JInt 1), (''index'', JInt 1)])]])])) (init_is12 [] [])) = Undef"
  by (rule get_without_id_undefined [where oid = 10 and args = "JObj []" and cmds = "[]"
      and cmd = "obj [(''handle'', JInt 1), (''oid'', JInt 10), (''methodId'', obj [(''level'', JInt 1), (''index'', JInt 1)])]"]; code_simp)

end
