(* ===== verification/Dnssd.thy ===== *)
theory Dnssd
  imports Cxx_Text "HOL-Library.Multiset"
begin

text \<open>
  Discovery of registries by unicast DNS-SD, \<^verbatim>\<open>src/src/nmos/dnssd.cpp\<close>: the search domains of
  \<^verbatim>\<open>resolv.conf\<close>, the PTR, SRV and TXT queries, and the list of registration APIs in the order of
  their priorities.  The resolver library is an argument: \<open>query\<close> gives the records of the answer
  section for a name and a record type, \<open>None\<close> for a record that \<^verbatim>\<open>ns_parserr\<close> refuses, and no
  record when the query fails.  \<^verbatim>\<open>std::sort\<close> is an argument too, as the order it gives to equal
  priorities is not specified; the locale \<open>priority_sort\<close> states what the standard promises.
\<close>

section \<open>Answers of the resolver\<close>

text \<open>
  A record has its data, the bytes of the 4096 byte answer buffer that follow the data, and the
  domain name that \<^verbatim>\<open>ns_name_uncompress\<close> reads from an offset of the data.
\<close>

record ns_rr =
  rr_type :: nat
  rr_data :: bytes
  rr_after :: bytes
  rr_name :: "nat \<Rightarrow> string option"

type_synonym resolver = "string \<Rightarrow> nat \<Rightarrow> ns_rr option list"

abbreviation "ns_t_ptr \<equiv> 12 :: nat"
abbreviation "ns_t_txt \<equiv> 16 :: nat"
abbreviation "ns_t_srv \<equiv> 33 :: nat"

definition rr_buffer :: "ns_rr \<Rightarrow> bytes" where
  "rr_buffer rr = rr_data rr @ rr_after rr"

text \<open>The loop's test: records that parse and have the type asked for.\<close>

definition answer_records :: "resolver \<Rightarrow> string \<Rightarrow> nat \<Rightarrow> ns_rr list" where
  "answer_records query sName t = filter (\<lambda>rr. rr_type rr = t) (List.map_filter id (query sName t))"

section \<open>Queries\<close>

definition SearchDomains :: "string option \<Rightarrow> string list" where
  "SearchDomains resolv_conf =
    (case resolv_conf of
       None \<Rightarrow> []
     | Some text \<Rightarrow> concat (map (\<lambda>sLine.
         case stream_words sLine of
           [] \<Rightarrow> []
         | sKey # ws \<Rightarrow> if sKey = ''search'' \<or> sKey = ''domain'' then ws else []) (getlines text)))"

record SrvResult =
  sTarget :: string
  srv_nPort :: u16

definition QueryPtr :: "resolver \<Rightarrow> string \<Rightarrow> string list" where
  "QueryPtr query sName = List.map_filter (\<lambda>rr. rr_name rr 0) (answer_records query sName ns_t_ptr)"

text \<open>
  The first SRV record decides.  Its port is read at a fixed offset, whatever the length of its
  data: \<open>None\<close> is a read behind the answer buffer.
\<close>

definition QuerySrv :: "resolver \<Rightarrow> string \<Rightarrow> SrvResult option" where
  "QuerySrv query sName =
    (case answer_records query sName ns_t_srv of
       [] \<Rightarrow> Some \<lparr>sTarget = [], srv_nPort = 0\<rparr>
     | rr # _ \<Rightarrow> do {
         hi \<leftarrow> rd (rr_buffer rr) 4;
         lo \<leftarrow> rd (rr_buffer rr) 5;
         Some \<lparr>sTarget = (case rr_name rr 6 of None \<Rightarrow> [] | Some s \<Rightarrow> s), srv_nPort = be16 hi lo\<rparr>
       })"

text \<open>
  \<open>txt_strings buf pos nRemaining\<close> is the loop over the character strings of a TXT record, at
  \<open>pos\<close> of the buffer with \<open>nRemaining\<close> bytes of data left.
\<close>

definition as_text :: "bytes \<Rightarrow> string" where
  "as_text bs = map (\<lambda>b. char_of (unat b)) bs"

function txt_strings :: "bytes \<Rightarrow> nat \<Rightarrow> nat \<Rightarrow> string list option" where
  "txt_strings buf pos nRemaining =
    (if nRemaining = 0 then Some []
     else do {
       b \<leftarrow> rd buf pos;
       if nRemaining < unat b + 1 then Some []
       else do {
         s \<leftarrow> rd_bytes buf (pos + 1) (unat b);
         rest \<leftarrow> txt_strings buf (pos + (unat b + 1)) (nRemaining - (unat b + 1));
         Some (as_text s # rest)
       }
     })"
  by auto
termination by (relation "measure (\<lambda>(buf, pos, nRemaining). nRemaining)") auto

declare txt_strings.simps [simp del]

fun txt_records :: "ns_rr list \<Rightarrow> string list option" where
  "txt_records [] = Some []"
| "txt_records (rr # rrs) = do {
     ss \<leftarrow> txt_strings (rr_buffer rr) 0 (length (rr_data rr));
     rest \<leftarrow> txt_records rrs;
     Some (ss @ rest)
   }"

definition QueryTxt :: "resolver \<Rightarrow> string \<Rightarrow> string list option" where
  "QueryTxt query sName = txt_records (answer_records query sName ns_t_txt)"

section \<open>Discovery\<close>

record RegistryEntry =
  sUrl :: string
  nPriority :: int
  sApiVersions :: string

text \<open>The TXT strings of an instance set the priority, the protocol and the versions.\<close>

fun read_txts :: "string list \<Rightarrow> RegistryEntry \<Rightarrow> string \<Rightarrow> (RegistryEntry \<times> string) outcome" where
  "read_txts [] entry sProto = Val (entry, sProto)"
| "read_txts (sTxt # ts) entry sProto =
     bindO (if starts_with ''pri='' sTxt then bindO (atoi (drop 4 sTxt)) (\<lambda>n. Val (entry\<lparr>nPriority := n\<rparr>)) else Val entry) (\<lambda>entry.
       let sProto = (if starts_with ''api_proto='' sTxt then drop 10 sTxt else sProto);
           entry = (if starts_with ''api_ver='' sTxt then entry\<lparr>sApiVersions := drop 8 sTxt\<rparr> else entry)
       in read_txts ts entry sProto)"

definition pop_dot :: "string \<Rightarrow> string" where
  "pop_dot s = (if s \<noteq> [] \<and> last s = CHR ''.'' then butlast s else s)"

definition registry_url :: "string \<Rightarrow> SrvResult \<Rightarrow> string" where
  "registry_url sProto srv = sProto @ ''://'' @ pop_dot (sTarget srv) @ '':'' @ to_string (uint (srv_nPort srv))"

text \<open>One instance: its entry, or none when it has no usable SRV record.\<close>

definition read_instance :: "resolver \<Rightarrow> string \<Rightarrow> RegistryEntry option outcome" where
  "read_instance query sInstance =
    (case QuerySrv query sInstance of
       None \<Rightarrow> Undef
     | Some srv \<Rightarrow>
         if sTarget srv = [] \<or> srv_nPort srv = 0 then Val None
         else (case QueryTxt query sInstance of
           None \<Rightarrow> Undef
         | Some ts \<Rightarrow>
             bindO (read_txts ts \<lparr>sUrl = [], nPriority = 100, sApiVersions = []\<rparr> ''http'') (\<lambda>(entry, sProto).
               Val (Some (entry\<lparr>sUrl := registry_url sProto srv\<rparr>)))))"

definition add_entry :: "RegistryEntry option \<Rightarrow> RegistryEntry list \<Rightarrow> RegistryEntry list" where
  "add_entry r v =
    (case r of None \<Rightarrow> v | Some entry \<Rightarrow> if \<exists>e \<in> set v. sUrl e = sUrl entry then v else v @ [entry])"

fun read_instances :: "resolver \<Rightarrow> string list \<Rightarrow> RegistryEntry list \<Rightarrow> RegistryEntry list outcome" where
  "read_instances query [] v = Val v"
| "read_instances query (sInstance # is) v =
     bindO (read_instance query sInstance) (\<lambda>r. read_instances query is (add_entry r v))"

text \<open>The instances in the order of the three nested loops.\<close>

definition instances :: "resolver \<Rightarrow> string list \<Rightarrow> string list" where
  "instances query vDomains = concat (map (\<lambda>sDomain.
     concat (map (\<lambda>sService. QueryPtr query (sService @ sDomain)) [''_nmos-register._tcp.'', ''_nmos-registration._tcp.'']))
     vDomains)"

definition DiscoverRegistries ::
  "(RegistryEntry list \<Rightarrow> RegistryEntry list) \<Rightarrow> resolver \<Rightarrow> string option \<Rightarrow> RegistryEntry list outcome" where
  "DiscoverRegistries srt query resolv_conf =
     bindO (read_instances query (instances query (SearchDomains resolv_conf)) []) (\<lambda>v. Val (srt v))"

section \<open>Character strings of a record\<close>

text \<open>The loop stays inside the data of the record, for any data.\<close>

lemma txt_strings_total: "pos + nRemaining \<le> length buf \<Longrightarrow> \<exists>ss. txt_strings buf pos nRemaining = Some ss"
proof (induction buf pos nRemaining rule: txt_strings.induct)
  case (1 buf pos nRemaining)
  show ?case
  proof (cases "nRemaining = 0")
    case True then show ?thesis by (subst txt_strings.simps) simp
  next
    case False
    then have b: "rd buf pos = Some (buf ! pos)" using "1.prems" by (simp add: rd_def)
    show ?thesis
    proof (cases "nRemaining < unat (buf ! pos) + 1")
      case True
      then show ?thesis using False b by (subst txt_strings.simps) simp
    next
      case fits: False
      then have w: "rd_bytes buf (pos + 1) (unat (buf ! pos)) = Some (take (unat (buf ! pos)) (drop (pos + 1) buf))"
        using "1.prems" by (intro rd_bytes_in_range) simp
      from "1.IH" [OF False b fits w] "1.prems" fits show ?thesis
        using False b w by (subst txt_strings.simps) auto
    qed
  qed
qed

lemma txt_records_total: "\<exists>ss. txt_records rrs = Some ss"
proof (induction rrs)
  case (Cons rr rrs)
  then show ?case using txt_strings_total [of 0 "length (rr_data rr)" "rr_buffer rr"] by (auto simp: rr_buffer_def)
qed simp

text \<open>The encoding of RFC 1035: each string with its length in front.\<close>

definition txt_encode :: "bytes list \<Rightarrow> bytes" where
  "txt_encode ts = concat (map (\<lambda>t. word_of_nat (length t) # t) ts)"

lemma txt_strings_encode:
  assumes "\<forall>t \<in> set ts. length t < 256" "drop pos buf = txt_encode ts @ rest" "pos \<le> length buf"
  shows "txt_strings buf pos (length (txt_encode ts)) = Some (map as_text ts)"
  using assms
proof (induction ts arbitrary: pos)
  case Nil
  then show ?case by (subst txt_strings.simps) (simp add: txt_encode_def)
next
  case (Cons t ts)
  let ?n = "length t"
  have n: "unat (word_of_nat ?n :: u8) = ?n" using Cons.prems(1) by (simp add: unat_of_nat)
  have d: "drop pos buf = word_of_nat ?n # t @ txt_encode ts @ rest" using Cons.prems(2) by (simp add: txt_encode_def)
  then have p: "pos < length buf" by (metis drop_all list.distinct(1) not_le)
  have b: "rd buf pos = Some (word_of_nat ?n)" using d p by (simp add: rd_def) (metis Cons_nth_drop_Suc list.inject p)
  have d1: "drop (pos + 1) buf = t @ txt_encode ts @ rest" using d p by (metis Cons_nth_drop_Suc Suc_eq_plus1 list.inject)
  have len: "pos + 1 + ?n \<le> length buf" using arg_cong [OF d1, of length] p by simp
  then have w: "rd_bytes buf (pos + 1) ?n = Some t" using d1 by (simp add: rd_bytes_in_range)
  have d2: "drop (pos + (?n + 1)) buf = txt_encode ts @ rest"
    using arg_cong [OF d1, of "drop ?n"] by (simp add: add.commute add.left_commute)
  have "txt_strings buf (pos + (?n + 1)) (length (txt_encode ts)) = Some (map as_text ts)"
    using Cons.prems(1) len by (intro Cons.IH d2) simp_all
  moreover have "length (txt_encode (t # ts)) = ?n + 1 + length (txt_encode ts)" by (simp add: txt_encode_def)
  ultimately show ?case using b w n by (subst txt_strings.simps) simp
qed

text \<open>
  C40. The TXT records of an instance are read as RFC 1035 encodes them: whatever strings of up to
  255 bytes the records hold, and whatever follows them in the answer buffer, the strings come
  back, record by record.
\<close>

theorem QueryTxt_decodes:
  assumes "query sName ns_t_txt = map (\<lambda>(ts, after). Some \<lparr>rr_type = ns_t_txt, rr_data = txt_encode ts, rr_after = after, rr_name = nm\<rparr>) rrs"
    and "\<forall>(ts, after) \<in> set rrs. \<forall>t \<in> set ts. length t < 256"
  shows "QueryTxt query sName = Some (concat (map (\<lambda>(ts, after). map as_text ts) rrs))"
proof -
  let ?rr = "\<lambda>(ts, after). \<lparr>rr_type = ns_t_txt, rr_data = txt_encode ts, rr_after = after, rr_name = nm\<rparr>"
  have "answer_records query sName ns_t_txt = map ?rr rrs"
    unfolding answer_records_def assms(1) by (induction rrs) auto
  moreover have "txt_records (map ?rr rrs) = Some (concat (map (\<lambda>(ts, after). map as_text ts) rrs))"
    using assms(2)
  proof (induction rrs)
    case (Cons r rrs)
    then show ?case
      using txt_strings_encode [of "fst r" 0 "txt_encode (fst r) @ snd r" "snd r"]
      by (auto simp: rr_buffer_def case_prod_unfold)
  qed simp
  ultimately show ?thesis by (simp add: QueryTxt_def)
qed

theorem QueryTxt_decodes_witness:
  "QueryTxt (\<lambda>_ _. [Some \<lparr>rr_type = 16, rr_data = [3, 112, 114, 105, 0], rr_after = [7], rr_name = \<lambda>_. None\<rparr>]) ''reg''
    = Some [''pri'', '''']"
proof -
  let ?q = "\<lambda>_ _. [Some \<lparr>rr_type = 16, rr_data = [3, 112, 114, 105, 0], rr_after = [7], rr_name = \<lambda>_. None\<rparr>] :: ns_rr option list"
  have "QueryTxt ?q ''reg'' = Some (concat (map (\<lambda>(ts, after). map as_text ts) [([[112, 114, 105], []], [7 :: u8])]))"
    by (rule QueryTxt_decodes [of _ _ "\<lambda>_. None"]) (simp_all add: txt_encode_def)
  moreover have "map as_text [[112, 114, 105], []] = [''pri'', '''']" by code_simp
  ultimately show ?thesis by simp
qed

section \<open>The list of registries\<close>

lemma add_entry_props:
  "distinct (map sUrl v) \<Longrightarrow> distinct (map sUrl (add_entry r v))" "set v \<subseteq> set (add_entry r v)"
  "e \<in> set (add_entry r v) \<Longrightarrow> e \<in> set v \<or> r = Some e" "\<exists>e' \<in> set (add_entry (Some e) v). sUrl e' = sUrl e"
  by (auto simp: add_entry_def split: option.splits if_splits)

definition discovered :: "resolver \<Rightarrow> string list \<Rightarrow> RegistryEntry \<Rightarrow> bool" where
  "discovered query is e \<longleftrightarrow> (\<exists>i \<in> set is. read_instance query i = Val (Some e))"

lemma read_instances_props:
  assumes "read_instances query is v = Val v'" "distinct (map sUrl v)"
  shows "distinct (map sUrl v')" "set v \<subseteq> set v'" "\<And>e. e \<in> set v' \<Longrightarrow> e \<in> set v \<or> discovered query is e"
    "\<And>e. discovered query is e \<Longrightarrow> \<exists>e' \<in> set v'. sUrl e' = sUrl e"
proof -
  have "distinct (map sUrl v') \<and> set v \<subseteq> set v' \<and> (\<forall>e \<in> set v'. e \<in> set v \<or> discovered query is e)
    \<and> (\<forall>e. discovered query is e \<longrightarrow> (\<exists>e' \<in> set v'. sUrl e' = sUrl e))"
    using assms
  proof (induction "is" arbitrary: v)
    case (Cons i "is")
    then obtain r where r: "read_instance query i = Val r" "read_instances query is (add_entry r v) = Val v'"
      by (cases "read_instance query i") auto
    from Cons.IH [OF r(2) add_entry_props(1) [OF Cons.prems(2)]]
    have IH: "distinct (map sUrl v')" "set (add_entry r v) \<subseteq> set v'" "\<forall>e \<in> set v'. e \<in> set (add_entry r v) \<or> discovered query is e"
      "\<forall>e. discovered query is e \<longrightarrow> (\<exists>e' \<in> set v'. sUrl e' = sUrl e)" by blast+
    have "discovered query (i # is) e \<longleftrightarrow> r = Some e \<or> discovered query is e" for e using r(1) by (auto simp: discovered_def)
    then show ?case using IH add_entry_props(2-4) by (metis subset_eq)
  qed (simp_all add: discovered_def)
  then show "distinct (map sUrl v')" "set v \<subseteq> set v'" "\<And>e. e \<in> set v' \<Longrightarrow> e \<in> set v \<or> discovered query is e"
    "\<And>e. discovered query is e \<Longrightarrow> \<exists>e' \<in> set v'. sUrl e' = sUrl e" by blast+
qed

lemma read_instance_SomeD:
  assumes "read_instance query i = Val (Some e)"
  obtains srv sProto where "QuerySrv query i = Some srv" "sTarget srv \<noteq> []" "srv_nPort srv \<noteq> 0" "sUrl e = registry_url sProto srv"
proof (cases "QuerySrv query i")
  case (Some srv)
  moreover obtain ts where "QueryTxt query i = Some ts" using txt_records_total by (auto simp: QueryTxt_def)
  ultimately show ?thesis
    using assms that by (cases "read_txts ts \<lparr>sUrl = [], nPriority = 100, sApiVersions = []\<rparr> ''http''")
      (auto simp: read_instance_def split: if_splits prod.splits)
qed (use assms in \<open>simp add: read_instance_def\<close>)

text \<open>What the standard promises of \<^verbatim>\<open>std::sort\<close> with the comparison of the priorities.\<close>

locale priority_sort =
  fixes srt :: "RegistryEntry list \<Rightarrow> RegistryEntry list"
  assumes perm: "mset (srt v) = mset v" and ordered: "sorted (map nPriority (srt v))"
begin

lemma DiscoverRegistries_result:
  assumes "DiscoverRegistries srt query resolv_conf = Val rs"
  shows "sorted (map nPriority rs)" "distinct (map sUrl rs)"
    "e \<in> set rs \<Longrightarrow> discovered query (instances query (SearchDomains resolv_conf)) e"
    "discovered query (instances query (SearchDomains resolv_conf)) e \<Longrightarrow> \<exists>e' \<in> set rs. sUrl e' = sUrl e"
proof -
  let ?is = "instances query (SearchDomains resolv_conf)"
  from assms obtain v where v: "read_instances query ?is [] = Val v" "rs = srt v"
    unfolding DiscoverRegistries_def by (cases "read_instances query ?is []") auto
  note p = read_instances_props [OF v(1), simplified]
  have s: "mset rs = mset v" using perm v(2) by simp
  then have "mset (map sUrl rs) = mset (map sUrl v)" by simp
  then show "distinct (map sUrl rs)" using p(1) mset_eq_imp_distinct_iff by blast
  show "sorted (map nPriority rs)" using ordered v(2) by simp
  have "set rs = set v" using s by (rule mset_eq_setD)
  then show "e \<in> set rs \<Longrightarrow> discovered query ?is e" "discovered query ?is e \<Longrightarrow> \<exists>e' \<in> set rs. sUrl e' = sUrl e"
    using p(3,4) by auto
qed

end

interpretation by_priority: priority_sort "sort_key nPriority"
  by unfold_locales simp_all

text \<open>
  C32. The registries come best priority first, each address once, and they are exactly the
  usable ones: every entry belongs to an instance that a PTR answer under a search domain names
  and whose SRV record has a target and a port, its address is made of that target and port, and
  every such instance that can be read is in the list under its address.
\<close>

theorem DiscoverRegistries_best_first:
  assumes "priority_sort srt" "DiscoverRegistries srt query resolv_conf = Val rs"
  defines "is \<equiv> instances query (SearchDomains resolv_conf)"
  shows "sorted (map nPriority rs) \<and> distinct (map sUrl rs)
    \<and> (\<forall>e \<in> set rs. \<exists>i srv sProto. i \<in> set is \<and> QuerySrv query i = Some srv \<and> sTarget srv \<noteq> [] \<and> srv_nPort srv \<noteq> 0
         \<and> sUrl e = registry_url sProto srv)
    \<and> (\<forall>i \<in> set is. \<forall>e. read_instance query i = Val (Some e) \<longrightarrow> sUrl e \<in> sUrl ` set rs)"
proof -
  note r = priority_sort.DiscoverRegistries_result [OF assms(1,2), folded is_def]
  have "\<exists>i srv sProto. i \<in> set is \<and> QuerySrv query i = Some srv \<and> sTarget srv \<noteq> [] \<and> srv_nPort srv \<noteq> 0
      \<and> sUrl e = registry_url sProto srv" if "e \<in> set rs" for e
  proof -
    from r(3) [OF that] obtain i where "i \<in> set is" "read_instance query i = Val (Some e)" by (auto simp: discovered_def)
    then show ?thesis by (meson read_instance_SomeD)
  qed
  moreover have "sUrl e \<in> sUrl ` set rs" if "i \<in> set is" "read_instance query i = Val (Some e)" for i e
    using r(4) [of e] that unfolding discovered_def by (metis image_eqI)
  ultimately show ?thesis using r(1,2) by blast
qed

definition demo_resolver :: resolver where
  "demo_resolver sName t =
    (if t = ns_t_ptr then (if sName = ''_nmos-register._tcp.lan'' then
        [Some \<lparr>rr_type = 12, rr_data = [], rr_after = [], rr_name = \<lambda>_. Some ''b''\<rparr>,
         Some \<lparr>rr_type = 12, rr_data = [], rr_after = [], rr_name = \<lambda>_. Some ''a''\<rparr>] else [])
     else if t = ns_t_srv then
       [Some \<lparr>rr_type = 33, rr_data = [0, 0, 0, 0, 0, 80], rr_after = [], rr_name = \<lambda>_. Some (sName @ ''.lan.'')\<rparr>]
     else if t = ns_t_txt \<and> sName = ''a'' then
       [Some \<lparr>rr_type = 16, rr_data = [5, 112, 114, 105, 61, 49], rr_after = [], rr_name = \<lambda>_. None\<rparr>] \<comment> \<open>\<^verbatim>\<open>pri=1\<close>\<close>
     else [])"

theorem DiscoverRegistries_best_first_witness:
  "\<exists>rs. DiscoverRegistries (sort_key nPriority) demo_resolver (Some ''search lan'') = Val rs
     \<and> map sUrl rs = [''http://a.lan:80'', ''http://b.lan:80''] \<and> sorted (map nPriority rs)"
proof -
  have "(case DiscoverRegistries (sort_key nPriority) demo_resolver (Some ''search lan'') of
      Val rs \<Rightarrow> map sUrl rs = [''http://a.lan:80'', ''http://b.lan:80''] | _ \<Rightarrow> False)" by code_simp
  then obtain rs where rs: "DiscoverRegistries (sort_key nPriority) demo_resolver (Some ''search lan'') = Val rs"
      "map sUrl rs = [''http://a.lan:80'', ''http://b.lan:80'']"
    by (auto split: outcome.splits)
  from DiscoverRegistries_best_first [OF by_priority.priority_sort_axioms rs(1)] have "sorted (map nPriority rs)" by (rule conjunct1)
  with rs show ?thesis by (intro exI [of _ rs] conjI)
qed

end
