(* ===== verification/Bmca.thy ===== *)
theory Bmca
  imports Prelude
begin

text \<open>
  The best master clock comparison of \<^verbatim>\<open>src/ptp/bmca.h\<close> and \<^verbatim>\<open>src/ptp/bmca.cpp\<close>: clock and port
  identities, the data set of an Announce message, \<^verbatim>\<open>CompareDatasets\<close> with the field the
  decision fell on, and the printed form of an identity.  The lemmas relate the comparison to a
  lexicographic order on a key, show what it needs to be an order at all, and prove that the
  left-to-right scan both users of the comparison run (\<^verbatim>\<open>RunBmca\<close> and the meta comparison of
  \<^verbatim>\<open>GetStatusJson\<close>) ends on an unbeaten data set.
\<close>

section \<open>Identities and data sets\<close>

text \<open>\<^verbatim>\<open>std::array<uint8_t, 8>\<close>; every identity the client builds has eight bytes.\<close>

type_synonym ClockIdentity = bytes

datatype PortIdentity = PortIdentity (clockIdentity: ClockIdentity) (nPort: u16)

text \<open>The defaulted \<^verbatim>\<open>operator<=>\<close>: member-wise, the clock identity first.\<close>

instantiation PortIdentity :: linorder
begin

definition less_eq_PortIdentity :: "PortIdentity \<Rightarrow> PortIdentity \<Rightarrow> bool" where
  "a \<le> b \<longleftrightarrow> clockIdentity a < clockIdentity b
     \<or> (clockIdentity a = clockIdentity b \<and> nPort a \<le> nPort b)"

definition less_PortIdentity :: "PortIdentity \<Rightarrow> PortIdentity \<Rightarrow> bool" where
  "a < b \<longleftrightarrow> clockIdentity a < clockIdentity b
     \<or> (clockIdentity a = clockIdentity b \<and> nPort a < nPort b)"

instance
  by standard (auto simp: less_eq_PortIdentity_def less_PortIdentity_def intro: PortIdentity.expand)

end

record AnnounceDataset =
  ds_source :: PortIdentity
  nPriority1 :: u8
  nClockClass :: u8
  nClockAccuracy :: u8
  nOffsetScaledLogVariance :: u16
  nPriority2 :: u8
  grandmasterIdentity :: ClockIdentity
  nStepsRemoved :: u16
  nTimeSource :: u8
  nUtcOffset :: int
  bLeap61 :: bool
  bLeap59 :: bool
  bUtcValid :: bool
  bTimeTraceable :: bool
  bFreqTraceable :: bool

text \<open>A value-initialised data set, with the member initialisers of the struct.\<close>

definition default_dataset :: AnnounceDataset where
  "default_dataset = \<lparr> ds_source = PortIdentity (replicate 8 0) 0, nPriority1 = 255,
     nClockClass = 255, nClockAccuracy = 0xFE, nOffsetScaledLogVariance = 0xFFFF,
     nPriority2 = 255, grandmasterIdentity = replicate 8 0, nStepsRemoved = 0,
     nTimeSource = 0xA0, nUtcOffset = 37, bLeap61 = False, bLeap59 = False,
     bUtcValid = False, bTimeTraceable = False, bFreqTraceable = False \<rparr>"

record Comparison =
  nResult :: int
  sDecidingField :: string

section \<open>The comparison\<close>

definition decide :: "bool \<Rightarrow> string \<Rightarrow> Comparison" where
  "decide a_wins field = \<lparr> nResult = (if a_wins then -1 else 1), sDecidingField = field \<rparr>"

definition CompareDatasets :: "AnnounceDataset \<Rightarrow> AnnounceDataset \<Rightarrow> Comparison" where
  "CompareDatasets a b =
     (if grandmasterIdentity a \<noteq> grandmasterIdentity b then
        if nPriority1 a \<noteq> nPriority1 b then decide (nPriority1 a < nPriority1 b) ''priority1''
        else if nClockClass a \<noteq> nClockClass b then
          decide (nClockClass a < nClockClass b) ''clockClass''
        else if nClockAccuracy a \<noteq> nClockAccuracy b then
          decide (nClockAccuracy a < nClockAccuracy b) ''clockAccuracy''
        else if nOffsetScaledLogVariance a \<noteq> nOffsetScaledLogVariance b then
          decide (nOffsetScaledLogVariance a < nOffsetScaledLogVariance b) ''offsetScaledLogVariance''
        else if nPriority2 a \<noteq> nPriority2 b then decide (nPriority2 a < nPriority2 b) ''priority2''
        else decide (grandmasterIdentity a < grandmasterIdentity b) ''grandmasterIdentity''
      else if nStepsRemoved a \<noteq> nStepsRemoved b then
        decide (nStepsRemoved a < nStepsRemoved b) ''stepsRemoved''
      else if clockIdentity (ds_source a) \<noteq> clockIdentity (ds_source b) then
        decide (clockIdentity (ds_source a) < clockIdentity (ds_source b)) ''senderIdentity''
      else if nPort (ds_source a) \<noteq> nPort (ds_source b) then
        decide (nPort (ds_source a) < nPort (ds_source b)) ''senderPort''
      else \<lparr> nResult = 0, sDecidingField = ''identical'' \<rparr>)"

section \<open>Printing an identity\<close>

definition hex_digit :: "nat \<Rightarrow> char" where
  "hex_digit n = ''0123456789abcdef'' ! n"

definition hex2 :: "u8 \<Rightarrow> string" where
  "hex2 b = [hex_digit (unat b div 16), hex_digit (unat b mod 16)]"

fun IdentityToString :: "ClockIdentity \<Rightarrow> string" where
  "IdentityToString [] = []"
| "IdentityToString [b] = hex2 b"
| "IdentityToString (b # c # bs) = hex2 b @ '':'' @ IdentityToString (c # bs)"

lemma hex_digit_eq_iff:
  assumes "m < 16" "n < 16"
  shows "hex_digit m = hex_digit n \<longleftrightarrow> m = n"
proof -
  have "distinct ''0123456789abcdef''" by simp
  then show ?thesis
    unfolding hex_digit_def using assms by (subst nth_eq_iff_index_eq) simp_all
qed

lemma hex2_eq_iff: "hex2 a = hex2 b \<longleftrightarrow> a = b"
proof
  assume h: "hex2 a = hex2 b"
  have lt: "unat c div 16 < 16" "unat c mod 16 < 16" for c :: u8
  proof -
    have "unat c < 2 ^ LENGTH(8)" by (rule unsigned_less)
    then show "unat c div 16 < 16" "unat c mod 16 < 16" by (simp_all add: less_mult_imp_div_less)
  qed
  from h have "unat a div 16 = unat b div 16" "unat a mod 16 = unat b mod 16"
    by (simp_all add: hex2_def hex_digit_eq_iff lt)
  then have "unat a = unat b" by (metis div_mult_mod_eq)
  then show "a = b" by (rule unsigned_word_eqI)
qed simp

lemma IdentityToString_Cons:
  "IdentityToString (b # bs) = hex2 b @ (if bs = [] then [] else CHR '':'' # IdentityToString bs)"
  by (cases bs) simp_all

lemma length_IdentityToString: "length (IdentityToString bs) = 3 * length bs - 1"
  by (induction bs) (auto simp: IdentityToString_Cons hex2_def simp del: IdentityToString.simps(2,3))

lemma IdentityToString_eqD:
  "length a = length b \<Longrightarrow> IdentityToString a = IdentityToString b \<Longrightarrow> a = b"
proof (induction a b rule: list_induct2)
  case (Cons x xs y ys)
  then have "hex2 x = hex2 y" and "xs = ys"
    by (auto simp: IdentityToString_Cons hex2_def split: if_splits simp del: IdentityToString.simps(2,3))
  then show ?case by (simp add: hex2_eq_iff)
qed simp

section \<open>Reference order and helper lemmas\<close>

text \<open>What an Announce says of its grandmaster, and the full lexicographic key.\<close>

definition gm_attrs :: "AnnounceDataset \<Rightarrow> u8 \<times> u8 \<times> u8 \<times> u16 \<times> u8" where
  "gm_attrs d = (nPriority1 d, nClockClass d, nClockAccuracy d, nOffsetScaledLogVariance d, nPriority2 d)"

definition ds_key ::
  "AnnounceDataset \<Rightarrow> u8 \<times> u8 \<times> u8 \<times> u16 \<times> u8 \<times> ClockIdentity \<times> u16 \<times> PortIdentity" where
  "ds_key d = (nPriority1 d, nClockClass d, nClockAccuracy d, nOffsetScaledLogVariance d,
     nPriority2 d, grandmasterIdentity d, nStepsRemoved d, ds_source d)"

text \<open>Two announces agree on the grandmaster they both name.\<close>

definition gm_consistent :: "AnnounceDataset \<Rightarrow> AnnounceDataset \<Rightarrow> bool" where
  "gm_consistent a b \<longleftrightarrow> (grandmasterIdentity a = grandmasterIdentity b \<longrightarrow> gm_attrs a = gm_attrs b)"

definition beats :: "AnnounceDataset \<Rightarrow> AnnounceDataset \<Rightarrow> bool" where
  "beats a b \<longleftrightarrow> nResult (CompareDatasets a b) < 0"

lemma decide_simps [simp]:
  "nResult (decide w f) = (if w then -1 else 1)" "sDecidingField (decide w f) = f"
  by (simp_all add: decide_def)

lemma gm_consistent_sym: "gm_consistent a b \<Longrightarrow> gm_consistent b a"
  by (auto simp: gm_consistent_def)

text \<open>One link of the comparison chain, and the verdict of a lexicographic comparison.\<close>

definition cmp_by :: "'a::linorder \<Rightarrow> 'a \<Rightarrow> string \<Rightarrow> Comparison \<Rightarrow> Comparison" where
  "cmp_by x y field rest = (if x \<noteq> y then decide (x < y) field else rest)"

definition verdict :: "'a::linorder \<Rightarrow> 'a \<Rightarrow> int" where
  "verdict x y = (if x < y then -1 else if y < x then 1 else 0)"

lemma cmp_by_neg:
  "nResult r' = - nResult r \<Longrightarrow> nResult (cmp_by y x f r') = - nResult (cmp_by x y f r)"
  by (auto simp: cmp_by_def)

lemma cmp_by_field:
  "sDecidingField r' = sDecidingField r \<Longrightarrow> sDecidingField (cmp_by y x f r') = sDecidingField (cmp_by x y f r)"
  by (simp add: cmp_by_def)

lemma cmp_by_verdict:
  "nResult r = verdict k k' \<Longrightarrow> nResult (cmp_by x y f r) = verdict (x, k) (y, k')"
  by (auto simp: cmp_by_def verdict_def)

lemma verdict_same_fst: "verdict (x, k) (x, k') = verdict k k'"
  by (simp add: verdict_def)

lemma verdict_diff_fst: "x \<noteq> y \<Longrightarrow> verdict (x, k) (y, k') = (if x < y then -1 else 1)"
  by (auto simp: verdict_def)

definition identical :: Comparison where
  "identical = \<lparr> nResult = 0, sDecidingField = ''identical'' \<rparr>"

lemma identical_simps [simp]: "nResult identical = 0" "sDecidingField identical = ''identical''"
  by (simp_all add: identical_def)

lemma CompareDatasets_same_gm:
  assumes "grandmasterIdentity a = grandmasterIdentity b"
  shows "CompareDatasets a b = cmp_by (nStepsRemoved a) (nStepsRemoved b) ''stepsRemoved''
     (cmp_by (clockIdentity (ds_source a)) (clockIdentity (ds_source b)) ''senderIdentity''
       (cmp_by (nPort (ds_source a)) (nPort (ds_source b)) ''senderPort'' identical))"
  by (simp add: assms CompareDatasets_def cmp_by_def identical_def)

lemma CompareDatasets_diff_gm:
  assumes "grandmasterIdentity a \<noteq> grandmasterIdentity b"
  shows "CompareDatasets a b = cmp_by (nPriority1 a) (nPriority1 b) ''priority1''
     (cmp_by (nClockClass a) (nClockClass b) ''clockClass''
       (cmp_by (nClockAccuracy a) (nClockAccuracy b) ''clockAccuracy''
         (cmp_by (nOffsetScaledLogVariance a) (nOffsetScaledLogVariance b) ''offsetScaledLogVariance''
           (cmp_by (nPriority2 a) (nPriority2 b) ''priority2''
             (cmp_by (grandmasterIdentity a) (grandmasterIdentity b) ''grandmasterIdentity'' identical)))))"
  unfolding CompareDatasets_def cmp_by_def if_P [OF assms] ..

lemma CompareDatasets_neg: "nResult (CompareDatasets b a) = - nResult (CompareDatasets a b)"
proof (cases "grandmasterIdentity a = grandmasterIdentity b")
  case True
  then show ?thesis
    by (simp only: CompareDatasets_same_gm [OF True] CompareDatasets_same_gm [OF True [symmetric]])
      (intro cmp_by_neg, simp)
next
  case False
  show ?thesis
    by (simp only: CompareDatasets_diff_gm [OF False] CompareDatasets_diff_gm [OF not_sym [OF False]])
      (intro cmp_by_neg, simp)
qed

lemma CompareDatasets_field: "sDecidingField (CompareDatasets b a) = sDecidingField (CompareDatasets a b)"
proof (cases "grandmasterIdentity a = grandmasterIdentity b")
  case True
  then show ?thesis
    by (simp only: CompareDatasets_same_gm [OF True] CompareDatasets_same_gm [OF True [symmetric]])
      (intro cmp_by_field, simp)
next
  case False
  show ?thesis
    by (simp only: CompareDatasets_diff_gm [OF False] CompareDatasets_diff_gm [OF not_sym [OF False]])
      (intro cmp_by_field, simp)
qed

lemma CompareDatasets_draw:
  "nResult (CompareDatasets a b) = 0 \<longleftrightarrow>
     grandmasterIdentity a = grandmasterIdentity b \<and> nStepsRemoved a = nStepsRemoved b
     \<and> ds_source a = ds_source b"
proof (cases "grandmasterIdentity a = grandmasterIdentity b")
  case True
  then show ?thesis
    by (auto simp: CompareDatasets_same_gm cmp_by_def PortIdentity.expand)
next
  case False
  then show ?thesis
    unfolding CompareDatasets_diff_gm [OF False] cmp_by_def by simp
qed

lemma PortIdentity_verdict:
  "verdict p q = nResult (cmp_by (clockIdentity p) (clockIdentity q) f
     (cmp_by (nPort p) (nPort q) g identical))"
  by (auto simp: verdict_def cmp_by_def less_PortIdentity_def PortIdentity.expand)

lemma CompareDatasets_by_key:
  assumes "gm_consistent a b"
  shows "nResult (CompareDatasets a b) = verdict (ds_key a) (ds_key b)"
proof (cases "grandmasterIdentity a = grandmasterIdentity b")
  case True
  with assms have "gm_attrs a = gm_attrs b" by (simp add: gm_consistent_def)
  with True have "verdict (ds_key a) (ds_key b)
      = verdict (nStepsRemoved a, ds_source a) (nStepsRemoved b, ds_source b)"
    by (simp add: ds_key_def gm_attrs_def verdict_same_fst)
  also have "\<dots> = nResult (CompareDatasets a b)"
    unfolding CompareDatasets_same_gm [OF True]
    by (rule cmp_by_verdict [symmetric], rule PortIdentity_verdict [symmetric])
  finally show ?thesis by simp
next
  case False
  have gm: "nResult (cmp_by (grandmasterIdentity a) (grandmasterIdentity b) f identical)
     = verdict (grandmasterIdentity a, k) (grandmasterIdentity b, k')" for f and k k' :: "u16 \<times> PortIdentity"
    using False by (simp add: cmp_by_def verdict_diff_fst)
  show ?thesis
    unfolding CompareDatasets_diff_gm [OF False] ds_key_def
    by (rule cmp_by_verdict, rule cmp_by_verdict, rule cmp_by_verdict, rule cmp_by_verdict,
        rule cmp_by_verdict, rule gm)
qed

lemma beats_by_key: "gm_consistent a b \<Longrightarrow> beats a b \<longleftrightarrow> ds_key a < ds_key b"
  by (simp add: beats_def CompareDatasets_by_key verdict_def)

section \<open>Scanning for the best master\<close>

text \<open>
  The loop of both users: keep a candidate, replace it by an entry that beats it.  The locale
  states what the loop needs of the comparison; the interpretation gives it for
  \<^verbatim>\<open>CompareDatasets\<close> on announces that agree about their grandmasters.
\<close>

definition keep_best :: "('a \<Rightarrow> 'a \<Rightarrow> bool) \<Rightarrow> 'a option \<Rightarrow> 'a \<Rightarrow> 'a option" where
  "keep_best wins best x = (case best of None \<Rightarrow> Some x | Some b \<Rightarrow> if wins x b then Some x else Some b)"

definition scan_best :: "('a \<Rightarrow> 'a \<Rightarrow> bool) \<Rightarrow> 'a list \<Rightarrow> 'a option" where
  "scan_best wins xs = foldl (keep_best wins) None xs"

lemma scan_best_snoc: "scan_best wins (xs @ [x]) = keep_best wins (scan_best wins xs) x"
  by (simp add: scan_best_def)

lemma scan_best_None_iff [simp]: "scan_best wins xs = None \<longleftrightarrow> xs = []"
  by (cases xs rule: rev_cases)
    (auto simp: scan_best_snoc keep_best_def scan_best_def split: option.splits)

lemma scan_best_mem: "scan_best wins xs = Some b \<Longrightarrow> b \<in> set xs"
  by (induction xs arbitrary: b rule: rev_induct)
    (auto simp: scan_best_snoc keep_best_def scan_best_def split: option.splits if_splits)

lemma scan_best_map:
  assumes "\<And>x y. wins (h x) (h y) = wins' x y"
  shows "scan_best wins (map h xs) = map_option h (scan_best wins' xs)"
  by (induction xs rule: rev_induct)
    (auto simp: scan_best_snoc keep_best_def assms scan_best_def split: option.splits)

locale selection_order =
  fixes wins :: "'a \<Rightarrow> 'a \<Rightarrow> bool"
    and compat :: "'a \<Rightarrow> 'a \<Rightarrow> bool"
  assumes compat_sym: "compat a b \<Longrightarrow> compat b a"
    and wins_irrefl: "\<not> wins a a"
    and unbeaten_trans: "compat a b \<Longrightarrow> compat b c \<Longrightarrow> compat a c \<Longrightarrow>
          \<not> wins a b \<Longrightarrow> wins c b \<Longrightarrow> \<not> wins a c"
begin

lemma scan_unbeaten:
  assumes "\<And>x y. x \<in> set xs \<Longrightarrow> y \<in> set xs \<Longrightarrow> compat x y" and "scan_best wins xs = Some b"
  shows "\<forall>x \<in> set xs. \<not> wins x b"
  using assms
proof (induction xs arbitrary: b rule: rev_induct)
  case Nil
  then show ?case by simp
next
  case (snoc y ys)
  show ?case
  proof (cases "scan_best wins ys")
    case None
    with snoc.prems(2) show ?thesis by (auto simp: scan_best_snoc keep_best_def wins_irrefl)
  next
    case (Some c)
    have c: "c \<in> set ys" using Some by (rule scan_best_mem)
    have IH: "\<forall>x \<in> set ys. \<not> wins x c" using snoc.IH [OF _ Some] snoc.prems(1) by simp
    have b: "b = (if wins y c then y else c)"
      using snoc.prems(2) Some by (auto simp: scan_best_snoc keep_best_def split: if_splits)
    show ?thesis
    proof (cases "wins y c")
      case True
      have "\<not> wins x y" if "x \<in> set ys" for x
        using unbeaten_trans [of x c y] snoc.prems(1) that c IH True by simp
      with b True show ?thesis by (simp add: wins_irrefl)
    next
      case False
      with b IH show ?thesis by simp
    qed
  qed
qed

end

interpretation bmca_order: selection_order beats gm_consistent
proof
  show "gm_consistent b a" if "gm_consistent a b" for a b
    using that by (rule gm_consistent_sym)
  show "\<not> beats a a" for a
    by (simp add: beats_def CompareDatasets_by_key gm_consistent_def verdict_def)
  show "\<not> beats a c"
    if "gm_consistent a b" "gm_consistent b c" "gm_consistent a c" "\<not> beats a b" "beats c b" for a b c
  proof -
    have "ds_key b \<le> ds_key a" "ds_key c < ds_key b"
      using that gm_consistent_sym [of b c] by (simp_all add: beats_by_key not_less)
    then have "\<not> ds_key a < ds_key c" by (meson less_le_trans less_asym)
    with that(3) show ?thesis by (simp add: beats_by_key)
  qed
qed

section \<open>Properties\<close>



text \<open>
  The comparison is antisymmetric on all inputs: swapping the two data sets negates the
  verdict and names the same deciding field; a draw means that both data sets name the same
  grandmaster, the same number of steps and the same sender port.
\<close>

theorem CompareDatasets_antisym:
  "nResult (CompareDatasets b a) = - nResult (CompareDatasets a b)
   \<and> sDecidingField (CompareDatasets b a) = sDecidingField (CompareDatasets a b)
   \<and> (nResult (CompareDatasets a b) = 0 \<longleftrightarrow>
        grandmasterIdentity a = grandmasterIdentity b \<and> nStepsRemoved a = nStepsRemoved b
        \<and> ds_source a = ds_source b)"
  using CompareDatasets_neg [of b a] CompareDatasets_field [of b a] CompareDatasets_draw [of a b]
  by blast

text \<open>
  Without that agreement the comparison is not transitive: three announces, two of which
  name the same grandmaster with different attributes, can beat each other in a cycle, so that
  no candidate is unbeaten and the winner depends on the order of the table.
\<close>

theorem CompareDatasets_cycle:
  "\<exists>a b c. beats a c \<and> beats c b \<and> beats b a"
proof -
  let ?a = "default_dataset\<lparr>nPriority1 := 1, nStepsRemoved := 2\<rparr>"
  let ?b = "default_dataset\<lparr>nPriority1 := 3, nStepsRemoved := 1\<rparr>"
  let ?c = "default_dataset\<lparr>nPriority1 := 2, grandmasterIdentity := replicate 8 1\<rparr>"
  have "beats ?a ?c" "beats ?c ?b" "beats ?b ?a"
    by (simp_all add: beats_def CompareDatasets_def default_dataset_def)
  then show ?thesis by blast
qed

text \<open>
  The printed form of a clock identity fills 23 of the 31 usable characters of its buffer,
  and two identities of eight bytes print alike only if they are equal, so the log, the status
  page and the SDP cannot confuse two grandmasters.
\<close>

theorem IdentityToString_faithful:
  assumes "length a = 8" "length b = 8"
  shows "length (IdentityToString a) = 23
    \<and> (IdentityToString a = IdentityToString b \<longleftrightarrow> a = b)"
  using assms IdentityToString_eqD [of a b] by (auto simp: length_IdentityToString)

theorem IdentityToString_faithful_witness:
  "length (IdentityToString [0, 0x1d, 0xc1, 0xff, 0xfe, 1, 2, 0xab]) = 23
   \<and> IdentityToString [0, 0x1d, 0xc1, 0xff, 0xfe, 1, 2, 0xab] = ''00:1d:c1:ff:fe:01:02:ab''"
  using IdentityToString_faithful [of "[0, 0x1d, 0xc1, 0xff, 0xfe, 1, 2, 0xab]" "replicate 8 0"]
  by (simp add: hex2_def hex_digit_def)

end
