(* ===== verification/Ptp_State.thy ===== *)
theory Ptp_State
  imports Bmca Cxx_Float
begin

text \<open>
  The state of \<^verbatim>\<open>PtpClient\<close> (\<^verbatim>\<open>src/ptp/ptpclient.h\<close>) and the operations on it that involve no
  network message: the clock servo (\<^verbatim>\<open>CompleteMeasurement\<close>, \<^verbatim>\<open>AddOffsetSample\<close>), the mapping
  between PTP time and the system clock, the master selection \<^verbatim>\<open>RunBmca\<close>, and \<^verbatim>\<open>SetDomain\<close>.
  Times of the steady clock are integers in nanoseconds; the value of \<^verbatim>\<open>RealtimeNs()\<close> is an
  argument of the operations that read it.  The threads serialise on \<^verbatim>\<open>m_mutex\<close>, so each handler
  is one atomic step on this record.  Log lines are not modelled.
\<close>

section \<open>State\<close>

record ForeignMaster =
  fm_dataset :: AnnounceDataset
  nAnnounceCount :: u64
  aAnnounceCount :: "u64 list"
  aDataset :: "AnnounceDataset list"
  lastSeen :: int
  firstSeen :: int
  sAddress :: string
  sBmcaInfo :: string
  bSelected :: bool

definition default_foreign :: ForeignMaster where
  "default_foreign = \<lparr> fm_dataset = default_dataset, nAnnounceCount = 0, aAnnounceCount = [0, 0],
     aDataset = [default_dataset, default_dataset], lastSeen = 0, firstSeen = 0, sAddress = [],
     sBmcaInfo = [], bSelected = False \<rparr>"

record PtpClient =
  m_vInterfaces :: "string list"
  m_nDomain :: int
  m_ownIdentity :: ClockIdentity
  m_mForeign :: "(PortIdentity, ForeignMaster) omap"
  m_selectedMaster :: "PortIdentity option"
  m_nSyncSeq :: u16
  m_nSyncRxNs :: u64
  m_bAwaitFollowUp :: bool
  m_nDelaySeq :: u16
  m_nDelayReqTxNs :: u64
  m_dMeanPathDelayNs :: double
  m_bHaveDelay :: bool
  m_qOffsetWindow :: "double list"
  m_dSmoothedOffsetNs :: double
  m_bSynced :: bool
  m_nMappingNs :: s64
  m_nSyncCount :: u64
  m_qOffsetHistory :: "(u64 \<times> double) list"
  m_lastSyncSeen :: int

text \<open>A freshly constructed client, with the member initialisers of the class.\<close>

definition init_client :: "string list \<Rightarrow> int \<Rightarrow> ClockIdentity \<Rightarrow> PtpClient" where
  "init_client ifs nDomain own = \<lparr> m_vInterfaces = take 2 ifs, m_nDomain = nDomain, m_ownIdentity = own,
     m_mForeign = [], m_selectedMaster = None, m_nSyncSeq = 0, m_nSyncRxNs = 0,
     m_bAwaitFollowUp = False, m_nDelaySeq = 0, m_nDelayReqTxNs = 0, m_dMeanPathDelayNs = 0,
     m_bHaveDelay = False, m_qOffsetWindow = [], m_dSmoothedOffsetNs = 0, m_bSynced = False,
     m_nMappingNs = 0, m_nSyncCount = 0, m_qOffsetHistory = [], m_lastSyncSeen = 0 \<rparr>"

section \<open>The clock servo\<close>

text \<open>\<^verbatim>\<open>sorted[sorted.size()/2]\<close> of a sorted copy of the window.\<close>

definition median :: "double list \<Rightarrow> double" where
  "median w = sort w ! (length w div 2)"

text \<open>\<^verbatim>\<open>old*0.9 + sample*0.1\<close> in double arithmetic.\<close>

definition low_pass :: "double \<Rightarrow> double \<Rightarrow> double" where
  "low_pass old new = rnd64 (rnd64 (old * rnd64 (9/10)) + rnd64 (new * rnd64 (1/10)))"

text \<open>\<^verbatim>\<open>push_back\<close> on a queue bounded by \<^verbatim>\<open>if(size() > n) pop_front()\<close>.\<close>

definition push_bounded :: "nat \<Rightarrow> 'a list \<Rightarrow> 'a \<Rightarrow> 'a list" where
  "push_bounded n q x = (let q' = q @ [x] in if n < length q' then tl q' else q')"

definition AddOffsetSample :: "u64 \<Rightarrow> double \<Rightarrow> PtpClient \<Rightarrow> PtpClient" where
  "AddOffsetSample rt d s =
     (let w0 = (if 8 \<le> length (m_qOffsetWindow s) \<and> 50000000 < \<bar>rnd64 (d - m_dSmoothedOffsetNs s)\<bar>
                then [] else m_qOffsetWindow s);
          w = push_bounded 16 w0 d;
          s1 = s\<lparr>m_qOffsetWindow := w\<rparr>;
          s2 = (if 4 \<le> length w then
                  let sm = (if m_bSynced s1 then low_pass (m_dSmoothedOffsetNs s1) (median w) else median w)
                  in s1\<lparr>m_dSmoothedOffsetNs := sm, m_nMappingNs := word_of_int (trunc sm), m_bSynced := True\<rparr>
                else s1);
          nNowMs = (rt + m_nMappingNs s2) div 1000000
      in s2\<lparr>m_qOffsetHistory := push_bounded 300 (m_qOffsetHistory s2)
             (nNowMs, rnd64 (d - m_dSmoothedOffsetNs s2))\<rparr>)"

definition CompleteMeasurement :: "u64 \<Rightarrow> u64 \<Rightarrow> u64 \<Rightarrow> PtpClient \<Rightarrow> PtpClient" where
  "CompleteMeasurement rt nT1 nT2 s =
     (let dM2S = rnd64 (of_int (sint (nT1 - nT2)));
          dOffset = rnd64 (dM2S + (if m_bHaveDelay s then m_dMeanPathDelayNs s else 0));
          s1 = AddOffsetSample rt dOffset s
      in s1\<lparr>m_nSyncCount := m_nSyncCount s1 + 1\<rparr>)"

definition PtpTimeNs :: "u64 \<Rightarrow> PtpClient \<Rightarrow> u64" where
  "PtpTimeNs rt s = (if m_bSynced s then rt + m_nMappingNs s else 0)"

definition PtpToRealtimeNs :: "u64 \<Rightarrow> PtpClient \<Rightarrow> u64" where
  "PtpToRealtimeNs nPtpNs s = nPtpNs - m_nMappingNs s"

section \<open>Master selection\<close>

text \<open>The loop over the table: qualified entries only, the first unbeaten one wins.\<close>

definition best_master :: "(PortIdentity, ForeignMaster) omap \<Rightarrow> (PortIdentity \<times> ForeignMaster) option" where
  "best_master m = scan_best (\<lambda>x b. beats (fm_dataset (snd x)) (fm_dataset (snd b)))
     (filter (\<lambda>x. 2 \<le> nAnnounceCount (snd x)) m)"

definition annotate :: "(PortIdentity \<times> ForeignMaster) option \<Rightarrow> PortIdentity \<Rightarrow> ForeignMaster \<Rightarrow> ForeignMaster" where
  "annotate best k f =
     (let sel = (case best of None \<Rightarrow> False | Some (b, _) \<Rightarrow> k = b);
          f1 = f\<lparr>bSelected := sel\<rparr>
      in if sel then f1\<lparr>sBmcaInfo := ''selected''\<rparr>
         else if nAnnounceCount f = 0 \<and> 0 < aAnnounceCount f ! 1 then
           f1\<lparr>sBmcaInfo := ''only on blue - not eligible''\<rparr>
         else if nAnnounceCount f < 2 then f1\<lparr>sBmcaInfo := ''not yet qualified''\<rparr>
         else (case best of None \<Rightarrow> f1
               | Some (b, fb) \<Rightarrow> f1\<lparr>sBmcaInfo := ''loses to '' @ IdentityToString (clockIdentity b)
                    @ '' on '' @ sDecidingField (CompareDatasets (fm_dataset fb) (fm_dataset f))\<rparr>))"

definition RunBmca :: "PtpClient \<Rightarrow> PtpClient" where
  "RunBmca s =
     (let best = best_master (m_mForeign s);
          s1 = s\<lparr>m_mForeign := map (\<lambda>(k, f). (k, annotate best k f)) (m_mForeign s)\<rparr>;
          newMaster = map_option fst best
      in if newMaster \<noteq> m_selectedMaster s1 then
           let s2 = s1\<lparr>m_selectedMaster := newMaster, m_bAwaitFollowUp := False,
                       m_bHaveDelay := False, m_qOffsetWindow := []\<rparr>
           in (if newMaster \<noteq> None then s2 else s2\<lparr>m_bSynced := False\<rparr>)
         else s1)"

definition SetDomain :: "int \<Rightarrow> PtpClient \<Rightarrow> PtpClient" where
  "SetDomain nDomain s =
     (if nDomain = m_nDomain s then s
      else s\<lparr>m_nDomain := nDomain, m_mForeign := [], m_selectedMaster := None, m_bSynced := False,
             m_bHaveDelay := False, m_qOffsetWindow := []\<rparr>)"

definition GrandmasterId :: "PtpClient \<Rightarrow> string" where
  "GrandmasterId s = (case m_selectedMaster s of None \<Rightarrow> []
     | Some k \<Rightarrow> (case map_of (m_mForeign s) k of None \<Rightarrow> []
         | Some f \<Rightarrow> IdentityToString (grandmasterIdentity (fm_dataset f))))"

section \<open>Servo lemmas\<close>

lemma length_push_bounded: "length (push_bounded n q x) = min (Suc (length q)) (max n (length q))"
  by (auto simp: push_bounded_def Let_def)

lemma push_bounded_le: "length q \<le> n \<Longrightarrow> length (push_bounded n q x) \<le> n"
  by (simp add: push_bounded_def Let_def)

lemma push_bounded_mem: "y \<in> set (push_bounded n q x) \<Longrightarrow> y \<in> insert x (set q)"
  by (auto simp: push_bounded_def Let_def dest: list.set_sel(2) [rotated] split: if_splits)

lemma push_bounded_small: "length q < n \<Longrightarrow> push_bounded n q x = q @ [x]"
  by (simp add: push_bounded_def)

text \<open>Counting entries below or above a bound locates an entry of a sorted list.\<close>

lemma sorted_nth_ge:
  assumes "sorted xs" "i < length xs" "length (filter (\<lambda>x. x < lo) xs) \<le> i"
  shows "lo \<le> xs ! i"
proof (rule ccontr)
  assume "\<not> lo \<le> xs ! i"
  then have "x < lo" if x: "x \<in> set (take (Suc i) xs)" for x
  proof -
    from x obtain j where "j \<le> i" "x = xs ! j"
      using assms(2) by (auto simp: in_set_conv_nth less_Suc_eq_le)
    then have "x \<le> xs ! i" using assms(1,2) by (simp add: sorted_nth_mono)
    with \<open>\<not> lo \<le> xs ! i\<close> show ?thesis by simp
  qed
  then have "filter (\<lambda>x. x < lo) (take (Suc i) xs) = take (Suc i) xs" by simp
  moreover have "length (filter (\<lambda>x. x < lo) (take (Suc i) xs)) \<le> length (filter (\<lambda>x. x < lo) xs)"
    by (metis append_take_drop_id filter_append le_add1 length_append)
  ultimately show False using assms(2,3) by simp
qed

lemma sorted_nth_le:
  assumes "sorted xs" "i < length xs" "i < length (filter (\<lambda>x. x \<le> hi) xs)"
  shows "xs ! i \<le> hi"
proof (rule ccontr)
  assume "\<not> xs ! i \<le> hi"
  then have "\<not> x \<le> hi" if x: "x \<in> set (drop i xs)" for x
  proof -
    from x obtain j where "i \<le> j" "j < length xs" "x = xs ! j"
      by (auto simp: in_set_conv_nth) (metis add.commute le_add2 less_diff_conv)
    then have "xs ! i \<le> x" using assms(1) by (simp add: sorted_nth_mono)
    with \<open>\<not> xs ! i \<le> hi\<close> show ?thesis by simp
  qed
  then have "filter (\<lambda>x. x \<le> hi) (drop i xs) = []" by (simp add: filter_empty_conv)
  then have "filter (\<lambda>x. x \<le> hi) xs = filter (\<lambda>x. x \<le> hi) (take i xs)"
    by (metis append.right_neutral append_take_drop_id filter_append)
  moreover have "length (filter (\<lambda>x. x \<le> hi) (take i xs)) \<le> i"
    by (metis length_filter_le length_take min.bounded_iff)
  ultimately show False using assms(3) by simp
qed

lemma median_between:
  assumes "length w < 2 * length (filter (\<lambda>x. lo \<le> x \<and> x \<le> hi) w)"
  shows "lo \<le> median w \<and> median w \<le> hi"
proof -
  let ?n = "length w" and ?g = "length (filter (\<lambda>x. lo \<le> x \<and> x \<le> hi) w)"
  have i: "?n div 2 < length (sort w)" using assms by (cases w) auto
  have "length (filter (\<lambda>x. x < lo) w) + length (filter (\<lambda>x. \<not> x < lo) w) = ?n"
    by (rule sum_length_filter_compl)
  moreover have "?g \<le> length (filter (\<lambda>x. \<not> x < lo) w)" "?g \<le> length (filter (\<lambda>x. x \<le> hi) w)"
    by (induction w) auto
  ultimately have "length (filter (\<lambda>x. x < lo) w) \<le> ?n div 2" "?n div 2 < length (filter (\<lambda>x. x \<le> hi) w)"
    using assms by linarith+
  then show ?thesis
    unfolding median_def using i by (auto intro!: sorted_nth_ge sorted_nth_le simp: filter_sort)
qed

lemma median_mem: "w \<noteq> [] \<Longrightarrow> median w \<in> set w"
proof -
  assume "w \<noteq> []"
  then have "length w div 2 < length (sort w)" by simp
  then have "sort w ! (length w div 2) \<in> set (sort w)" by (rule nth_mem)
  then show ?thesis by (simp add: median_def)
qed

text \<open>
  One low-pass step, against exact arithmetic.  \<open>eps\<close> is the relative error of a rounding and
  \<open>tiny\<close> the smallest positive double.
\<close>

definition eps :: rat where
  "eps = 1 / 9007199254740992"

definition tiny :: rat where
  "tiny = 2 powi (-1074)"

lemma tiny_nonneg: "0 \<le> tiny"
  by (simp add: tiny_def)

lemma rnd64_error: "\<bar>rnd64 x - x\<bar> \<le> \<bar>x\<bar> * eps + tiny"
proof -
  have "\<bar>rnd64 x - x\<bar> \<le> (\<bar>x\<bar> * 2 powi (1 - int 53) + tiny) / 2"
    unfolding tiny_def by (rule rnd_rel_error)
  also have "(2::rat) powi (1 - int 53) = 2 * eps"
    by (simp add: power_int_minus eps_def)
  also have "(\<bar>x\<bar> * (2 * eps) + tiny) / 2 \<le> \<bar>x\<bar> * eps + tiny"
    using tiny_nonneg by (simp add: field_simps)
  finally show ?thesis .
qed

lemma coefficients: "rnd64 (9/10) = 8106479329266893 / 9007199254740992"
  "rnd64 (1/10) = 3602879701896397 / 36028797018963968"
  by code_simp+

text \<open>Multiplying by a rounded coefficient below 1 and rounding the product.\<close>

lemma scaled_error:
  assumes "0 \<le> c" "c \<le> 1" "\<bar>c - c0\<bar> \<le> eps"
  shows "\<bar>rnd64 (a * c) - a * c0\<bar> \<le> 2 * (\<bar>a\<bar> * eps) + tiny"
    and "\<bar>rnd64 (a * c)\<bar> \<le> \<bar>a\<bar> * (1 + eps) + tiny"
proof -
  have r: "\<bar>rnd64 (a * c) - a * c\<bar> \<le> \<bar>a * c\<bar> * eps + tiny" by (rule rnd64_error)
  have ac: "\<bar>a * c\<bar> \<le> \<bar>a\<bar>"
    using assms(1,2) by (simp add: abs_mult mult_left_le)
  then have ace: "\<bar>a * c\<bar> * eps \<le> \<bar>a\<bar> * eps" by (rule mult_right_mono) (simp add: eps_def)
  have "\<bar>a * c - a * c0\<bar> = \<bar>a\<bar> * \<bar>c - c0\<bar>" by (simp add: abs_mult flip: right_diff_distrib)
  also have "\<dots> \<le> \<bar>a\<bar> * eps" using assms(3) by (intro mult_left_mono) simp_all
  finally have "\<bar>a * c - a * c0\<bar> \<le> \<bar>a\<bar> * eps" .
  with r ace show "\<bar>rnd64 (a * c) - a * c0\<bar> \<le> 2 * (\<bar>a\<bar> * eps) + tiny" by linarith
  show "\<bar>rnd64 (a * c)\<bar> \<le> \<bar>a\<bar> * (1 + eps) + tiny"
    using r ace ac by (simp add: distrib_left)
qed

lemma low_pass_error:
  "\<bar>low_pass a b - (9/10 * a + 1/10 * b)\<bar> \<le> (\<bar>a\<bar> + \<bar>b\<bar>) * (4 * eps) + 4 * tiny"
proof -
  define x where "x = rnd64 (a * rnd64 (9/10))"
  define y where "y = rnd64 (b * rnd64 (1/10))"
  have c9: "0 \<le> rnd64 (9/10)" "rnd64 (9/10) \<le> 1" "\<bar>rnd64 (9/10) - 9/10\<bar> \<le> eps"
    and c1: "0 \<le> rnd64 (1/10)" "rnd64 (1/10) \<le> 1" "\<bar>rnd64 (1/10) - 1/10\<bar> \<le> eps"
    by (simp_all add: coefficients eps_def)
  have x: "\<bar>x - a * (9/10)\<bar> \<le> 2 * (\<bar>a\<bar> * eps) + tiny" "\<bar>x\<bar> \<le> \<bar>a\<bar> * (1 + eps) + tiny"
    unfolding x_def by (fact scaled_error [OF c9])+
  have y: "\<bar>y - b * (1/10)\<bar> \<le> 2 * (\<bar>b\<bar> * eps) + tiny" "\<bar>y\<bar> \<le> \<bar>b\<bar> * (1 + eps) + tiny"
    unfolding y_def by (fact scaled_error [OF c1])+
  have "\<bar>x + y\<bar> \<le> (\<bar>a\<bar> + \<bar>b\<bar>) * (1 + eps) + 2 * tiny"
    using x(2) y(2) by (simp add: algebra_simps) linarith
  then have "\<bar>x + y\<bar> * eps \<le> ((\<bar>a\<bar> + \<bar>b\<bar>) * (1 + eps) + 2 * tiny) * eps"
    by (rule mult_right_mono) (simp add: eps_def)
  also have "\<dots> = (\<bar>a\<bar> + \<bar>b\<bar>) * ((1 + eps) * eps) + tiny * (2 * eps)" by (simp add: algebra_simps)
  also have "\<dots> \<le> (\<bar>a\<bar> + \<bar>b\<bar>) * (2 * eps) + tiny"
    using tiny_nonneg by (intro add_mono mult_left_mono mult_left_le) (simp_all add: eps_def)
  finally have "\<bar>x + y\<bar> * eps \<le> 2 * (\<bar>a\<bar> * eps) + 2 * (\<bar>b\<bar> * eps) + tiny" by (simp add: algebra_simps)
  with rnd64_error [of "x + y"] x(1) y(1)
  have "\<bar>rnd64 (x + y) - (9/10 * a + 1/10 * b)\<bar> \<le> 4 * (\<bar>a\<bar> * eps) + 4 * (\<bar>b\<bar> * eps) + 4 * tiny"
    by linarith
  then show ?thesis by (simp add: low_pass_def x_def y_def algebra_simps)
qed

text \<open>The filter stays inside a symmetric band of representable width.\<close>

lemma low_pass_mono: "a \<le> a' \<Longrightarrow> b \<le> b' \<Longrightarrow> low_pass a b \<le> low_pass a' b'"
  unfolding low_pass_def by (intro rnd_mono add_mono mult_right_mono) (simp_all add: coefficients)

section \<open>Selection lemmas and the invariant\<close>

lemma annotate_keeps [simp]:
  "fm_dataset (annotate best k f) = fm_dataset f" "nAnnounceCount (annotate best k f) = nAnnounceCount f"
  "aAnnounceCount (annotate best k f) = aAnnounceCount f" "aDataset (annotate best k f) = aDataset f"
  "lastSeen (annotate best k f) = lastSeen f" "firstSeen (annotate best k f) = firstSeen f"
  "sAddress (annotate best k f) = sAddress f"
  "bSelected (annotate best k f) = (map_option fst best = Some k)"
  by (auto simp: annotate_def Let_def split: option.splits)

text \<open>The selection depends on the keys, the data sets and the announce counts only.\<close>

lemma best_master_map:
  assumes "\<And>k f. fm_dataset (g k f) = fm_dataset f" "\<And>k f. nAnnounceCount (g k f) = nAnnounceCount f"
  shows "best_master (map (\<lambda>(k, f). (k, g k f)) m) = map_option (\<lambda>(k, f). (k, g k f)) (best_master m)"
proof -
  have "filter (\<lambda>x. 2 \<le> nAnnounceCount (snd x)) (map (\<lambda>(k, f). (k, g k f)) m)
      = map (\<lambda>(k, f). (k, g k f)) (filter (\<lambda>x. 2 \<le> nAnnounceCount (snd x)) m)"
    by (simp add: filter_map comp_def case_prod_unfold assms)
  then show ?thesis
    unfolding best_master_def by (simp only:) (rule scan_best_map, simp add: case_prod_unfold assms)
qed

lemma best_master_mem:
  "best_master m = Some (k, f) \<Longrightarrow> (k, f) \<in> set m \<and> 2 \<le> nAnnounceCount f"
  unfolding best_master_def by (drule scan_best_mem) simp

abbreviation bmca_choice :: "PtpClient \<Rightarrow> PortIdentity option" where
  "bmca_choice s \<equiv> map_option fst (best_master (m_mForeign s))"

lemma RunBmca_foreign:
  "m_mForeign (RunBmca s) = map (\<lambda>(k, f). (k, annotate (best_master (m_mForeign s)) k f)) (m_mForeign s)"
  by (simp add: RunBmca_def Let_def)

lemma RunBmca_selected: "m_selectedMaster (RunBmca s) = bmca_choice s"
  by (simp add: RunBmca_def Let_def)

lemma RunBmca_choice: "bmca_choice (RunBmca s) = bmca_choice s"
proof -
  let ?b = "best_master (m_mForeign s)"
  have "best_master (m_mForeign (RunBmca s)) = map_option (\<lambda>(k, f). (k, annotate ?b k f)) ?b"
    unfolding RunBmca_foreign by (rule best_master_map) simp_all
  then show ?thesis by (simp add: option.map_comp comp_def case_prod_unfold)
qed

lemma RunBmca_keeps [simp]:
  "m_vInterfaces (RunBmca s) = m_vInterfaces s" "m_nDomain (RunBmca s) = m_nDomain s"
  "m_ownIdentity (RunBmca s) = m_ownIdentity s" "m_nSyncSeq (RunBmca s) = m_nSyncSeq s"
  "m_nSyncRxNs (RunBmca s) = m_nSyncRxNs s" "m_nDelaySeq (RunBmca s) = m_nDelaySeq s"
  "m_nDelayReqTxNs (RunBmca s) = m_nDelayReqTxNs s"
  "m_dMeanPathDelayNs (RunBmca s) = m_dMeanPathDelayNs s"
  "m_dSmoothedOffsetNs (RunBmca s) = m_dSmoothedOffsetNs s" "m_nMappingNs (RunBmca s) = m_nMappingNs s"
  "m_nSyncCount (RunBmca s) = m_nSyncCount s" "m_qOffsetHistory (RunBmca s) = m_qOffsetHistory s"
  "m_lastSyncSeen (RunBmca s) = m_lastSyncSeen s"
  by (simp_all add: RunBmca_def Let_def)

text \<open>When the choice does not change, the servo is untouched.\<close>

lemma RunBmca_stable:
  "bmca_choice s = m_selectedMaster s \<Longrightarrow>
   RunBmca s = s\<lparr>m_mForeign := map (\<lambda>(k, f). (k, annotate (best_master (m_mForeign s)) k f)) (m_mForeign s)\<rparr>"
  by (simp add: RunBmca_def)

lemma RunBmca_window: "m_qOffsetWindow (RunBmca s) \<in> {[], m_qOffsetWindow s}"
  by (simp add: RunBmca_def Let_def)

lemma RunBmca_synced: "m_bSynced (RunBmca s) \<longrightarrow> m_bSynced s \<and> (bmca_choice s = m_selectedMaster s \<or> bmca_choice s \<noteq> None)"
  by (auto simp: RunBmca_def Let_def)

definition fm_ok :: "PortIdentity \<Rightarrow> ForeignMaster \<Rightarrow> bool" where
  "fm_ok k f \<longleftrightarrow> ds_source (fm_dataset f) = k \<and> length (clockIdentity k) = 8
     \<and> length (grandmasterIdentity (fm_dataset f)) = 8
     \<and> length (aAnnounceCount f) = 2 \<and> length (aDataset f) = 2"

definition table_ok :: "(PortIdentity, ForeignMaster) omap \<Rightarrow> bool" where
  "table_ok m \<longleftrightarrow> omap_ok m \<and> (\<forall>(k, f) \<in> set m. fm_ok k f)"

text \<open>What every handler keeps of the servo and of the selection.\<close>

definition servo_inv :: "PtpClient \<Rightarrow> bool" where
  "servo_inv s \<longleftrightarrow> length (m_qOffsetWindow s) \<le> 16 \<and> length (m_qOffsetHistory s) \<le> 300
     \<and> 0 \<le> m_dMeanPathDelayNs s \<and> m_dMeanPathDelayNs s \<le> 100000000"

definition selection_inv :: "PtpClient \<Rightarrow> bool" where
  "selection_inv s \<longleftrightarrow> bmca_choice s = m_selectedMaster s
     \<and> (\<forall>(k, f) \<in> set (m_mForeign s). bSelected f \<longleftrightarrow> m_selectedMaster s = Some k)
     \<and> (m_bSynced s \<longrightarrow> m_selectedMaster s \<noteq> None)"

definition ptp_inv :: "PtpClient \<Rightarrow> bool" where
  "ptp_inv s \<longleftrightarrow> table_ok (m_mForeign s) \<and> servo_inv s \<and> selection_inv s"

lemma table_ok_map:
  "table_ok m \<Longrightarrow> (\<And>k f. fm_ok k f \<Longrightarrow> fm_ok k (g k f)) \<Longrightarrow> table_ok (map (\<lambda>(k, f). (k, g k f)) m)"
  by (fastforce simp: table_ok_def)

lemma table_ok_filter: "table_ok m \<Longrightarrow> table_ok (filter P m)"
  by (auto simp: table_ok_def)

lemma table_ok_del: "table_ok m \<Longrightarrow> table_ok (omap_del k m)"
  by (simp add: omap_del_def table_ok_filter)

lemma table_ok_put: "table_ok m \<Longrightarrow> fm_ok k f \<Longrightarrow> table_ok (omap_put k f m)"
  using cmap.put_items [of m k f] by (auto simp: table_ok_def)

lemma table_ok_get: "table_ok m \<Longrightarrow> map_of m k = Some f \<Longrightarrow> fm_ok k f"
  using map_of_SomeD by (fastforce simp: table_ok_def)

text \<open>
  \<^verbatim>\<open>RunBmca\<close> establishes the selection part of the invariant from any table, provided an
  unselected client is not synchronised.
\<close>

lemma RunBmca_inv [inv_intros]:
  assumes "table_ok (m_mForeign s)" "servo_inv s" "m_bSynced s \<longrightarrow> m_selectedMaster s \<noteq> None"
  shows "ptp_inv (RunBmca s)"
proof -
  have "table_ok (m_mForeign (RunBmca s))"
    unfolding RunBmca_foreign using assms(1) by (rule table_ok_map) (simp add: fm_ok_def)
  moreover have "servo_inv (RunBmca s)"
    using assms(2) RunBmca_window [of s] by (auto simp: servo_inv_def)
  moreover have "selection_inv (RunBmca s)"
    using assms(3) RunBmca_synced [of s] RunBmca_choice [of s]
    unfolding selection_inv_def RunBmca_selected by (auto simp: RunBmca_foreign)
  ultimately show ?thesis by (simp add: ptp_inv_def)
qed

lemma best_master_Nil [simp]: "best_master [] = None"
  by (simp add: best_master_def)

lemma SetDomain_inv [inv_intros]: "ptp_inv s \<Longrightarrow> ptp_inv (SetDomain n s)"
proof (cases "n = m_nDomain s")
  case False
  moreover assume "ptp_inv s"
  ultimately show ?thesis
    by (simp add: ptp_inv_def SetDomain_def table_ok_def servo_inv_def selection_inv_def)
qed (simp add: SetDomain_def)

lemma init_inv [inv_intros]: "ptp_inv (init_client ifs n own)"
  by (simp add: ptp_inv_def init_client_def table_ok_def servo_inv_def selection_inv_def)

lemma AddOffsetSample_keeps [simp]:
  "m_mForeign (AddOffsetSample rt d s) = m_mForeign s"
  "m_selectedMaster (AddOffsetSample rt d s) = m_selectedMaster s"
  "m_dMeanPathDelayNs (AddOffsetSample rt d s) = m_dMeanPathDelayNs s"
  "m_bHaveDelay (AddOffsetSample rt d s) = m_bHaveDelay s"
  "m_bAwaitFollowUp (AddOffsetSample rt d s) = m_bAwaitFollowUp s"
  "m_nSyncCount (AddOffsetSample rt d s) = m_nSyncCount s"
  by (simp_all add: AddOffsetSample_def Let_def)

lemma AddOffsetSample_inv [inv_intros]:
  "ptp_inv s \<Longrightarrow> m_selectedMaster s \<noteq> None \<Longrightarrow> ptp_inv (AddOffsetSample rt d s)"
  unfolding ptp_inv_def servo_inv_def selection_inv_def
  by (auto simp: AddOffsetSample_def Let_def push_bounded_le)

lemma CompleteMeasurement_inv [inv_intros]:
  "ptp_inv s \<Longrightarrow> m_selectedMaster s \<noteq> None \<Longrightarrow> ptp_inv (CompleteMeasurement rt t1 t2 s)"
  using AddOffsetSample_inv [of s rt]
  by (auto simp: CompleteMeasurement_def Let_def ptp_inv_def servo_inv_def selection_inv_def)

section \<open>Properties of the servo\<close>

lemma AddOffsetSample_settling:
  assumes "\<not> (8 \<le> length (m_qOffsetWindow s) \<and> 50000000 < \<bar>rnd64 (d - m_dSmoothedOffsetNs s)\<bar>)"
    and "3 \<le> length (m_qOffsetWindow s)"
  shows "m_qOffsetWindow (AddOffsetSample rt d s) = push_bounded 16 (m_qOffsetWindow s) d"
    and "m_dSmoothedOffsetNs (AddOffsetSample rt d s)
      = (if m_bSynced s then low_pass (m_dSmoothedOffsetNs s) (median (push_bounded 16 (m_qOffsetWindow s) d))
         else median (push_bounded 16 (m_qOffsetWindow s) d))"
    and "m_nMappingNs (AddOffsetSample rt d s) = word_of_int (trunc (m_dSmoothedOffsetNs (AddOffsetSample rt d s)))"
    and "m_bSynced (AddOffsetSample rt d s)"
proof -
  have "4 \<le> length (push_bounded 16 (m_qOffsetWindow s) d)"
    using assms(2) by (auto simp: length_push_bounded)
  with assms(1) show "m_qOffsetWindow (AddOffsetSample rt d s) = push_bounded 16 (m_qOffsetWindow s) d"
    and "m_dSmoothedOffsetNs (AddOffsetSample rt d s)
      = (if m_bSynced s then low_pass (m_dSmoothedOffsetNs s) (median (push_bounded 16 (m_qOffsetWindow s) d))
         else median (push_bounded 16 (m_qOffsetWindow s) d))"
    and "m_nMappingNs (AddOffsetSample rt d s) = word_of_int (trunc (m_dSmoothedOffsetNs (AddOffsetSample rt d s)))"
    and "m_bSynced (AddOffsetSample rt d s)"
    by (auto simp: AddOffsetSample_def Let_def)
qed

text \<open>
  Outlier rejection: the window median is moved by a majority only.  When a client locks on
  its first four or more samples, and more than half of the window lies between two bounds, the
  new offset lies between these bounds, whatever the other samples are.
\<close>

theorem servo_majority:
  assumes "\<not> m_bSynced s" "3 \<le> length (m_qOffsetWindow s)" "length (m_qOffsetWindow s) < 8"
    and "Suc (length (m_qOffsetWindow s))
       < 2 * length (filter (\<lambda>x. lo \<le> x \<and> x \<le> hi) (m_qOffsetWindow s @ [d]))"
  shows "m_bSynced (AddOffsetSample rt d s) \<and> lo \<le> m_dSmoothedOffsetNs (AddOffsetSample rt d s)
    \<and> m_dSmoothedOffsetNs (AddOffsetSample rt d s) \<le> hi"
proof -
  have w: "push_bounded 16 (m_qOffsetWindow s) d = m_qOffsetWindow s @ [d]"
    using assms(3) by (simp add: push_bounded_small)
  have "lo \<le> median (m_qOffsetWindow s @ [d]) \<and> median (m_qOffsetWindow s @ [d]) \<le> hi"
    using assms(4) by (intro median_between) simp
  with assms AddOffsetSample_settling [of s d rt] show ?thesis by (simp add: w)
qed

theorem servo_majority_witness:
  "m_bSynced (AddOffsetSample 0 120 ((init_client [] 0 [])\<lparr>m_qOffsetWindow := [100, 9000000, 110]\<rparr>))
   \<and> 100 \<le> m_dSmoothedOffsetNs (AddOffsetSample 0 120 ((init_client [] 0 [])\<lparr>m_qOffsetWindow := [100, 9000000, 110]\<rparr>))
   \<and> m_dSmoothedOffsetNs (AddOffsetSample 0 120 ((init_client [] 0 [])\<lparr>m_qOffsetWindow := [100, 9000000, 110]\<rparr>)) \<le> 120"
  by (rule servo_majority) (simp_all add: init_client_def)


definition demo_servo :: PtpClient where
  "demo_servo = (init_client [] 0 [])
     \<lparr>m_bSynced := True, m_dSmoothedOffsetNs := 1000, m_qOffsetWindow := [0, 7, 5, 3, 4, 2, 6, 1]\<rparr>"

lemma demo_servo_simps:
  "m_bSynced demo_servo" "m_dSmoothedOffsetNs demo_servo = 1000"
  "m_qOffsetWindow demo_servo = [0, 7, 5, 3, 4, 2, 6, 1]"
  by (simp_all add: demo_servo_def)


lemma AddOffsetSample_fill:
  assumes "length (m_qOffsetWindow s) < 3"
  shows "\<exists>h. AddOffsetSample rt d s = s\<lparr>m_qOffsetWindow := m_qOffsetWindow s @ [d], m_qOffsetHistory := h\<rparr>"
  using assms by (simp add: AddOffsetSample_def Let_def push_bounded_small) blast

lemma AddOffsetSample_restart:
  assumes "8 \<le> length (m_qOffsetWindow s)" "50000000 < \<bar>rnd64 (d - m_dSmoothedOffsetNs s)\<bar>"
  shows "\<exists>h. AddOffsetSample rt d s = s\<lparr>m_qOffsetWindow := [d], m_qOffsetHistory := h\<rparr>"
  using assms by (simp add: AddOffsetSample_def Let_def push_bounded_small) blast

text \<open>
  After a jump of the measured offset by more than 50 ms the window restarts, but the client
  stays synchronised, so the offset in use is not replaced by the new median: four samples
  after the jump it is still nine tenths of the old offset plus one tenth of the median.
\<close>

theorem servo_jump_is_slewed:
  assumes "m_bSynced s" "8 \<le> length (m_qOffsetWindow s)"
    and "50000000 < \<bar>rnd64 (d1 - m_dSmoothedOffsetNs s)\<bar>"
    and "s' = AddOffsetSample r4 d4 (AddOffsetSample r3 d3 (AddOffsetSample r2 d2 (AddOffsetSample r1 d1 s)))"
  shows "m_qOffsetWindow s' = [d1, d2, d3, d4] \<and> m_bSynced s'
    \<and> m_dSmoothedOffsetNs s' = low_pass (m_dSmoothedOffsetNs s) (median [d1, d2, d3, d4])"
proof -
  obtain h1 where 1: "AddOffsetSample r1 d1 s = s\<lparr>m_qOffsetWindow := [d1], m_qOffsetHistory := h1\<rparr>"
    using AddOffsetSample_restart [OF assms(2,3)] by blast
  obtain h2 where 2: "AddOffsetSample r2 d2 (AddOffsetSample r1 d1 s)
      = s\<lparr>m_qOffsetWindow := [d1, d2], m_qOffsetHistory := h2\<rparr>"
    using AddOffsetSample_fill [of "AddOffsetSample r1 d1 s" r2 d2] unfolding 1 by auto
  obtain h3 where 3: "AddOffsetSample r3 d3 (AddOffsetSample r2 d2 (AddOffsetSample r1 d1 s))
      = s\<lparr>m_qOffsetWindow := [d1, d2, d3], m_qOffsetHistory := h3\<rparr>"
    using AddOffsetSample_fill [of "AddOffsetSample r2 d2 (AddOffsetSample r1 d1 s)" r3 d3]
    unfolding 2 by auto
  show ?thesis
    using assms(1) AddOffsetSample_settling [of "s\<lparr>m_qOffsetWindow := [d1, d2, d3], m_qOffsetHistory := h3\<rparr>" d4 r4]
    unfolding assms(4) 3 by (simp add: push_bounded_small)
qed

theorem servo_jump_is_slewed_witness:
  "\<exists>s'. s' = AddOffsetSample 4 100000004 (AddOffsetSample 3 100000003
            (AddOffsetSample 2 100000002 (AddOffsetSample 1 100000001 demo_servo)))
    \<and> m_qOffsetWindow s' = [100000001, 100000002, 100000003, 100000004] \<and> m_bSynced s'
    \<and> m_dSmoothedOffsetNs s' = low_pass 1000 (median [100000001, 100000002, 100000003, 100000004])"
proof -
  have "50000000 < \<bar>rnd64 (100000001 - m_dSmoothedOffsetNs demo_servo)\<bar>" by code_simp
  then show ?thesis
    using servo_jump_is_slewed [of demo_servo 100000001 _ 4 100000004 3 100000003 2 100000002 1, OF _ _ _ refl]
      demo_servo_simps(1) unfolding demo_servo_simps(2,3) by auto
qed

end
