(* ===== verification/Node.thy ===== *)
theory Node
  imports Connection Is12 Dnssd Ptp_State
begin

text \<open>
  The IS-04 node, \<^verbatim>\<open>src/src/nmos/node.cpp\<close>: the HTTP client, the identifiers and resource documents of the
  node, the node API and the life cycle.  The registration thread is in \<open>Registration\<close>.

  The HTTP library, the digest \<^verbatim>\<open>mg_md5\<close>, the printer and parser of JSON texts, the clock, the
  addresses of the host and the files below \<^verbatim>\<open>/sys\<close> are readings of the environment, the record
  \<open>node_env\<close>.  The state extends the state of the connection API by what the node owns and what it
  refers to, and by the list of the HTTP requests made so far with the status of each answer.
\<close>

section \<open>Addresses\<close>

record UrlParts =
  sHost :: string
  url_nPort :: int
  sPath :: string

definition ParseUrl :: "string \<Rightarrow> UrlParts option outcome" where
  "ParseUrl s =
    (case find_str ''://'' s of
       None \<Rightarrow> Val None
     | Some nScheme \<Rightarrow>
         (let sRest = drop (nScheme + 3) s;
              nSlash = find_from (CHR ''/'') 0 sRest;
              sHostPort = (case nSlash of None \<Rightarrow> sRest | Some n \<Rightarrow> take n sRest);
              path = (case nSlash of None \<Rightarrow> ''/'' | Some n \<Rightarrow> drop n sRest)
          in case find_from (CHR '':'') 0 sHostPort of
               None \<Rightarrow> Val (Some \<lparr>sHost = sHostPort, url_nPort = 80, sPath = path\<rparr>)
             | Some nColon \<Rightarrow> bindO (atoi (drop (nColon + 1) sHostPort)) (\<lambda>n.
                 Val (Some \<lparr>sHost = take nColon sHostPort, url_nPort = n, sPath = path\<rparr>))))"

section \<open>State\<close>

record http_request =
  rq_host :: string
  rq_port :: int
  rq_method :: string
  rq_path :: string
  rq_body :: string

record Node = ConnectionApi +
  requests :: "(http_request \<times> int) list"
  ptp :: PtpClient
  receiver :: RtpReceiver
  m_bServer :: bool \<comment> \<open>\<^verbatim>\<open>m_pServer\<close>, \<^verbatim>\<open>m_pConnection\<close> and \<^verbatim>\<open>m_pIs12\<close> exist\<close>
  m_pIs12 :: Is12Server
  node_nPort :: int
  node_vInterfaces :: "string list"
  m_sHostname :: string
  m_sNodeId :: string
  m_sDeviceId :: string
  m_sSourceId :: string
  m_sFlowId :: string
  m_sSenderId :: string
  m_sReceiverId :: string
  node_bRun :: bool
  m_nRegisteredVersion :: u64
  m_sRegistry :: string
  m_sRegistryStatus :: string

text \<open>A node before it is started, with the member initialisers of the class.\<close>

definition init_node :: "Config \<Rightarrow> RtpSender \<Rightarrow> PtpClient \<Rightarrow> RtpReceiver \<Rightarrow> Node" where
  "init_node c tx pt rx = \<lparr>cfg = c, written = [], sender = tx, m_nVersion = 0,
     m_jsSenderStaged = sender_document, m_jsSenderActive = sender_document,
     m_jsReceiverStaged = receiver_document, m_jsReceiverActive = receiver_document,
     requests = [], ptp = pt, receiver = rx, m_bServer = False, m_pIs12 = init_is12 [] [], node_nPort = 8080,
     node_vInterfaces = [], m_sHostname = [], m_sNodeId = [], m_sDeviceId = [], m_sSourceId = [], m_sFlowId = [],
     m_sSenderId = [], m_sReceiverId = [], node_bRun = False, m_nRegisteredVersion = 0, m_sRegistry = [], m_sRegistryStatus = []\<rparr>"

text \<open>
  The environment at a moment: what a host answers to a request (\<open>None\<close> when there is no connection
  or no answer), the JSON printer, which throws on a text that is not UTF-8, and parser, the time
  in seconds, the IPv4 addresses of the interfaces in the order of \<^verbatim>\<open>getifaddrs\<close>, the address files
  of the interfaces, the host name, the digest, and whether the HTTP server starts.
\<close>

record node_env =
  v_http :: "string \<Rightarrow> int \<Rightarrow> string \<Rightarrow> (int \<times> string) option"
  v_dump :: "json \<Rightarrow> string outcome"
  v_parse :: "string \<Rightarrow> json option"
  v_time :: int
  v_addrs :: "(string \<times> string) list"
  v_mac :: "string \<Rightarrow> string option"
  v_hostname :: string
  v_md5 :: "string \<Rightarrow> string"
  v_listens :: bool

section \<open>HTTP client\<close>

definition crlf :: string where
  "crlf = [CHR 0x0D, CHR 0x0A]"

text \<open>The bytes of a request.\<close>

definition request_text :: "http_request \<Rightarrow> string" where
  "request_text rq = c_str (rq_method rq) @ '' '' @ c_str (rq_path rq) @ '' HTTP/1.1'' @ crlf
     @ ''Host: '' @ c_str (rq_host rq) @ crlf @ ''Connection: close'' @ crlf @ ''Content-Type: application/json'' @ crlf
     @ ''Content-Length: '' @ nat_str (length (rq_body rq)) @ crlf @ crlf @ rq_body rq"

definition HttpText :: "node_env \<Rightarrow> string \<Rightarrow> string \<Rightarrow> string \<Rightarrow> ('r Node_scheme, string option \<times> int) act" where
  "HttpText e sMethod url sBody =
     bindS (evalS (ParseUrl url)) (\<lambda>parts.
       case parts of
         None \<Rightarrow> returnS (None, 0)
       | Some p \<Rightarrow> (\<lambda>s.
           let rq = \<lparr>rq_host = sHost p, rq_port = url_nPort p, rq_method = sMethod, rq_path = sPath p, rq_body = sBody\<rparr>;
               (r, st) = (case v_http e (c_str (sHost p)) (url_nPort p) (request_text rq) of
                                 None \<Rightarrow> (None, 0) | Some (st, sResponse) \<Rightarrow> (Some sResponse, st))
           in (Val (r, st), s\<lparr>requests := requests s @ [(rq, st)]\<rparr>)))"

definition HttpJson :: "node_env \<Rightarrow> string \<Rightarrow> string \<Rightarrow> json option \<Rightarrow> ('r Node_scheme, json option \<times> int) act" where
  "HttpJson e sMethod url body =
     bindS (evalS (case body of None \<Rightarrow> Val [] | Some js \<Rightarrow> v_dump e js)) (\<lambda>sBody.
       bindS (HttpText e sMethod url sBody) (\<lambda>(sResponse, st).
         returnS (case sResponse of
             None \<Rightarrow> None
           | Some r \<Rightarrow> Some (if r = [] then JNull else case v_parse e r of None \<Rightarrow> JNull | Some js \<Rightarrow> js), st)))"

section \<open>Identifiers\<close>

definition HEX :: string where
  "HEX = ''0123456789abcdef''"

text \<open>
  The digest with the version and the variant digit replaced; \<open>None\<close> when it is not 32
  hexadecimal digits, where the code has no defined behaviour.
\<close>

definition MakeUuid :: "(string \<Rightarrow> string) \<Rightarrow> string \<Rightarrow> string option" where
  "MakeUuid md5 sSeed =
    (let s = take 32 (md5 (c_str sSeed)) in
     if length s < 32 then None
     else
       let s = s[12 := CHR ''3''] in
       case find_from (s ! 16) 0 HEX of
         None \<Rightarrow> None
       | Some nVariant \<Rightarrow>
           let s = s[16 := HEX ! unat ((word_of_nat nVariant AND 3) OR 8 :: u64)] in
           Some (take 8 s @ ''-'' @ take 4 (drop 8 s) @ ''-'' @ take 4 (drop 12 s) @ ''-'' @ take 4 (drop 16 s)
                 @ ''-'' @ take 12 (drop 20 s)))"

definition InterfaceMac :: "node_env \<Rightarrow> string \<Rightarrow> string" where
  "InterfaceMac e sInterface =
    (case v_mac e (''/sys/class/net/'' @ sInterface @ ''/address'') of
       None \<Rightarrow> ''00-00-00-00-00-00''
     | Some text \<Rightarrow>
         (case stream_words text of
            [] \<Rightarrow> ''00-00-00-00-00-00''
          | sMac # _ \<Rightarrow> map (\<lambda>c. if c = CHR '':'' then CHR ''-'' else c) sMac))"

definition Version :: "node_env \<Rightarrow> 'r Node_scheme \<Rightarrow> string" where
  "Version e s = to_string (v_time e) @ '':'' @ to_string (uint (m_nVersion s mod 1000000000))"

definition BumpVersion :: "'r Node_scheme \<Rightarrow> 'r Node_scheme" where
  "BumpVersion s = s\<lparr>m_nVersion := m_nVersion s + 1\<rparr>"

definition GetHostIps :: "node_env \<Rightarrow> 'r Node_scheme \<Rightarrow> string list" where
  "GetHostIps e s = concat (map (\<lambda>(name, ip). map (\<lambda>_. ip) (filter (\<lambda>sInterface. sInterface = name) (node_vInterfaces s))) (v_addrs e))"

section \<open>Resources\<close>

definition host_url :: "string \<Rightarrow> string \<Rightarrow> 'r Node_scheme \<Rightarrow> string" where
  "host_url scheme sIp s = scheme @ ''://'' @ sIp @ '':'' @ to_string (node_nPort s)"

definition device_label :: "'r Node_scheme \<Rightarrow> string outcome" where
  "device_label s = GetValue get_string ''device.label'' ''pi-audio-node'' (cfg s)"

definition clock_json :: "'r Node_scheme \<Rightarrow> json" where
  "clock_json s =
    (let sGm = GrandmasterId (ptp s) in
     if sGm \<noteq> [] then
       obj [(''name'', JStr ''clk0''), (''ref_type'', JStr ''ptp''), (''traceable'', JBool False), (''version'', JStr ''IEEE1588-2008''),
            (''gmid'', JStr (map (\<lambda>c. if c = CHR '':'' then CHR ''-'' else c) sGm)), (''locked'', JBool (m_bSynced (ptp s)))]
     else obj [(''name'', JStr ''clk0''), (''ref_type'', JStr ''internal'')])"

definition BuildSelf :: "node_env \<Rightarrow> 'r Node_scheme \<Rightarrow> json outcome" where
  "BuildSelf e s =
     bindO (device_label s) (\<lambda>sLabel.
     bindO (GetValue get_string ''device.description'' [] (cfg s)) (\<lambda>sDescription.
       let ips = GetHostIps e s in Val (obj
        [(''id'', JStr (m_sNodeId s)), (''version'', JStr (Version e s)), (''label'', JStr sLabel), (''description'', JStr sDescription),
         (''tags'', obj []), (''hostname'', JStr (m_sHostname s)), (''caps'', obj []),
         (''api'', obj [(''versions'', strings [''v1.3'']),
            (''endpoints'', JArr (map (\<lambda>sIp. obj [(''host'', JStr sIp), (''port'', JInt (node_nPort s)), (''protocol'', JStr ''http'')]) ips))]),
         (''services'', JArr []), (''clocks'', JArr [clock_json s]),
         (''interfaces'', JArr (map (\<lambda>i. obj [(''name'', JStr i), (''chassis_id'', JNull), (''port_id'', JStr (InterfaceMac e i))]) (node_vInterfaces s))),
         (''href'', JStr (case ips of [] \<Rightarrow> [] | sIp # _ \<Rightarrow> host_url ''http'' sIp s))])))"

definition BuildDevice :: "node_env \<Rightarrow> 'r Node_scheme \<Rightarrow> json outcome" where
  "BuildDevice e s =
     bindO (device_label s) (\<lambda>sLabel. Val (obj
        [(''id'', JStr (m_sDeviceId s)), (''version'', JStr (Version e s)), (''label'', JStr sLabel),
         (''description'', JStr ''AES67 sender/receiver''), (''tags'', obj []), (''type'', JStr ''urn:x-nmos:device:generic''),
         (''node_id'', JStr (m_sNodeId s)), (''senders'', strings [m_sSenderId s]), (''receivers'', strings [m_sReceiverId s]),
         (''controls'', JArr (concat (map (\<lambda>sIp.
            [obj [(''type'', JStr ''urn:x-nmos:control:sr-ctrl/v1.1''), (''href'', JStr (host_url ''http'' sIp s @ ''/x-nmos/connection/v1.1''))],
             obj [(''type'', JStr ''urn:x-nmos:control:ncp/v1.0''), (''href'', JStr (host_url ''ws'' sIp s @ ''/x-nmos/ncp/v1.0''))]])
            (GetHostIps e s))))]))"

definition BuildSource :: "node_env \<Rightarrow> 'r Node_scheme \<Rightarrow> json outcome" where
  "BuildSource e s =
     bindO (device_label s) (\<lambda>sLabel. Val (obj
        [(''id'', JStr (m_sSourceId s)), (''version'', JStr (Version e s)), (''label'', JStr (sLabel @ '' source'')),
         (''description'', JStr []), (''tags'', obj []), (''device_id'', JStr (m_sDeviceId s)), (''parents'', JArr []),
         (''clock_name'', JStr ''clk0''), (''caps'', obj []), (''format'', JStr ''urn:x-nmos:format:audio''),
         (''channels'', JArr [obj [(''label'', JStr ''Left''), (''symbol'', JStr ''L'')], obj [(''label'', JStr ''Right''), (''symbol'', JStr ''R'')]])]))"

definition BuildFlow :: "node_env \<Rightarrow> 'r Node_scheme \<Rightarrow> json outcome" where
  "BuildFlow e s =
     bindO (device_label s) (\<lambda>sLabel. Val (obj
        [(''id'', JStr (m_sFlowId s)), (''version'', JStr (Version e s)), (''label'', JStr (sLabel @ '' flow'')),
         (''description'', JStr []), (''tags'', obj []), (''device_id'', JStr (m_sDeviceId s)), (''source_id'', JStr (m_sSourceId s)),
         (''parents'', JArr []), (''format'', JStr ''urn:x-nmos:format:audio''), (''media_type'', JStr ''audio/L24''),
         (''sample_rate'', obj [(''numerator'', JInt 48000)]), (''bit_depth'', JInt 24)]))"

definition BuildSender :: "node_env \<Rightarrow> 'r Node_scheme \<Rightarrow> json outcome" where
  "BuildSender e s =
     bindO (GetValue get_string ''sender.label'' [] (cfg s)) (\<lambda>sLabel.
     bindO (if sLabel = [] then bindO (device_label s) (\<lambda>d. Val (d @ '' sender'')) else Val sLabel) (\<lambda>sLabel. Val (obj
        [(''id'', JStr (m_sSenderId s)), (''version'', JStr (Version e s)), (''label'', JStr sLabel),
         (''description'', JStr []), (''tags'', obj []), (''flow_id'', JStr (m_sFlowId s)),
         (''transport'', JStr ''urn:x-nmos:transport:rtp.mcast''), (''device_id'', JStr (m_sDeviceId s)),
         (''interface_bindings'', strings (node_vInterfaces s)),
         (''manifest_href'', JStr (case GetHostIps e s of [] \<Rightarrow> []
            | sIp # _ \<Rightarrow> host_url ''http'' sIp s @ ''/x-nmos/connection/v1.1/single/senders/'' @ m_sSenderId s @ ''/transportfile'')),
         (''subscription'', obj [(''receiver_id'', JNull), (''active'', JBool (tx_bRun (sender s)))])])))"

definition receiver_caps :: "string \<Rightarrow> json" where
  "receiver_caps version = obj
     [(''media_types'', strings [''audio/L24'', ''audio/L16'']),
      (''constraint_sets'', JArr [obj
        [(''urn:x-nmos:cap:format:media_type'', obj [(''enum'', strings [''audio/L24'', ''audio/L16''])]),
         (''urn:x-nmos:cap:format:sample_rate'', obj [(''enum'', JArr [obj [(''numerator'', JInt 48000)]])]),
         (''urn:x-nmos:cap:format:channel_count'', obj [(''minimum'', JInt 1), (''maximum'', JInt 8)]),
         (''urn:x-nmos:cap:transport:packet_time'', obj [(''minimum'', JFloat (1/8)), (''maximum'', JFloat 4)])]]),
      (''version'', JStr version)]"

definition BuildReceiver :: "node_env \<Rightarrow> 'r Node_scheme \<Rightarrow> json outcome" where
  "BuildReceiver e s =
     bindO (device_label s) (\<lambda>sLabel.
     bindO (if m_bServer s then ReceiverSenderId s else Val JNull) (\<lambda>jsSender. Val (obj
        [(''id'', JStr (m_sReceiverId s)), (''version'', JStr (Version e s)), (''label'', JStr (sLabel @ '' receiver'')),
         (''description'', JStr []), (''tags'', obj []), (''device_id'', JStr (m_sDeviceId s)),
         (''transport'', JStr ''urn:x-nmos:transport:rtp.mcast''), (''interface_bindings'', strings (node_vInterfaces s)),
         (''format'', JStr ''urn:x-nmos:format:audio''), (''caps'', receiver_caps (Version e s)),
         (''subscription'', obj [(''sender_id'', jsSender), (''active'', JBool (rx_bRun (receiver s)))])])))"

section \<open>Life cycle\<close>

definition resource_seed :: "string \<Rightarrow> string \<Rightarrow> string" where
  "resource_seed sHostname kind = sHostname @ '':pan:'' @ kind"

text \<open>\<open>Stop\<close> joins the registration thread; its last step is in \<open>Registration\<close>.\<close>

definition node_Stop :: "'r Node_scheme \<Rightarrow> 'r Node_scheme" where
  "node_Stop s = s\<lparr>node_bRun := False, m_bServer := False\<rparr>"

definition node_Start :: "node_env \<Rightarrow> int \<Rightarrow> string list \<Rightarrow> 'r Node_scheme \<Rightarrow> (bool \<times> 'r Node_scheme) option" where
  "node_Start e port vInterfaces s = do {
     let s = (node_Stop s)\<lparr>node_nPort := port, node_vInterfaces := vInterfaces, m_sHostname := take 127 (v_hostname e)\<rparr>;
     let uuid = (\<lambda>kind. MakeUuid (v_md5 e) (resource_seed (m_sHostname s) kind));
     nodeId \<leftarrow> uuid ''node''; deviceId \<leftarrow> uuid ''device''; sourceId \<leftarrow> uuid ''source'';
     flowId \<leftarrow> uuid ''flow''; senderId \<leftarrow> uuid ''sender''; receiverId \<leftarrow> uuid ''receiver'';
     let s = s\<lparr>m_sNodeId := nodeId, m_sDeviceId := deviceId, m_sSourceId := sourceId, m_sFlowId := flowId,
               m_sSenderId := senderId, m_sReceiverId := receiverId\<rparr>;
     if \<not> v_listens e then Some (False, s)
     else Some (True, s\<lparr>m_bServer := True, m_jsSenderStaged := sender_document, m_jsSenderActive := sender_document,
            m_jsReceiverStaged := receiver_document, m_jsReceiverActive := receiver_document,
            m_pIs12 := init_is12 receiverId senderId, node_bRun := True\<rparr>)
   }"

section \<open>Node API and status\<close>

definition node_api :: "node_env \<Rightarrow> string \<Rightarrow> 'r Node_scheme \<Rightarrow> response outcome" where
  "node_api e sUri s =
    (let sUri = strip_slash sUri;
         reply = (\<lambda>js. bindO js (\<lambda>js. Val (Reply_Json 200 js)));
         Collection = (\<lambda>js. bindO js (\<lambda>js. Val (Reply_Json 200 (JArr [js]))))
     in if sUri = ''/x-nmos/node'' then Val (Reply_Json 200 (strings [''v1.3/'']))
        else if sUri = ''/x-nmos/node/v1.3'' then Val (Reply_Json 200
          (strings [''self/'', ''devices/'', ''sources/'', ''flows/'', ''senders/'', ''receivers/'', ''subscriptions/'']))
        else if sUri = ''/x-nmos/node/v1.3/self'' then reply (BuildSelf e s)
        else if sUri = ''/x-nmos/node/v1.3/devices'' then Collection (BuildDevice e s)
        else if sUri = ''/x-nmos/node/v1.3/devices/'' @ m_sDeviceId s then reply (BuildDevice e s)
        else if sUri = ''/x-nmos/node/v1.3/sources'' then Collection (BuildSource e s)
        else if sUri = ''/x-nmos/node/v1.3/flows'' then Collection (BuildFlow e s)
        else if sUri = ''/x-nmos/node/v1.3/senders'' then Collection (BuildSender e s)
        else if sUri = ''/x-nmos/node/v1.3/senders/'' @ m_sSenderId s then reply (BuildSender e s)
        else if sUri = ''/x-nmos/node/v1.3/receivers'' then Collection (BuildReceiver e s)
        else if sUri = ''/x-nmos/node/v1.3/receivers/'' @ m_sReceiverId s then reply (BuildReceiver e s)
        else Val (error_reply 404 ''not found''))"

definition node_GetStatusJson :: "'r Node_scheme \<Rightarrow> json outcome" where
  "node_GetStatusJson s =
     bindO (if m_bServer s then ReceiverSenderId s else Val JNull) (\<lambda>jsConnected. Val (obj
       [(''node_id'', JStr (m_sNodeId s)), (''receiver_id'', JStr (m_sReceiverId s)), (''sender_id'', JStr (m_sSenderId s)),
        (''connected_sender_id'', jsConnected), (''registry'', JStr (m_sRegistry s)), (''status'', JStr (m_sRegistryStatus s)),
        (''port'', JInt (node_nPort s))]))"

section \<open>Addresses of registries\<close>

lemma find_from_split: "c \<notin> set a \<Longrightarrow> find_from c 0 (a @ c # b) = Some (length a)"
proof -
  assume "c \<notin> set a"
  then have "takeWhile (\<lambda>x. x \<noteq> c) (a @ c # b) = a" by (subst takeWhile_append2) auto
  then show ?thesis by (simp add: find_from_def)
qed

lemma ParseUrl_parts:
  assumes "CHR '':'' \<notin> set sProto" "CHR '':'' \<notin> set host" "CHR ''/'' \<notin> set host" "-2147483648 \<le> port" "port \<le> 2147483647"
  shows "ParseUrl (sProto @ ''://'' @ host @ '':'' @ to_string port @ CHR ''/'' # path) = Val (Some \<lparr>sHost = host, url_nPort = port, sPath = CHR ''/'' # path\<rparr>)"
proof -
  let ?port = "to_string port" and ?url = "sProto @ CHR '':'' # ''//'' @ (host @ CHR '':'' # to_string port) @ CHR ''/'' # path"
  have p: "CHR ''/'' \<notin> set ?port" using to_string_chars [of "CHR ''/''" port] by (auto simp: is_digit_def)
  have scheme: "find_str ''://'' ?url = Some (length sProto)" by (rule find_str_first [OF assms(1)])
  have tail: "drop (length sProto + 3) ?url = (host @ CHR '':'' # ?port) @ CHR ''/'' # path" by simp
  have slash: "find_from (CHR ''/'') 0 ((host @ CHR '':'' # ?port) @ CHR ''/'' # path) = Some (length (host @ CHR '':'' # ?port))"
    by (rule find_from_split) (use assms(3) p in simp)
  have colon: "find_from (CHR '':'') 0 (host @ CHR '':'' # ?port) = Some (length host)" by (rule find_from_split [OF assms(2)])
  have "atoi ?port = Val port" using assms(4,5) by (rule atoi_to_string)
  then have "ParseUrl ?url = Val (Some \<lparr>sHost = host, url_nPort = port, sPath = CHR ''/'' # path\<rparr>)"
    unfolding ParseUrl_def scheme option.case Let_def tail slash by (simp add: colon [simplified])
  then show ?thesis by simp
qed

text \<open>
  A request below the address of a discovered registry goes to the target and the port of
  its SRV record and asks for exactly the path appended to the address.
\<close>

theorem registry_address:
  assumes "CHR '':'' \<notin> set sProto" "CHR '':'' \<notin> set (sTarget srv)" "CHR ''/'' \<notin> set (sTarget srv)"
  shows "ParseUrl (registry_url sProto srv @ CHR ''/'' # path)
    = Val (Some \<lparr>sHost = pop_dot (sTarget srv), url_nPort = uint (srv_nPort srv), sPath = CHR ''/'' # path\<rparr>)"
proof -
  have host: "c \<notin> set (pop_dot (sTarget srv))" if "c \<notin> set (sTarget srv)" for c
    using that by (auto simp: pop_dot_def dest: in_set_butlastD)
  have "uint (srv_nPort srv) < 65536" using uint_lt2p [of "srv_nPort srv"] by simp
  then have "-2147483648 \<le> uint (srv_nPort srv)" "uint (srv_nPort srv) \<le> 2147483647" using uint_ge_0 [of "srv_nPort srv"] by linarith+
  from ParseUrl_parts [OF assms(1) host [OF assms(2)] host [OF assms(3)] this, of path] show ?thesis by (simp add: registry_url_def)
qed

theorem registry_address_witness:
  "ParseUrl ''http://reg.lan:80/x-nmos''
     = Val (Some \<lparr>sHost = ''reg.lan'', url_nPort = 80, sPath = ''/x-nmos''\<rparr>)"
proof -
  have "registry_url ''http'' \<lparr>sTarget = ''reg.lan.'', srv_nPort = 80\<rparr> = ''http://reg.lan:80''" by code_simp
  moreover have "pop_dot ''reg.lan.'' = ''reg.lan''" by code_simp
  ultimately show ?thesis
    using registry_address [of "''http''" "\<lparr>sTarget = ''reg.lan.'', srv_nPort = 80\<rparr>" "''x-nmos''"] by simp
qed

section \<open>Identifiers\<close>

lemma take_drop_update: "i < length s \<Longrightarrow> take (Suc n) (drop i (s[i := x])) = x # take n (drop (Suc i) s)"
  by (simp add: drop_update_swap) (metis Cons_nth_drop_Suc list_update_code(2) take_Suc_Cons)

lemma HEX_position: "c \<in> set HEX \<Longrightarrow> \<exists>n < 16. find_from c 0 HEX = Some n"
  by (auto simp: HEX_def find_from_def)

lemma variant_digit: "n < 16 \<Longrightarrow> HEX ! unat ((word_of_nat n AND 3) OR 8 :: u64) \<in> set ''89ab''"
proof -
  assume "n < 16"
  moreover have "\<forall>n \<in> set [0..<16]. HEX ! unat ((word_of_nat n AND 3) OR 8 :: u64) \<in> set ''89ab''" by code_simp
  ultimately show ?thesis by simp
qed

text \<open>
  The identifiers are UUIDs of RFC 4122: from a digest of 32 hexadecimal digits \<open>MakeUuid\<close> makes
  a text of the form 8-4-4-4-12 of such digits, with version 3 and the variant digit 8, 9, a or b.
\<close>

theorem MakeUuid_format:
  assumes "length (md5 (c_str sSeed)) = 32" "set (md5 (c_str sSeed)) \<subseteq> set HEX"
  shows "\<exists>a b c v d e. MakeUuid md5 sSeed = Some (a @ ''-'' @ b @ ''-3'' @ c @ ''-'' @ v # d @ ''-'' @ e)
    \<and> map length [a, b, c, d, e] = [8, 4, 3, 3, 12] \<and> v \<in> set ''89ab'' \<and> set (a @ b @ c @ d @ e) \<subseteq> set HEX"
proof -
  let ?h = "md5 (c_str sSeed)"
  let ?s = "?h[12 := CHR ''3'']"
  have "?h ! 16 \<in> set HEX" using assms by (metis nth_mem numeral_less_iff semiring_norm(76,78) subsetD)
  then obtain n where n: "n < 16" "find_from (?h ! 16) 0 HEX = Some n" using HEX_position by blast
  let ?v = "HEX ! unat ((word_of_nat n AND 3) OR 8 :: u64)"
  let ?t = "?s[16 := ?v]"
  have m: "MakeUuid md5 sSeed = Some (take 8 ?t @ ''-'' @ take 4 (drop 8 ?t) @ ''-'' @ take 4 (drop 12 ?t) @ ''-'' @ take 4 (drop 16 ?t)
      @ ''-'' @ take 12 (drop 20 ?t))"
    using assms(1) n(2) by (simp add: MakeUuid_def Let_def)
  have "take 4 (drop 12 ?t) = take 4 (drop 12 ?s)" by (simp add: drop_update_swap)
  then have t: "take 4 (drop 12 ?t) = CHR ''3'' # take 3 (drop 13 ?h)"
    using take_drop_update [of 12 ?h 3 "CHR ''3''"] assms(1) by (simp add: numeral_eq_Suc)
  have v: "take 4 (drop 16 ?t) = ?v # take 3 (drop 17 ?h)"
    using take_drop_update [of 16 ?s 3 ?v] assms(1) by (simp add: numeral_eq_Suc)
  have o: "take 8 ?t = take 8 ?h" "take 4 (drop 8 ?t) = take 4 (drop 8 ?h)" "take 12 (drop 20 ?t) = take 12 (drop 20 ?h)"
    by (simp_all add: drop_update_swap)
  have "set (take 8 ?h @ take 4 (drop 8 ?h) @ take 3 (drop 13 ?h) @ take 3 (drop 17 ?h) @ take 12 (drop 20 ?h)) \<subseteq> set ?h"
    by (auto dest: in_set_takeD in_set_dropD)
  then have "set (take 8 ?h @ take 4 (drop 8 ?h) @ take 3 (drop 13 ?h) @ take 3 (drop 17 ?h) @ take 12 (drop 20 ?h)) \<subseteq> set HEX"
    using assms(2) by (rule order_trans)
  moreover have "MakeUuid md5 sSeed = Some (take 8 ?h @ ''-'' @ take 4 (drop 8 ?h) @ ''-3'' @ take 3 (drop 13 ?h) @ ''-''
      @ ?v # take 3 (drop 17 ?h) @ ''-'' @ take 12 (drop 20 ?h))"
    unfolding m o t v by simp
  moreover have "?v \<in> set ''89ab''" by (rule variant_digit [OF n(1)])
  ultimately show ?thesis using assms(1)
    by (intro exI [of _ "take 8 ?h"] exI [of _ "take 4 (drop 8 ?h)"] exI [of _ "take 3 (drop 13 ?h)"] exI [of _ ?v]
        exI [of _ "take 3 (drop 17 ?h)"] exI [of _ "take 12 (drop 20 ?h)"]) simp
qed

theorem MakeUuid_format_witness:
  "\<exists>a b c v d e. MakeUuid (\<lambda>_. ''d41d8cd98f00b204e9800998ecf8427e'') ''pi:pan:node'' = Some (a @ ''-'' @ b @ ''-3'' @ c @ ''-'' @ v # d @ ''-'' @ e)
    \<and> v \<in> set ''89ab''"
  using MakeUuid_format [of "\<lambda>_. ''d41d8cd98f00b204e9800998ecf8427e''" "''pi:pan:node''"] by (simp add: HEX_def) blast

section \<open>Documents can always be built\<close>

text \<open>Reading a text from the configuration with one of the program's keys never throws.\<close>

lemma pfind_named: "\<forall>t \<in> set ts. t \<noteq> [] \<and> \<not> is_digit (hd t) \<Longrightarrow> \<exists>r. pfind ts js = Val r"
proof (induction ts js rule: pfind.induct)
  case (2 t ts m)
  then show ?case by (cases "map_of m t") simp_all
next
  case (3 t ts xs)
  then have "length t = 1 \<or> 1 < length t" by (cases t) auto
  then show ?case using "3.prems" by auto
qed simp_all

lemma GetValue_string_total:
  assumes "pointer key = Val ts" "\<forall>t \<in> set ts. t \<noteq> [] \<and> \<not> is_digit (hd t)"
  shows "\<exists>v. GetValue get_string key d c = Val v"
proof -
  obtain r where "pfind ts (m_json c) = Val r" using pfind_named [OF assms(2)] by blast
  moreover have "\<exists>v. catchO (get_string x) d = Val v" for x by (cases x) simp_all
  ultimately show ?thesis using assms(1) by (cases r) (simp_all add: GetValue_def)
qed

lemma labels_total:
  "\<exists>v. device_label s = Val v" "\<exists>v. GetValue get_string ''device.description'' d c = Val v" "\<exists>v. GetValue get_string ''sender.label'' d c = Val v"
proof -
  have p: "pointer ''device.label'' = Val [''device'', ''label'']" "pointer ''device.description'' = Val [''device'', ''description'']"
    "pointer ''sender.label'' = Val [''sender'', ''label'']" by code_simp+
  show "\<exists>v. device_label s = Val v" unfolding device_label_def by (rule GetValue_string_total [OF p(1)]) (simp add: is_digit_def)
  show "\<exists>v. GetValue get_string ''device.description'' d c = Val v" by (rule GetValue_string_total [OF p(2)]) (simp add: is_digit_def)
  show "\<exists>v. GetValue get_string ''sender.label'' d c = Val v" by (rule GetValue_string_total [OF p(3)]) (simp add: is_digit_def)
qed

text \<open>The active document of the receiver always has a readable enable flag.\<close>

definition readable :: "json \<Rightarrow> bool" where
  "readable js \<longleftrightarrow> (\<exists>b. jvalue get_bool ''master_enable'' False js = Val b)"

definition active_readable :: "'r ConnectionApi_scheme \<Rightarrow> bool" where
  "active_readable s \<longleftrightarrow> conn_inv s \<and> readable (m_jsReceiverActive s)"

lemma readable_put: "is_object js \<Longrightarrow> json_ok js \<Longrightarrow> k \<noteq> ''master_enable'' \<Longrightarrow> readable (put k v js) = readable js"
  by (simp add: readable_def jvalue_def put_object)

lemma readable_docs: "docs s' = docs s \<Longrightarrow> active_readable s \<Longrightarrow> active_readable s'"
  using conn_inv_docs [of s' s] by (simp add: active_readable_def docs_def)

lemma outside_readable:
  "outside onSender onReceiver \<Longrightarrow> keeps active_readable (onSender b)" "outside onSender onReceiver \<Longrightarrow> keeps active_readable (onReceiver b ses)"
  unfolding outside_def keeps_def using readable_docs by blast+

lemma doc_okD: "doc_ok js \<Longrightarrow> is_object js" "doc_ok js \<Longrightarrow> json_ok js"
  by (simp_all add: doc_ok_def)

lemma activate_receiver_readable:
  assumes "active_readable s" "outside onSender onReceiver"
  shows "active_readable (snd (ActivateReceiver nNow vIps onReceiver s))"
proof (cases "jvalue get_bool ''master_enable'' False (m_jsReceiverStaged s)")
  case (Val b)
  define t where "t = s\<lparr>m_jsReceiverActive := put ''activation'' (ActivationDone nNow) (m_jsReceiverStaged s),
      m_jsReceiverStaged := put ''activation'' activation_none (m_jsReceiverStaged s)\<rparr>"
  have fil: "file_ok (put k v js) = file_ok js" if "doc_ok js" "k \<noteq> ''transport_file''" for k v js
    using that by (simp add: file_ok_def null_member_def doc_ok_def put_object)
  have "conn_inv t" using assms(1)
    by (simp add: t_def active_readable_def conn_inv_def doc_ok_put ActivationDone_ok fil)
  moreover have "readable (m_jsReceiverActive t)" using Val assms(1)
    by (simp add: t_def readable_put active_readable_def conn_inv_def doc_okD) (simp add: readable_def)
  ultimately have t: "active_readable t" by (simp add: active_readable_def)
  have legs: "keeps active_readable (\<lambda>s. let (r, legs) = for_legs (actual_receiver_leg vIps) 0 (legs_of (m_jsReceiverActive s))
      in (r, s\<lparr>m_jsReceiverActive := set_legs legs (m_jsReceiverActive s)\<rparr>))"
    unfolding keeps_def using for_legs_doc [OF _ actual_receiver_leg_ok] fil
    by (simp add: active_readable_def conn_inv_def Let_def case_prod_unfold set_legs_def readable_put doc_okD)
  have ses: "keeps active_readable (\<lambda>s. (receiver_session b (m_jsReceiverActive s), s))" for b :: bool
    by (simp add: keeps_def)
  have bump: "keeps active_readable (modifyS (\<lambda>s. s\<lparr>m_nVersion := m_nVersion s + 1\<rparr>))"
    by (rule keeps_modify) (simp add: active_readable_def conn_inv_def)
  have rest: "keeps active_readable (thenS (\<lambda>s. let (r, legs) = for_legs (actual_receiver_leg vIps) 0 (legs_of (m_jsReceiverActive s))
                 in (r, s\<lparr>m_jsReceiverActive := set_legs legs (m_jsReceiverActive s)\<rparr>)) (
     bindS (\<lambda>s. (receiver_session b (m_jsReceiverActive s), s)) (\<lambda>ses.
     thenS (onReceiver b ses) (modifyS (\<lambda>s. s\<lparr>m_nVersion := m_nVersion s + 1\<rparr>)))))"
    by (intro keeps_intros legs ses bump outside_readable(2) [OF assms(2)])
  have first: "bindS (evalS (Val b)) f s = f b s" "thenS (modifyS g) n s = n (g s)"
    for f :: "bool \<Rightarrow> ('a ConnectionApi_scheme, unit) act" and g and n :: "('a ConnectionApi_scheme, unit) act"
    by (simp_all add: act_simps)
  show ?thesis unfolding ActivateReceiver_def Val first t_def [symmetric] by (rule keepsD [OF rest t])
qed (use assms in \<open>simp_all add: ActivateReceiver_def act_simps\<close>)

lemma keeps_conj: "keeps P m \<Longrightarrow> keeps Q m \<Longrightarrow> keeps (\<lambda>s. P s \<and> Q s) m"
  by (simp add: keeps_def)

lemma activate_sender_readable:
  fixes onSender :: "bool \<Rightarrow> ('r ConnectionApi_scheme, unit) act"
  assumes "outside onSender onReceiver"
  shows "keeps (\<lambda>s. readable (m_jsReceiverActive s)) (ActivateSender nNow vIps onSender)"
proof -
  let ?P = "\<lambda>s :: 'r ConnectionApi_scheme. readable (m_jsReceiverActive s)"
  have set: "keeps ?P (set_config p v)" for p v by (simp add: keeps_def)
  have mods: "keeps ?P (modifyS f)" if "\<And>s. m_jsReceiverActive (f s) = m_jsReceiverActive s" for f
    by (rule keeps_modify) (simp add: that)
  have cb: "keeps ?P (onSender b)" for b
    using assms by (auto simp: outside_def keeps_def docs_def)
  have en: "keeps ?P (case x of Some (JBool b) \<Rightarrow> thenS (set_config p (JBool b)) (modifyS (\<lambda>s. s\<lparr>sender := SetLegEnabled i b (sender s)\<rparr>))
      | _ \<Rightarrow> returnS ())" for x p i
    by (auto intro!: keeps_intros set mods split: option.split json.split)
  have app: "keeps ?P (apply_destination legs i)" "keeps ?P (apply_port legs)" "keeps ?P (apply_enabled legs i)" for legs i
    unfolding apply_destination_def apply_port_def apply_enabled_def by (intro keeps_intros set en)+
  have legs: "keeps ?P (\<lambda>s. let (r, legs) = for_legs (actual_sender_leg vIps (cfg s)) 0 (legs_of (m_jsSenderActive s))
      in (r, s\<lparr>m_jsSenderActive := set_legs legs (m_jsSenderActive s)\<rparr>))"
    by (simp add: keeps_def Let_def case_prod_unfold)
  show ?thesis
  proof (rule keepsI)
    fix s :: "'r ConnectionApi_scheme" assume "?P s"
    then show "?P (snd (ActivateSender nNow vIps onSender s))"
      unfolding ActivateSender_def Let_def
      by (rule keepsD [rotated]) (intro keeps_intros app legs [unfolded Let_def] cb mods, simp_all)
  qed
qed

lemma patches_readable:
  assumes "outside onSender onReceiver" "json_ok js"
  shows "keeps active_readable (PatchSender nNow vIps onSender js)" "keeps active_readable (PatchReceiver nNow vIps onReceiver js)"
proof -
  have "keeps (\<lambda>s. readable (m_jsReceiverActive s)) (PatchSender nNow vIps onSender js)"
    unfolding PatchSender_def by (intro keeps_intros activate_sender_readable [OF assms(1)] keeps_modify) simp
  moreover have inv: "keeps conn_inv (PatchSender nNow vIps onSender js)" "keeps conn_inv (PatchReceiver nNow vIps onReceiver js)"
    using outside_keeps [OF assms(1)] by (intro keeps_patches [OF assms(2)]; blast)+
  ultimately show "keeps active_readable (PatchSender nNow vIps onSender js)"
    using keeps_conj unfolding active_readable_def by blast
  show "keeps active_readable (PatchReceiver nNow vIps onReceiver js)"
  proof (rule keepsI)
    fix s :: "'a ConnectionApi_scheme" assume s: "active_readable s"
    let ?stage = "\<lambda>s. s\<lparr>m_jsReceiverStaged :=
      stage_legs js (stage_file js (stage_keys [''master_enable'', ''sender_id''] js (m_jsReceiverStaged s)))\<rparr>"
    have i: "conn_inv (snd (PatchReceiver nNow vIps onReceiver js s))" using keepsD [OF inv(2)] s by (simp add: active_readable_def)
    show "active_readable (snd (PatchReceiver nNow vIps onReceiver js s))"
    proof (cases "wants_activation js = Val True")
      case True
      have "conn_inv (?stage s)" using keepsD [OF keeps_stage_receiver [OF assms(2)], of s] s by (simp add: active_readable_def modifyS_def)
      then have "active_readable (?stage s)" using s by (simp add: active_readable_def)
      from activate_receiver_readable [OF this assms(1), of nNow vIps] show ?thesis
        by (simp add: PatchReceiver_def act_simps True)
    next
      case False
      then have "in_effect (snd (PatchReceiver nNow vIps onReceiver js s)) = in_effect s" by (rule receiver_api.stage_only)
      then show ?thesis using i s by (simp add: in_effect_def active_readable_def)
    qed
  qed
qed

lemma conn_reachable_readable:
  assumes "conn_reachable onSender onReceiver s" "outside onSender onReceiver"
  shows "active_readable s"
  using assms(1)
proof induction
  case (start s)
  have "jvalue get_bool ''master_enable'' False receiver_document = Val False" by code_simp
  then have "readable receiver_document" by (auto simp: readable_def)
  then show ?case using start by (simp add: docs_def conn_inv_def documents_ok active_readable_def)
next
  case (request s body e sUri sMethod)
  have "keeps active_readable (Handle e onSender onReceiver sUri sMethod body)"
    using request.hyps(2) by (intro Handle_keeps patches_readable [OF assms(2)]) auto
  then show ?case using request.IH by (rule keepsD)
qed (rule readable_docs)

lemma ReceiverSenderId_total:
  assumes "active_readable s"
  shows "\<exists>js. ReceiverSenderId s = Val js"
proof -
  obtain b where "jvalue get_bool ''master_enable'' False (m_jsReceiverActive s) = Val b" "is_object (m_jsReceiverActive s)"
    using assms unfolding active_readable_def readable_def conn_inv_def doc_ok_def by blast
  moreover have "\<exists>js. jvalue Val ''sender_id'' JNull d = Val js" if "is_object d" for d
    using that by (cases "jfind ''sender_id'' d") (simp_all add: jvalue_def)
  ultimately show ?thesis by (cases b) (simp_all add: ReceiverSenderId_def)
qed

text \<open>The six documents in the order of their registration.\<close>

definition resources :: "(string \<times> (node_env \<Rightarrow> 'r Node_scheme \<Rightarrow> json outcome)) list" where
  "resources = [(''node'', BuildSelf), (''device'', BuildDevice), (''source'', BuildSource), (''flow'', BuildFlow),
     (''sender'', BuildSender), (''receiver'', BuildReceiver)]"

lemma resource_total:
  assumes "active_readable s" "(t, build) \<in> set resources"
  shows "\<exists>js. build e s = Val js"
proof -
  obtain l d sl where l: "device_label s = Val l" "GetValue get_string ''device.description'' [] (cfg s) = Val d"
      "GetValue get_string ''sender.label'' [] (cfg s) = Val sl"
    using labels_total(1) [of s] labels_total(2,3) [of "[]" "cfg s"] by auto
  moreover obtain r where "ReceiverSenderId s = Val r" using ReceiverSenderId_total [OF assms(1)] by blast
  ultimately show ?thesis using assms(2)
    by (auto simp: resources_def BuildSelf_def BuildDevice_def BuildSource_def BuildFlow_def BuildSender_def BuildReceiver_def Let_def)
qed

lemma resources_total:
  fixes s :: "'r Node_scheme"
  assumes "active_readable s"
  shows "\<exists>docs. map (\<lambda>(t, build). build e s) resources = map Val docs"
proof -
  have "\<forall>x \<in> set (resources :: (string \<times> (node_env \<Rightarrow> 'r Node_scheme \<Rightarrow> json outcome)) list). \<exists>js. (\<lambda>(t, build). build e s) x = Val js"
    using resource_total [OF assms] by auto
  then have "\<exists>docs. map (\<lambda>(t, build). build e s) xs = map Val docs" if "set xs \<subseteq> set (resources :: (string \<times> (node_env \<Rightarrow> 'r Node_scheme \<Rightarrow> json outcome)) list)" for xs
    using that
  proof (induction xs)
    case (Cons x xs)
    then obtain js ds where "(\<lambda>(t, build). build e s) x = Val js" "map (\<lambda>(t, build). build e s) xs = map Val ds" by auto
    then show ?case by (intro exI [of _ "js # ds"]) simp
  qed simp
  then show ?thesis by blast
qed

text \<open>
  The resources can always be described: whatever the configuration holds and whatever
  requests the connection API has handled, each of the six documents of the node is built without
  an exception, so neither the registration thread nor the node API can be stopped by one.
\<close>

theorem resources_always_built:
  fixes s :: "'r Node_scheme"
  assumes "conn_reachable onSender onReceiver s" "outside onSender onReceiver"
  shows "\<exists>docs. map (\<lambda>(t, build). build e s) resources = map Val docs"
  by (rule resources_total [OF conn_reachable_readable [OF assms]])

definition demo_node_env :: node_env where
  "demo_node_env = \<lparr>v_http = \<lambda>h p t. Some (200, []), v_dump = \<lambda>js. Val [], v_parse = \<lambda>t. None, v_time = 5, v_addrs = [(''eth0'', ''10.0.0.7'')],
     v_mac = \<lambda>f. None, v_hostname = ''pi'', v_md5 = \<lambda>x. [], v_listens = True\<rparr>"

definition demo_node :: Node where
  "demo_node = init_node \<lparr>m_json = JNull, m_sPath = []\<rparr> init_sender (init_client [] 0 []) init_receiver"

theorem resources_always_built_witness: "\<exists>docs. map (\<lambda>(t, build). build demo_node_env demo_node) resources = map Val docs"
proof (rule resources_always_built)
  show "conn_reachable (\<lambda>b. returnS ()) (\<lambda>b ses. returnS ()) demo_node"
    by (rule conn_reachable.start) (simp add: docs_def demo_node_def init_node_def)
  show "outside (\<lambda>b. returnS ()) (\<lambda>b ses. returnS ())" by (simp add: outside_def returnS_def)
qed

end
