(* ===== verification/Web.thy ===== *)
theory Web
  imports Node
begin

text \<open>
  The web server of the user interface, \<^verbatim>\<open>src/src/web/server.cpp\<close>: the REST handler, the set of websocket
  clients and the loop that pushes status and meters to them.  The status, the meters, the reaction
  to a changed configuration and the actions are arguments, absent when the function is empty.  A
  request comes with its body; the directory listing, the opening of a file and the text of an
  exception are readings of the environment.  The state extends the state of the node.
\<close>

section \<open>State\<close>

record Web = Node +
  m_sFilesDir :: string
  m_setClients :: "nat set"
  files :: "(string \<times> string) list" \<comment> \<open>the files written, path and content\<close>
  web_bRun :: bool

record web_env =
  w_node :: node_env
  w_dir :: "string list option"
  w_opens :: "string \<Rightarrow> bool"
  w_what :: string

definition SendJson :: "web_env \<Rightarrow> int \<Rightarrow> json \<Rightarrow> ('s, response) act" where
  "SendJson e st js = bindS (evalS (v_dump (w_node e) js)) (\<lambda>_. returnS (Reply_Json st js))"

text \<open>A \<^verbatim>\<open>try\<close> block that answers every exception with status 400 and its text.\<close>

definition try_reply :: "web_env \<Rightarrow> ('s, response) act \<Rightarrow> ('s, response) act" where
  "try_reply e m = (\<lambda>s. case m s of
     (Throw, s') \<Rightarrow> SendJson e 400 (obj [(''error'', JStr (w_what e))]) s'
   | (Val r, s') \<Rightarrow> (Val r, s')
   | (Undef, s') \<Rightarrow> (Undef, s'))"

definition parse_body :: "web_env \<Rightarrow> string \<Rightarrow> json outcome" where
  "parse_body e sBody = (case v_parse (w_node e) sBody of None \<Rightarrow> Throw | Some js \<Rightarrow> Val js)"

definition update_config :: "json \<Rightarrow> ('r ConnectionApi_scheme, unit) act" where
  "update_config jsUpdates s =
    (let (ok, c, w) = Update_config jsUpdates (cfg s);
         s = s\<lparr>cfg := c, written := written s @ (case w of Some f \<Rightarrow> [f] | None \<Rightarrow> [])\<rparr>
     in (if ok then Val () else Throw, s))"

definition audio_file :: "string \<Rightarrow> bool" where
  "audio_file name \<longleftrightarrow> 4 < length name
     \<and> (drop (length name - 4) name = ''.wav'' \<or> drop (length name - 4) name = ''.mp3'')"

section \<open>Requests\<close>

definition upload :: "web_env \<Rightarrow> string \<Rightarrow> string \<Rightarrow> ('r Web_scheme, response) act" where
  "upload e name sBody =
    (if CHR ''/'' \<in> set name \<or> find_str ''..'' name \<noteq> None then SendJson e 400 (obj [(''error'', JStr ''bad name'')])
     else thenS (modifyS (\<lambda>s.
            let path = m_sFilesDir s @ ''/'' @ name
            in if w_opens e path then s\<lparr>files := files s @ [(path, sBody)]\<rparr> else s))
       (SendJson e 200 (obj [(''ok'', JBool True), (''bytes'', JInt (int (length sBody)))])))"

definition HandleApi ::
  "web_env \<Rightarrow> ('r Web_scheme, json) act option \<Rightarrow> (json \<Rightarrow> ('r Web_scheme, unit) act) option
    \<Rightarrow> (string \<Rightarrow> json \<Rightarrow> ('r Web_scheme, json) act) option \<Rightarrow> string \<Rightarrow> string \<Rightarrow> string \<Rightarrow> ('r Web_scheme, response) act" where
  "HandleApi e pStatus pApplied pAction sUri sMethod sBody s =
    (if sUri = ''/api/status'' then
       bindS (case pStatus of None \<Rightarrow> returnS (obj []) | Some f \<Rightarrow> f) (SendJson e 200) s
     else if sUri = ''/api/config'' \<and> sMethod = ''GET'' then SendJson e 200 (m_json (cfg s)) s
     else if sUri = ''/api/config'' \<and> sMethod = ''POST'' then
       try_reply e (bindS (evalS (parse_body e sBody)) (\<lambda>jsUpdates.
         thenS (update_config jsUpdates)
           (thenS (case pApplied of None \<Rightarrow> returnS () | Some f \<Rightarrow> f jsUpdates) (SendJson e 200 (obj [(''ok'', JBool True)]))))) s
     else if sUri = ''/api/files'' \<and> sMethod = ''GET'' then
       SendJson e 200 (JArr (map JStr (filter audio_file (case w_dir e of None \<Rightarrow> [] | Some names \<Rightarrow> names)))) s
     else if starts_with ''/api/files/'' sUri \<and> sMethod = ''PUT'' then upload e (drop 11 sUri) sBody s
     else if starts_with ''/api/action/'' sUri \<and> sMethod = ''POST'' then
       try_reply e (bindS (evalS (if sBody = [] then Val (obj []) else parse_body e sBody)) (\<lambda>jsBody.
         bindS (case pAction of None \<Rightarrow> returnS (obj []) | Some f \<Rightarrow> f (drop 12 sUri) jsBody) (SendJson e 200))) s
     else SendJson e 404 (obj [(''error'', JStr ''not found'')]) s)"

section \<open>Websocket clients\<close>

definition web_WsReady :: "nat \<Rightarrow> 'r Web_scheme \<Rightarrow> 'r Web_scheme" where
  "web_WsReady conn s = s\<lparr>m_setClients := insert conn (m_setClients s)\<rparr>"

definition web_WsClose :: "nat \<Rightarrow> 'r Web_scheme \<Rightarrow> 'r Web_scheme" where
  "web_WsClose conn s = s\<lparr>m_setClients := m_setClients s - {conn}\<rparr>"

text \<open>
  One round of \<^verbatim>\<open>PushLoop\<close>: the messages sent to each client of the set it copied.  An exception
  of a provider or of the printer ends the thread and with it the program, and the round counter is
  an \<^verbatim>\<open>int\<close>, whose increment beyond its greatest value is not defined.
\<close>

definition push_tick ::
  "node_env \<Rightarrow> ('r Web_scheme, json) act option \<Rightarrow> ('r Web_scheme, json) act option \<Rightarrow> int \<Rightarrow> ('r Web_scheme, int \<times> (nat \<times> json) set) act" where
  "push_tick e pStatus pMeters nTick s =
    (let clients = m_setClients s in
     if nTick = 2147483647 then (Undef, s)
     else let nTick = nTick + 1 in
     if clients = {} then (Val (nTick, {}), s)
     else case (if nTick mod 5 = 0 then pStatus else pMeters) of
         None \<Rightarrow> (Val (nTick, {}), s)
       | Some f \<Rightarrow> bindS f (\<lambda>js. bindS (evalS (v_dump e js)) (\<lambda>_. returnS (nTick, (\<lambda>c. (c, js)) ` clients))) s)"

section \<open>Life cycle\<close>

text \<open>\<open>Stop\<close> joins the push thread and stops the server, so no handler runs after it.  The callbacks are arguments of the handlers.\<close>

definition web_Stop :: "'r Web_scheme \<Rightarrow> 'r Web_scheme" where
  "web_Stop s = s\<lparr>web_bRun := False\<rparr>"

definition web_Start :: "bool \<Rightarrow> string \<Rightarrow> 'r Web_scheme \<Rightarrow> bool \<times> 'r Web_scheme" where
  "web_Start listens sFilesDir s =
    (let s = (web_Stop s)\<lparr>m_sFilesDir := sFilesDir\<rparr>
     in if \<not> listens then (False, s) else (True, s\<lparr>web_bRun := True\<rparr>))"

section \<open>Uploads\<close>

lemma try_reply_keeps: "keeps P m \<Longrightarrow> keeps P (try_reply e m)"
  unfolding keeps_def try_reply_def SendJson_def
  by (simp add: act_simps case_prod_unfold split: outcome.split)

lemma SendJson_keeps [keeps_intros]: "keeps P (SendJson e st js)"
  unfolding SendJson_def by (intro keeps_intros)

text \<open>What the handler keeps is what its parts keep.\<close>

lemma HandleApi_keeps:
  fixes P :: "'r Web_scheme \<Rightarrow> bool"
  assumes "\<And>f. pStatus = Some f \<Longrightarrow> keeps P f" "\<And>js. keeps P (update_config js)" "\<And>f js. pApplied = Some f \<Longrightarrow> keeps P (f js)"
    and "\<And>f a js. pAction = Some f \<Longrightarrow> keeps P (f a js)"
    and "starts_with ''/api/files/'' sUri \<Longrightarrow> sMethod = ''PUT'' \<Longrightarrow> sUri \<noteq> ''/api/status'' \<Longrightarrow> keeps P (upload e (drop 11 sUri) sBody)"
  shows "keeps P (HandleApi e pStatus pApplied pAction sUri sMethod sBody)"
proof (rule keepsI)
  fix s assume s: "P s"
  have st: "keeps P (case pStatus of None \<Rightarrow> returnS (obj []) | Some f \<Rightarrow> f)"
    and ap: "keeps P (case pApplied of None \<Rightarrow> returnS () | Some f \<Rightarrow> f js)"
    and ac: "keeps P (case pAction of None \<Rightarrow> returnS (obj []) | Some f \<Rightarrow> f a js)" for js a
    using assms(1,3,4) by (auto intro: keeps_intros split: option.split)
  have branch: "P (snd (if b then x else y))" if "b \<Longrightarrow> P (snd x)" "\<not> b \<Longrightarrow> P (snd y)"
    for b and x y :: "response outcome \<times> 'r Web_scheme"
    using that by simp
  have run: "P (snd (m s))" if "keeps P m" for m :: "('r Web_scheme, response) act"
    using keepsD [OF that s] .
  have up: "P (snd (upload e (drop 11 sUri) sBody s))" if "starts_with ''/api/files/'' sUri \<and> sMethod = ''PUT''" "sUri \<noteq> ''/api/status''"
    using that assms(5) run by blast
  show "P (snd (HandleApi e pStatus pApplied pAction sUri sMethod sBody s))"
    unfolding HandleApi_def
    by (rule branch, rule run, intro keeps_intros st, rule branch, rule run, intro keeps_intros,
        rule branch, rule run, intro try_reply_keeps keeps_intros assms(2) ap, rule branch, rule run, intro keeps_intros,
        rule branch, erule up, assumption, rule branch, rule run, intro try_reply_keeps keeps_intros ac,
        rule run, intro keeps_intros)
qed

text \<open>A path directly below a directory.\<close>

definition child_of :: "string \<Rightarrow> string \<Rightarrow> bool" where
  "child_of d path \<longleftrightarrow> (\<exists>name. path = d @ ''/'' @ name \<and> CHR ''/'' \<notin> set name \<and> (\<nexists>a b. name = a @ ''..'' @ b))"

text \<open>
  C31. An upload cannot leave the directory of the audio files: a request writes at most one file,
  only when it is a PUT below \<^verbatim>\<open>/api/files/\<close>, and that file lies directly in the directory, under a
  name without a slash and without two dots in a row; its content is the body, and the
  reply names its length.
\<close>

theorem upload_confined:
  fixes s :: "'r Web_scheme"
  assumes "HandleApi e pStatus pApplied pAction sUri sMethod sBody s = (r, s')"
    and "\<And>f. pStatus = Some f \<Longrightarrow> keeps (\<lambda>t. files t = files s \<and> m_sFilesDir t = m_sFilesDir s) f"
    and "\<And>f js. pApplied = Some f \<Longrightarrow> keeps (\<lambda>t. files t = files s \<and> m_sFilesDir t = m_sFilesDir s) (f js)"
    and "\<And>f a js. pAction = Some f \<Longrightarrow> keeps (\<lambda>t. files t = files s \<and> m_sFilesDir t = m_sFilesDir s) (f a js)"
  shows "files s' = files s \<or> (\<exists>path. files s' = files s @ [(path, sBody)] \<and> child_of (m_sFilesDir s) path \<and> sMethod = ''PUT''
    \<and> starts_with ''/api/files/'' sUri \<and> (r = Throw \<or> r = Undef \<or> r = Val (Reply_Json 200 (obj [(''ok'', JBool True), (''bytes'', JInt (int (length sBody)))]))))"
proof (cases "starts_with ''/api/files/'' sUri \<and> sMethod = ''PUT'' \<and> sUri \<noteq> ''/api/status''")
  case True
  have "\<not> (sUri = ''/api/config'' \<and> sMethod = ''GET'')" "\<not> (sUri = ''/api/config'' \<and> sMethod = ''POST'')" "\<not> (sUri = ''/api/files'' \<and> sMethod = ''GET'')"
    using True by simp_all
  with True assms(1) have u: "upload e (drop 11 sUri) sBody s = (r, s')" by (simp add: HandleApi_def)
  let ?n = "drop 11 sUri" and ?p = "m_sFilesDir s @ ''/'' @ drop 11 sUri"
  show ?thesis
  proof (cases "CHR ''/'' \<in> set ?n \<or> find_str ''..'' ?n \<noteq> None")
    case True
    then show ?thesis using u by (cases "v_dump (w_node e) (obj [(''error'', JStr ''bad name'')])") (auto simp: upload_def SendJson_def act_simps)
  next
    case False
    then have "child_of (m_sFilesDir s) ?p" by (auto simp: child_of_def find_str_None)
    moreover have "files s' = files s \<or> files s' = files s @ [(?p, sBody)]
        \<and> (r = Throw \<or> r = Undef \<or> r = Val (Reply_Json 200 (obj [(''ok'', JBool True), (''bytes'', JInt (int (length sBody)))])))"
      using u False
      by (cases "v_dump (w_node e) (obj [(''ok'', JBool True), (''bytes'', JInt (int (length sBody)))])")
        (auto simp: upload_def SendJson_def act_simps Let_def split: if_splits)
    ultimately show ?thesis using True by blast
  qed
next
  case False
  let ?P = "\<lambda>t. files t = files s \<and> m_sFilesDir t = m_sFilesDir s"
  have upd: "keeps ?P (update_config js)" for js by (simp add: keeps_def update_config_def Let_def case_prod_unfold)
  have "keeps ?P (HandleApi e pStatus pApplied pAction sUri sMethod sBody)"
    using assms(2-4) upd False by (intro HandleApi_keeps) auto
  from keepsD [OF this] have "?P (snd (HandleApi e pStatus pApplied pAction sUri sMethod sBody s))" by simp
  then show ?thesis using assms(1) by simp
qed

definition init_web :: "Node \<Rightarrow> Web" where
  "init_web n = Node.Node.extend n \<lparr>m_sFilesDir = [], m_setClients = {}, files = [], web_bRun = False\<rparr>"

definition demo_web_env :: web_env where
  "demo_web_env = \<lparr>w_node = demo_node_env, w_dir = Some [''a.wav'', ''.wav'', ''notes.txt''], w_opens = \<lambda>p. True, w_what = ''error''\<rparr>"

definition demo_web :: Web where
  "demo_web = snd (web_Start True ''/audio'' (init_web demo_node))"

theorem upload_confined_witness:
  "\<exists>r s'. HandleApi demo_web_env None None None ''/api/files/a.wav'' ''PUT'' ''RIFF'' demo_web = (r, s')
    \<and> (files s' = files demo_web \<or> (\<exists>path. files s' = files demo_web @ [(path, ''RIFF'')] \<and> child_of (m_sFilesDir demo_web) path \<and> ''PUT'' = ''PUT''
    \<and> starts_with ''/api/files/'' ''/api/files/a.wav'' \<and> (r = Throw \<or> r = Undef \<or> r = Val (Reply_Json 200 (obj [(''ok'', JBool True), (''bytes'', JInt (int (length ''RIFF'')))])))))"
proof -
  obtain r s' where h: "HandleApi demo_web_env None None None ''/api/files/a.wav'' ''PUT'' ''RIFF'' demo_web = (r, s')" by fastforce
  show ?thesis by (intro exI conjI, rule h, rule upload_confined [OF h]) simp_all
qed

section \<open>What a client is sent\<close>

text \<open>
  The rounds of the loop at the states it finds, in which other threads may have changed anything:
  what is sent in each round.
\<close>

fun push_rounds ::
  "node_env \<Rightarrow> ('r Web_scheme, json) act option \<Rightarrow> ('r Web_scheme, json) act option \<Rightarrow> int \<Rightarrow> 'r Web_scheme list \<Rightarrow> (nat \<times> json) set list outcome" where
  "push_rounds e pStatus pMeters nTick [] = Val []"
| "push_rounds e pStatus pMeters nTick (s # ss) =
     bindO (fst (push_tick e pStatus pMeters nTick s)) (\<lambda>(nTick, sent).
     bindO (push_rounds e pStatus pMeters nTick ss) (\<lambda>rest. Val (sent # rest)))"

definition pushed :: "('r Web_scheme \<Rightarrow> json) \<Rightarrow> ('r Web_scheme \<Rightarrow> json) \<Rightarrow> int \<Rightarrow> 'r Web_scheme \<Rightarrow> (nat \<times> json) set" where
  "pushed status meters n s = (\<lambda>c. (c, if n mod 5 = 0 then status s else meters s)) ` m_setClients s"

lemma push_rounds_eq:
  assumes "\<And>s. \<exists>t. v_dump e (status s) = Val t" "\<And>s. \<exists>t. v_dump e (meters s) = Val t" "0 \<le> n" "n + int (length ss) \<le> 2147483647"
  shows "push_rounds e (Some (\<lambda>s. (Val (status s), s))) (Some (\<lambda>s. (Val (meters s), s))) n ss
    = Val (map (\<lambda>(k, s). pushed status meters (n + 1 + int k) s) (enumerate 0 ss))"
  using assms(3,4)
proof (induction ss arbitrary: n)
  case (Cons s ss)
  obtain a b where "v_dump e (status s) = Val a" "v_dump e (meters s) = Val b" using assms(1,2) by blast
  then have "fst (push_tick e (Some (\<lambda>s. (Val (status s), s))) (Some (\<lambda>s. (Val (meters s), s))) n s) = Val (n + 1, pushed status meters (n + 1) s)"
    using Cons.prems by (auto simp: push_tick_def Let_def pushed_def act_simps)
  moreover have "enumerate (Suc 0) ss = map (\<lambda>(k, s). (Suc k, s)) (enumerate 0 ss)"
    by (rule nth_equalityI) (simp_all add: nth_enumerate_eq)
  ultimately show ?case using Cons.IH [of "n + 1"] Cons.prems by (simp add: case_prod_unfold comp_def ac_simps)
qed simp

text \<open>
  The feed of the user interface: as long as the loop runs, in every round each connected
  client and nobody else is sent exactly one message, the full status of that moment in every fifth
  round and the meters of that moment in the others.  The hypotheses are that the status and the
  meters can be computed and printed, and that the loop has run less than 3.4 years, which is when
  its round counter overflows.
\<close>

theorem push_feed:
  assumes "\<And>s. \<exists>t. v_dump e (status s) = Val t" "\<And>s. \<exists>t. v_dump e (meters s) = Val t" "length ss \<le> 2147483647"
  shows "\<exists>sent. push_rounds e (Some (\<lambda>s. (Val (status s), s))) (Some (\<lambda>s. (Val (meters s), s))) 0 ss = Val sent
    \<and> length sent = length ss
    \<and> (\<forall>k < length ss. \<forall>c js. (c, js) \<in> sent ! k \<longleftrightarrow>
        c \<in> m_setClients (ss ! k) \<and> js = (if 5 dvd Suc k then status (ss ! k) else meters (ss ! k)))"
proof -
  let ?sent = "map (\<lambda>(k, s). pushed status meters (0 + 1 + int k) s) (enumerate 0 ss)"
  have five: "(1 + int k) mod 5 = 0 \<longleftrightarrow> 5 dvd Suc k" for k by presburger
  have "(c, js) \<in> ?sent ! k \<longleftrightarrow> c \<in> m_setClients (ss ! k) \<and> js = (if 5 dvd Suc k then status (ss ! k) else meters (ss ! k))"
    if "k < length ss" for k c js
    using that by (auto simp: nth_enumerate_eq pushed_def five)
  moreover have "push_rounds e (Some (\<lambda>s. (Val (status s), s))) (Some (\<lambda>s. (Val (meters s), s))) 0 ss = Val ?sent"
    using assms by (intro push_rounds_eq) simp_all
  ultimately show ?thesis by (intro exI [of _ ?sent]) simp
qed

theorem push_feed_witness:
  "\<exists>sent. push_rounds demo_node_env (Some (\<lambda>s. (Val (obj []), s))) (Some (\<lambda>s. (Val JNull, s))) 0 [demo_web, web_WsReady 4 demo_web] = Val sent
    \<and> (4, JNull) \<in> sent ! 1 \<and> sent ! 0 = {}"
proof -
  obtain sent where s: "push_rounds demo_node_env (Some (\<lambda>s. (Val (obj []), s))) (Some (\<lambda>s. (Val JNull, s))) 0 [demo_web, web_WsReady 4 demo_web] = Val sent"
    and m: "\<And>k c js. k < 2 \<Longrightarrow> (c, js) \<in> sent ! k \<longleftrightarrow>
        c \<in> m_setClients ([demo_web, web_WsReady 4 demo_web] ! k) \<and> js = (if 5 dvd Suc k then obj [] else JNull)"
    using push_feed [of demo_node_env "\<lambda>s. obj []" "\<lambda>s. JNull" "[demo_web, web_WsReady 4 demo_web]"] by (auto simp: demo_node_env_def)
  have "(4, JNull) \<in> sent ! 1" using m [of 1 4 JNull] by (simp add: web_WsReady_def flip: numeral_2_eq_2)
  moreover have "sent ! 0 = {}" using m [of 0] by (auto simp: demo_web_def web_Start_def web_Stop_def init_web_def Node.Node.defs)
  ultimately show ?thesis using s by blast
qed

end
