(* ===== verification/Ptp_Client.thy ===== *)
theory Ptp_Client
  imports Ptp_State
begin

text \<open>
  The message handlers, the timer and the status of \<^verbatim>\<open>PtpClient\<close> (\<^verbatim>\<open>src/ptp/ptpclient.cpp\<close>).  A
  handler takes the received datagram as a byte list (its length is \<^verbatim>\<open>nSize\<close>) and returns
  \<open>None\<close> only if it would access memory outside the datagram or an array; a handler that ignores
  a message returns the state unchanged.  The client as a whole is a step relation over the
  datagrams, the timer ticks and the calls of the other threads; the invariant of
  \<open>Ptp_State\<close> holds in every reachable state.
\<close>

section \<open>Fields of a message\<close>

definition Get16 :: "bytes \<Rightarrow> nat \<Rightarrow> u16 option" where
  "Get16 p i = do { a \<leftarrow> rd p i; b \<leftarrow> rd p (i + 1); Some (be16 a b) }"

definition Get48 :: "bytes \<Rightarrow> nat \<Rightarrow> u64 option" where
  "Get48 p i = do { b \<leftarrow> rd_bytes p i 6; Some (foldl (\<lambda>n x. push_bit 8 n OR ucast x) 0 b) }"

definition Get32 :: "bytes \<Rightarrow> nat \<Rightarrow> u32 option" where
  "Get32 p i = do { a \<leftarrow> rd p i; b \<leftarrow> rd p (i + 1); c \<leftarrow> rd p (i + 2); d \<leftarrow> rd p (i + 3);
     Some (be32 a b c d) }"

definition GetTimestampNs :: "bytes \<Rightarrow> nat \<Rightarrow> u64 option" where
  "GetTimestampNs p i = do { sec \<leftarrow> Get48 p i; ns \<leftarrow> Get32 p (i + 6);
     Some (sec * 1000000000 + ucast ns) }"

text \<open>\<^verbatim>\<open>enum MsgType\<close>\<close>

abbreviation "SYNC \<equiv> 0x0 :: u8"
abbreviation "DELAY_REQ \<equiv> 0x1 :: u8"
abbreviation "FOLLOW_UP \<equiv> 0x8 :: u8"
abbreviation "DELAY_RESP \<equiv> 0x9 :: u8"
abbreviation "ANNOUNCE \<equiv> 0xB :: u8"

section \<open>Handlers\<close>

definition parse_announce :: "bytes \<Rightarrow> AnnounceDataset option" where
  "parse_announce p = do {
     cid \<leftarrow> rd_bytes p 20 8;
     port \<leftarrow> Get16 p 28;
     nFlags \<leftarrow> Get16 p 6;
     utc \<leftarrow> Get16 p 44;
     p1 \<leftarrow> rd p 47;
     cls \<leftarrow> rd p 48;
     acc \<leftarrow> rd p 49;
     var \<leftarrow> Get16 p 50;
     p2 \<leftarrow> rd p 52;
     gm \<leftarrow> rd_bytes p 53 8;
     steps \<leftarrow> Get16 p 61;
     tsrc \<leftarrow> rd p 63;
     Some \<lparr> ds_source = PortIdentity cid port, nPriority1 = p1, nClockClass = cls,
       nClockAccuracy = acc, nOffsetScaledLogVariance = var, nPriority2 = p2,
       grandmasterIdentity = gm, nStepsRemoved = steps, nTimeSource = tsrc, nUtcOffset = sint utc,
       bLeap61 = (nFlags AND 0x0001 \<noteq> 0), bLeap59 = (nFlags AND 0x0002 \<noteq> 0),
       bUtcValid = (nFlags AND 0x0004 \<noteq> 0), bTimeTraceable = (nFlags AND 0x0010 \<noteq> 0),
       bFreqTraceable = (nFlags AND 0x0020 \<noteq> 0) \<rparr> }"

text \<open>The bookkeeping of one announce in its table entry.\<close>

definition note_announce ::
  "AnnounceDataset \<Rightarrow> string \<Rightarrow> nat \<Rightarrow> int \<Rightarrow> ForeignMaster \<Rightarrow> ForeignMaster option" where
  "note_announce ds sFrom nInterface now f0 = do {
     c0 \<leftarrow> rd (aAnnounceCount f0) 0;
     c1 \<leftarrow> rd (aAnnounceCount f0) 1;
     let f1 = (if c0 + c1 = 0 then f0\<lparr>firstSeen := now\<rparr> else f0);
     c \<leftarrow> rd (aAnnounceCount f1) nInterface;
     counts \<leftarrow> wr (aAnnounceCount f1) nInterface (c + 1);
     dss \<leftarrow> wr (aDataset f1) nInterface ds;
     let f2 = f1\<lparr>aAnnounceCount := counts, aDataset := dss, lastSeen := now\<rparr>;
     Some (if nInterface = 0 then
             f2\<lparr>fm_dataset := ds, nAnnounceCount := nAnnounceCount f2 + 1, sAddress := sFrom\<rparr>
           else if nAnnounceCount f2 = 0 then f2\<lparr>fm_dataset := ds, sAddress := sFrom\<rparr>
           else f2) }"

definition HandleAnnounce :: "bytes \<Rightarrow> string \<Rightarrow> nat \<Rightarrow> int \<Rightarrow> PtpClient \<Rightarrow> PtpClient option" where
  "HandleAnnounce p sFrom nInterface now s =
     (if length p < 64 then Some s
      else do {
        ds \<leftarrow> parse_announce p;
        let foreign = (case map_of (m_mForeign s) (ds_source ds) of None \<Rightarrow> default_foreign | Some f \<Rightarrow> f);
        foreign' \<leftarrow> note_announce ds sFrom nInterface now foreign;
        Some (RunBmca (s\<lparr>m_mForeign := omap_put (ds_source ds) foreign' (m_mForeign s)\<rparr>)) })"

definition HandleSync :: "bytes \<Rightarrow> u64 \<Rightarrow> u64 \<Rightarrow> int \<Rightarrow> PtpClient \<Rightarrow> PtpClient option" where
  "HandleSync p nRxNs rt now s =
     (if length p < 44 then Some s
      else case m_selectedMaster s of None \<Rightarrow> Some s
      | Some m \<Rightarrow> do {
          cid \<leftarrow> rd_bytes p 20 8;
          if cid \<noteq> clockIdentity m then Some s
          else do {
            nFlags \<leftarrow> Get16 p 6;
            seq \<leftarrow> Get16 p 30;
            let s1 = s\<lparr>m_lastSyncSeen := now, m_nSyncSeq := seq, m_nSyncRxNs := nRxNs\<rparr>;
            if nFlags AND 0x0200 \<noteq> 0 then Some (s1\<lparr>m_bAwaitFollowUp := True\<rparr>)
            else do { t1 \<leftarrow> GetTimestampNs p 34; Some (CompleteMeasurement rt t1 nRxNs s1) } } })"

definition HandleFollowUp :: "bytes \<Rightarrow> u64 \<Rightarrow> PtpClient \<Rightarrow> PtpClient option" where
  "HandleFollowUp p rt s =
     (if length p < 44 then Some s
      else case m_selectedMaster s of None \<Rightarrow> Some s
      | Some m \<Rightarrow>
          if \<not> m_bAwaitFollowUp s then Some s
          else do {
            cid \<leftarrow> rd_bytes p 20 8;
            if cid \<noteq> clockIdentity m then Some s
            else do {
              seq \<leftarrow> Get16 p 30;
              if seq \<noteq> m_nSyncSeq s then Some s
              else do {
                t1 \<leftarrow> GetTimestampNs p 34;
                Some (CompleteMeasurement rt t1 (m_nSyncRxNs s) (s\<lparr>m_bAwaitFollowUp := False\<rparr>)) } } })"

definition HandleDelayResp :: "bytes \<Rightarrow> PtpClient \<Rightarrow> PtpClient option" where
  "HandleDelayResp p s =
     (if length p < 54 then Some s
      else do {
        req \<leftarrow> rd_bytes p 44 8;
        if req \<noteq> m_ownIdentity s then Some s
        else do {
          seq \<leftarrow> Get16 p 30;
          if seq \<noteq> m_nDelaySeq s then Some s
          else do {
            nT4 \<leftarrow> GetTimestampNs p 34;
            let dS2M = rnd64 (of_int (sint (nT4 - m_nDelayReqTxNs s)));
            let dDelay = rnd64 (dS2M - m_dSmoothedOffsetNs s);
            Some (if 0 \<le> dDelay \<and> dDelay < 100000000 then
                    s\<lparr>m_dMeanPathDelayNs := (if m_bHaveDelay s then low_pass (m_dMeanPathDelayNs s) dDelay
                                             else dDelay),
                      m_bHaveDelay := True\<rparr>
                  else s) } } })"

definition HandleMessage ::
  "bytes \<Rightarrow> u64 \<Rightarrow> string \<Rightarrow> nat \<Rightarrow> u64 \<Rightarrow> int \<Rightarrow> PtpClient \<Rightarrow> PtpClient option" where
  "HandleMessage p nRxNs sFrom nInterface rt now s = do {
     b0 \<leftarrow> rd p 0;
     b1 \<leftarrow> rd p 1;
     nDomain \<leftarrow> rd p 4;
     let nType = b0 AND 0x0f;
     let nVersion = b1 AND 0x0f;
     if nVersion \<noteq> 2 \<or> uint nDomain \<noteq> m_nDomain s then Some s
     else do {
       cid \<leftarrow> rd_bytes p 20 8;
       if cid = m_ownIdentity s then Some s
       else if nType = ANNOUNCE then HandleAnnounce p sFrom nInterface now s
       else if nInterface \<noteq> 0 then Some s
       else if nType = SYNC then HandleSync p nRxNs rt now s
       else if nType = FOLLOW_UP then HandleFollowUp p rt s
       else if nType = DELAY_RESP then HandleDelayResp p s
       else Some s } }"

section \<open>Delay requests and the timer\<close>

text \<open>
  The request as sent: \<^verbatim>\<open>buffer\<close> starts zeroed, and only the assignments of the source set bytes.
\<close>

definition SendDelayReq :: "u64 \<Rightarrow> PtpClient \<Rightarrow> bytes \<times> PtpClient" where
  "SendDelayReq rt s =
     (let s1 = s\<lparr>m_nDelaySeq := m_nDelaySeq s + 1, m_nDelayReqTxNs := rt\<rparr>;
          b0 = (replicate 44 0)[0 := DELAY_REQ, 1 := 2, 2 := 0, 3 := 44, 4 := word_of_int (m_nDomain s)];
          b1 = take 20 b0 @ m_ownIdentity s @ drop 28 b0;
          b2 = b1[28 := 0, 29 := 1, 30 := hi8 (m_nDelaySeq s1), 31 := lo8 (m_nDelaySeq s1), 32 := 0x7f]
      in (b2, s1))"

text \<open>
  Ageing out: the iterator visits the keys in order; a master not heard for more than 6 s is
  erased and the selection is run again before the next one is looked at.
\<close>

fun age_out :: "int \<Rightarrow> PortIdentity list \<Rightarrow> PtpClient \<Rightarrow> PtpClient" where
  "age_out now [] s = s"
| "age_out now (k # ks) s =
     (case map_of (m_mForeign s) k of
        None \<Rightarrow> age_out now ks s
      | Some f \<Rightarrow>
          if 6000000000 < now - lastSeen f
          then age_out now ks (RunBmca (s\<lparr>m_mForeign := omap_del k (m_mForeign s)\<rparr>))
          else age_out now ks s)"

text \<open>One round of \<^verbatim>\<open>TimerLoop\<close> under the lock, and whether a delay request follows it.\<close>

definition TimerTick :: "nat \<Rightarrow> int \<Rightarrow> PtpClient \<Rightarrow> bool \<times> PtpClient" where
  "TimerTick nTick now s =
     (let s1 = age_out now (map fst (m_mForeign s)) s;
          s2 = (if m_bSynced s1 \<and> 5000000000 < now - m_lastSyncSeen s1
                then s1\<lparr>m_bSynced := False, m_qOffsetWindow := []\<rparr> else s1)
      in (m_selectedMaster s2 \<noteq> None \<and> nTick mod 4 = 0, s2))"

section \<open>Every access is in range, and the invariant is kept\<close>

lemma Get16_in_range [rd_simps]: "i + 1 < length p \<Longrightarrow> Get16 p i = Some (be16 (p ! i) (p ! (i + 1)))"
  by (simp add: Get16_def rd_simps)

lemma Get48_in_range [rd_simps]:
  "i + 6 \<le> length p \<Longrightarrow> Get48 p i = Some (foldl (\<lambda>n x. push_bit 8 n OR ucast x) 0 (take 6 (drop i p)))"
  by (simp add: Get48_def rd_simps)

lemma Get32_in_range [rd_simps]:
  "i + 3 < length p \<Longrightarrow> Get32 p i = Some (be32 (p ! i) (p ! (i + 1)) (p ! (i + 2)) (p ! (i + 3)))"
  by (simp add: Get32_def rd_simps)

lemma GetTimestampNs_in_range:
  "i + 10 \<le> length p \<Longrightarrow> \<exists>t. GetTimestampNs p i = Some t"
  by (simp add: GetTimestampNs_def rd_simps)

lemma parse_announce_in_range:
  assumes "64 \<le> length p"
  obtains ds where "parse_announce p = Some ds" "length (clockIdentity (ds_source ds)) = 8"
    "length (grandmasterIdentity ds) = 8"
  using assms by (auto simp: parse_announce_def rd_simps)

lemma note_announce_in_range:
  assumes "f = default_foreign \<or> fm_ok (ds_source ds) f" "nInterface < 2"
    and "length (clockIdentity (ds_source ds)) = 8" "length (grandmasterIdentity ds) = 8"
  obtains f' where "note_announce ds sFrom nInterface now f = Some f'" "fm_ok (ds_source ds) f'"
proof -
  have len: "length (aAnnounceCount f) = 2" "length (aDataset f) = 2"
    using assms(1) by (auto simp: fm_ok_def default_foreign_def)
  have "\<exists>f'. note_announce ds sFrom nInterface now f = Some f' \<and> fm_ok (ds_source ds) f'"
    using assms len by (cases "nInterface = 0")
      (auto simp: note_announce_def rd_simps Let_def fm_ok_def default_foreign_def)
  with that show ?thesis by blast
qed

lemma HandleAnnounce_inv:
  assumes "ptp_inv s" "nInterface < 2"
  shows "\<exists>s'. HandleAnnounce p sFrom nInterface now s = Some s' \<and> ptp_inv s'"
proof (cases "length p < 64")
  case True
  with assms show ?thesis by (simp add: HandleAnnounce_def)
next
  case False
  then obtain ds where ds: "parse_announce p = Some ds" "length (clockIdentity (ds_source ds)) = 8"
    "length (grandmasterIdentity ds) = 8"
    using parse_announce_in_range [of p] by force
  define f where "f = (case map_of (m_mForeign s) (ds_source ds) of None \<Rightarrow> default_foreign | Some f \<Rightarrow> f)"
  have tab: "table_ok (m_mForeign s)" using assms(1) by (simp add: ptp_inv_def)
  then have "f = default_foreign \<or> fm_ok (ds_source ds) f"
    by (auto simp: f_def table_ok_get split: option.splits)
  then obtain f' where f': "note_announce ds sFrom nInterface now f = Some f'" "fm_ok (ds_source ds) f'"
    using note_announce_in_range assms(2) ds(2,3) by blast
  let ?s = "s\<lparr>m_mForeign := omap_put (ds_source ds) f' (m_mForeign s)\<rparr>"
  have "HandleAnnounce p sFrom nInterface now s = Some (RunBmca ?s)"
    using False ds(1) f'(1) by (simp add: HandleAnnounce_def f_def Let_def)
  moreover have "ptp_inv (RunBmca ?s)"
    using assms(1) table_ok_put [OF tab f'(2)]
    by (intro RunBmca_inv) (simp_all add: ptp_inv_def servo_inv_def selection_inv_def)
  ultimately show ?thesis by blast
qed

lemma ptp_inv_sync_fields [simp]:
  "ptp_inv (s\<lparr>m_lastSyncSeen := a, m_nSyncSeq := b, m_nSyncRxNs := c\<rparr>) = ptp_inv s"
  "ptp_inv (s\<lparr>m_bAwaitFollowUp := d\<rparr>) = ptp_inv s"
  "ptp_inv (s\<lparr>m_nDelaySeq := b, m_nDelayReqTxNs := c\<rparr>) = ptp_inv s"
  by (simp_all add: ptp_inv_def servo_inv_def selection_inv_def)

lemma HandleSync_inv:
  assumes "ptp_inv s"
  shows "\<exists>s'. HandleSync p nRxNs rt now s = Some s' \<and> ptp_inv s'"
proof (cases "length p < 44 \<or> m_selectedMaster s = None")
  case True
  with assms show ?thesis by (auto simp: HandleSync_def)
next
  case False
  then obtain t where t: "GetTimestampNs p 34 = Some t" using GetTimestampNs_in_range [of 34 p] by auto
  with assms False show ?thesis
    by (auto simp: HandleSync_def rd_simps Let_def intro!: CompleteMeasurement_inv)
qed

lemma HandleFollowUp_inv:
  assumes "ptp_inv s"
  shows "\<exists>s'. HandleFollowUp p rt s = Some s' \<and> ptp_inv s'"
proof (cases "length p < 44 \<or> m_selectedMaster s = None")
  case True
  with assms show ?thesis by (auto simp: HandleFollowUp_def)
next
  case False
  then obtain t where t: "GetTimestampNs p 34 = Some t" using GetTimestampNs_in_range [of 34 p] by auto
  with assms False show ?thesis
    by (auto simp: HandleFollowUp_def rd_simps Let_def intro!: CompleteMeasurement_inv)
qed

lemma low_pass_delay_bound:
  assumes "0 \<le> a" "a \<le> 100000000" "0 \<le> b" "b \<le> 100000000"
  shows "0 \<le> low_pass a b" "low_pass a b \<le> 100000000"
proof -
  have "low_pass 0 0 = 0" "low_pass 100000000 100000000 = 100000000" by code_simp+
  then show "0 \<le> low_pass a b" "low_pass a b \<le> 100000000"
    using low_pass_mono [of 0 a 0 b] low_pass_mono [of a 100000000 b 100000000] assms by simp_all
qed

lemma HandleDelayResp_inv:
  assumes "ptp_inv s"
  shows "\<exists>s'. HandleDelayResp p s = Some s' \<and> ptp_inv s'"
proof (cases "length p < 54")
  case True
  with assms show ?thesis by (simp add: HandleDelayResp_def)
next
  case False
  then obtain t where t: "GetTimestampNs p 34 = Some t" using GetTimestampNs_in_range [of 34 p] by auto
  have upd: "ptp_inv (s\<lparr>m_dMeanPathDelayNs := d, m_bHaveDelay := True\<rparr>)"
    if "0 \<le> d" "d \<le> 100000000" for d
    using assms that by (simp add: ptp_inv_def servo_inv_def selection_inv_def)
  have "0 \<le> m_dMeanPathDelayNs s" "m_dMeanPathDelayNs s \<le> 100000000"
    using assms by (simp_all add: ptp_inv_def servo_inv_def)
  then show ?thesis
    using False t assms
    by (auto simp: HandleDelayResp_def rd_simps Let_def intro!: upd low_pass_delay_bound)
qed

lemma HandleMessage_inv:
  assumes "34 \<le> length p" "nInterface < 2" "ptp_inv s"
  shows "\<exists>s'. HandleMessage p nRxNs sFrom nInterface rt now s = Some s' \<and> ptp_inv s'"
proof -
  have "p \<noteq> []" using assms(1) by auto
  with assms HandleAnnounce_inv [of s nInterface p sFrom now] HandleSync_inv [of s p nRxNs rt now]
    HandleFollowUp_inv [of s p rt] HandleDelayResp_inv [of s p]
  show ?thesis by (simp add: HandleMessage_def rd_simps Let_def)
qed

lemma age_out_inv: "ptp_inv s \<Longrightarrow> ptp_inv (age_out now ks s)"
proof (induction now ks s rule: age_out.induct)
  case (2 now k ks s)
  have "ptp_inv (RunBmca (s\<lparr>m_mForeign := omap_del k (m_mForeign s)\<rparr>))"
    using "2.prems" by (intro RunBmca_inv) (auto simp: ptp_inv_def servo_inv_def selection_inv_def table_ok_del)
  with "2" show ?case by (auto split: option.splits)
qed simp

lemma unsync_inv: "ptp_inv s \<Longrightarrow> ptp_inv (s\<lparr>m_bSynced := False, m_qOffsetWindow := []\<rparr>)"
  by (simp add: ptp_inv_def servo_inv_def selection_inv_def)

lemma TimerTick_inv: "ptp_inv s \<Longrightarrow> ptp_inv (snd (TimerTick nTick now s))"
  by (simp add: TimerTick_def Let_def age_out_inv unsync_inv)

section \<open>The client as a state machine\<close>

text \<open>
  Datagrams reach \<^verbatim>\<open>HandleMessage\<close> with at least 34 and at most 512 bytes and with the index of one
  of the two interfaces; the timer thread ticks and sends delay requests, possibly after another
  thread has run in between; the web thread may change the domain.
\<close>

inductive ptp_step :: "PtpClient \<Rightarrow> PtpClient \<Rightarrow> bool" where
  datagram: "34 \<le> length p \<Longrightarrow> length p \<le> 512 \<Longrightarrow> nIf < 2 \<Longrightarrow>
     HandleMessage p nRxNs sFrom nIf rt now s = Some s' \<Longrightarrow> ptp_step s s'"
| timer: "ptp_step s (snd (TimerTick nTick now s))"
| delay_req: "ptp_step s (snd (SendDelayReq rt s))"
| domain: "ptp_step s (SetDomain nDomain s)"

inductive ptp_reachable :: "PtpClient \<Rightarrow> bool" where
  start: "ptp_reachable (init_client ifs nDomain own)"
| step: "ptp_reachable s \<Longrightarrow> ptp_step s s' \<Longrightarrow> ptp_reachable s'"

lemma SendDelayReq_inv: "ptp_inv s \<Longrightarrow> ptp_inv (snd (SendDelayReq rt s))"
  by (simp add: SendDelayReq_def Let_def)

lemma ptp_step_inv: "ptp_step s s' \<Longrightarrow> ptp_inv s \<Longrightarrow> ptp_inv s'"
proof (induction rule: ptp_step.induct)
  case (datagram p nIf nRxNs sFrom rt now s s')
  then show ?case using HandleMessage_inv [of p nIf s nRxNs sFrom rt now] by simp
qed (auto intro: TimerTick_inv SendDelayReq_inv SetDomain_inv)

lemma ptp_reachable_inv: "ptp_reachable s \<Longrightarrow> ptp_inv s"
  by (induction rule: ptp_reachable.induct) (auto intro: init_inv ptp_step_inv)

section \<open>Announces on the second network\<close>

text \<open>The part of the table the selection looks at.\<close>

definition candidates :: "(PortIdentity, ForeignMaster) omap \<Rightarrow> (PortIdentity \<times> AnnounceDataset) list" where
  "candidates m = map (\<lambda>(k, f). (k, fm_dataset f)) (filter (\<lambda>x. 2 \<le> nAnnounceCount (snd x)) m)"

lemma choice_by_candidates:
  "map_option fst (best_master m)
   = map_option fst (scan_best (\<lambda>x b. beats (snd x) (snd b)) (candidates m))"
proof -
  have "scan_best (\<lambda>x b. beats (snd x) (snd b)) (candidates m)
      = map_option (\<lambda>(k, f). (k, fm_dataset f)) (best_master m)"
    unfolding candidates_def best_master_def by (rule scan_best_map) (simp add: case_prod_unfold)
  then show ?thesis by (simp add: option.map_comp comp_def case_prod_unfold)
qed

lemma candidates_put:
  assumes "omap_ok m"
    and "case map_of m k of None \<Rightarrow> nAnnounceCount f' < 2
         | Some f \<Rightarrow> nAnnounceCount f' = nAnnounceCount f \<and> (2 \<le> nAnnounceCount f \<longrightarrow> fm_dataset f' = fm_dataset f)"
  shows "candidates (omap_put k f' m) = candidates m"
  using assms
proof (induction k f' m rule: omap_put.induct)
  case (2 k v k' v' m)
  have "map_of m k = None" if "k < k'"
    using "2.prems"(1) that by (auto simp: omap_ok_def map_of_eq_None_iff)
  with "2" show ?case
    by (auto simp: candidates_def omap_ok_def split: if_splits)
qed (simp add: candidates_def)

lemma note_announce_secondary:
  "note_announce ds sFrom 1 now f = Some f' \<Longrightarrow>
   nAnnounceCount f' = nAnnounceCount f \<and> (nAnnounceCount f \<noteq> 0 \<longrightarrow> fm_dataset f' = fm_dataset f)"
  by (auto simp: note_announce_def Let_def wr_def bind_eq_Some_conv split: if_splits)

lemma HandleAnnounce_secondary:
  assumes "ptp_inv s" "HandleAnnounce p sFrom 1 now s = Some s'"
  shows "\<exists>m. s' = s\<lparr>m_mForeign := m\<rparr>"
proof (cases "length p < 64")
  case True
  with assms show ?thesis by (intro exI [of _ "m_mForeign s"]) (simp add: HandleAnnounce_def)
next
  case False
  then obtain ds f' where f': "note_announce ds sFrom 1 now
        (case map_of (m_mForeign s) (ds_source ds) of None \<Rightarrow> default_foreign | Some f \<Rightarrow> f) = Some f'"
    and s': "s' = RunBmca (s\<lparr>m_mForeign := omap_put (ds_source ds) f' (m_mForeign s)\<rparr>)"
    using assms(2) by (auto simp: HandleAnnounce_def bind_eq_Some_conv Let_def)
  have "candidates (omap_put (ds_source ds) f' (m_mForeign s)) = candidates (m_mForeign s)"
  proof (rule candidates_put)
    show "omap_ok (m_mForeign s)" using assms(1) by (simp add: ptp_inv_def table_ok_def)
    show "case map_of (m_mForeign s) (ds_source ds) of None \<Rightarrow> nAnnounceCount f' < 2
         | Some f \<Rightarrow> nAnnounceCount f' = nAnnounceCount f \<and> (2 \<le> nAnnounceCount f \<longrightarrow> fm_dataset f' = fm_dataset f)"
      using note_announce_secondary [OF f']
      by (auto simp: default_foreign_def split: option.splits)
  qed
  then have "map_option fst (best_master (omap_put (ds_source ds) f' (m_mForeign s))) = m_selectedMaster s"
    using assms(1) choice_by_candidates by (metis ptp_inv_def selection_inv_def)
  then show ?thesis unfolding s' by (subst RunBmca_stable) auto
qed

section \<open>Properties\<close>



text \<open>
  Datagrams for the concrete runs below: the header and the body of an Announce, Sync or
  Follow-Up message from a clock of eight equal bytes.
\<close>

definition demo_msg :: "u8 \<Rightarrow> u8 \<Rightarrow> u8 \<Rightarrow> u8 \<Rightarrow> bytes" where
  "demo_msg ty flags clock p1 = [ty, 2, 0, 64, 0, 0, flags, 0] @ replicate 12 0 @ replicate 8 clock
     @ [0, 1, 0, 7, 0, 0] @ replicate 10 0 @ [0, 37, 0, p1, 6, 0x21, 0x4e, 0x5d, 128]
     @ replicate 8 clock @ [0, 0, 0x20]"

definition demo_start :: PtpClient where
  "demo_start = init_client [''eth0'', ''eth1''] 0 (replicate 8 9)"

fun demo_run :: "bytes list \<Rightarrow> PtpClient \<Rightarrow> PtpClient option" where
  "demo_run [] s = Some s"
| "demo_run (p # ps) s = (case HandleMessage p 1000 ''10.0.0.1'' 0 1000 0 s of None \<Rightarrow> None | Some s' \<Rightarrow> demo_run ps s')"

lemma demo_run_reachable:
  "demo_run ps s = Some s' \<Longrightarrow> ptp_reachable s \<Longrightarrow> \<forall>p \<in> set ps. length p \<in> {34..512} \<Longrightarrow> ptp_reachable s'"
proof (induction ps s rule: demo_run.induct)
  case (2 p ps s)
  then obtain s1 where s1: "HandleMessage p 1000 ''10.0.0.1'' 0 1000 0 s = Some s1" "demo_run ps s1 = Some s'"
    by (auto split: option.splits)
  have "ptp_step s s1" using "2.prems"(3) s1(1) by (intro ptp_step.datagram [of p 0]) auto
  with "2.prems"(2) have "ptp_reachable s1" by (rule ptp_reachable.step)
  with "2.IH" s1 "2.prems"(3) show ?case by simp
qed simp

text \<open>Two masters; the one with the better priority becomes qualified.\<close>

definition demo_announces :: "bytes list" where
  "demo_announces = [demo_msg ANNOUNCE 0 1 128, demo_msg ANNOUNCE 0 1 128, demo_msg ANNOUNCE 0 2 127,
     demo_msg ANNOUNCE 0 2 127]"

definition demo_master :: PortIdentity where
  "demo_master = PortIdentity (replicate 8 2) 1"

lemma demo_announces_run:
  obtains s where "demo_run demo_announces demo_start = Some s" "ptp_reachable s"
    "m_selectedMaster s = Some demo_master"
proof -
  have "map_option m_selectedMaster (demo_run demo_announces demo_start) = Some (Some demo_master)"
    by code_simp
  then obtain s where s: "demo_run demo_announces demo_start = Some s" "m_selectedMaster s = Some demo_master"
    by auto
  moreover have "ptp_reachable s"
    by (rule demo_run_reachable [OF s(1)])
      (simp_all add: demo_start_def ptp_reachable.start demo_announces_def demo_msg_def)
  ultimately show ?thesis using that by blast
qed

text \<open>
  In every reachable state the selected master is what the best master scan over the current
  table yields: it is a qualified entry of the table, exactly its entry carries the
  \<^verbatim>\<open>bSelected\<close> mark, there is none exactly when no entry is qualified, and the clock is reported
  as synchronised only while a master is selected.
\<close>

theorem selected_master_current:
  assumes "ptp_reachable s"
  shows "(m_selectedMaster s = None \<longleftrightarrow> (\<forall>(k, f) \<in> set (m_mForeign s). nAnnounceCount f < 2))
    \<and> (\<forall>k. m_selectedMaster s = Some k \<longrightarrow> (\<exists>f. map_of (m_mForeign s) k = Some f \<and> 2 \<le> nAnnounceCount f))
    \<and> (\<forall>(k, f) \<in> set (m_mForeign s). bSelected f \<longleftrightarrow> m_selectedMaster s = Some k)
    \<and> (m_bSynced s \<longrightarrow> m_selectedMaster s \<noteq> None)"
proof -
  have inv: "ptp_inv s" using assms by (rule ptp_reachable_inv)
  then have sel: "m_selectedMaster s = map_option fst (best_master (m_mForeign s))"
    and ok: "omap_ok (m_mForeign s)"
    by (simp_all add: ptp_inv_def selection_inv_def table_ok_def)
  have "m_selectedMaster s = None \<longleftrightarrow> filter (\<lambda>x. 2 \<le> nAnnounceCount (snd x)) (m_mForeign s) = []"
    unfolding sel by (simp add: best_master_def)
  then have "m_selectedMaster s = None \<longleftrightarrow> (\<forall>(k, f) \<in> set (m_mForeign s). nAnnounceCount f < 2)"
    by (auto simp: filter_empty_conv not_le)
  moreover have "\<exists>f. map_of (m_mForeign s) k = Some f \<and> 2 \<le> nAnnounceCount f"
    if "m_selectedMaster s = Some k" for k
    using that best_master_mem [of "m_mForeign s" k] cmap.get_iff [OF ok, of k] by (auto simp: sel)
  ultimately show ?thesis using inv by (simp add: ptp_inv_def selection_inv_def)
qed

theorem selected_master_current_witness:
  "\<exists>s f. demo_run demo_announces demo_start = Some s \<and> m_selectedMaster s = Some demo_master
     \<and> map_of (m_mForeign s) demo_master = Some f \<and> 2 \<le> nAnnounceCount f"
proof -
  obtain s where s: "demo_run demo_announces demo_start = Some s" "ptp_reachable s"
    "m_selectedMaster s = Some demo_master"
    by (rule demo_announces_run)
  with selected_master_current [OF s(2)] show ?thesis by blast
qed



text \<open>
  The second network is monitored only: a message that arrives on the secondary interface
  changes nothing but the table of announce sources.  The selected master, the servo, the
  measurement in progress and the reported time are those of the primary network.
\<close>

theorem secondary_interface_monitors_only:
  assumes "ptp_reachable s" "34 \<le> length p"
    and "HandleMessage p nRxNs sFrom 1 rt now s = Some s'"
  shows "\<exists>m. s' = s\<lparr>m_mForeign := m\<rparr>"
proof -
  have inv: "ptp_inv s" using assms(1) by (rule ptp_reachable_inv)
  have same: "\<exists>m. s = s\<lparr>m_mForeign := m\<rparr>" by (rule exI [of _ "m_mForeign s"]) simp
  have "s' = s \<or> HandleAnnounce p sFrom 1 now s = Some s'"
    using assms(3) by (auto simp: HandleMessage_def Let_def bind_eq_Some_conv split: if_splits)
  with same show ?thesis using HandleAnnounce_secondary [OF inv] by blast
qed

theorem secondary_interface_monitors_only_witness:
  "\<exists>s' m. HandleMessage (demo_msg ANNOUNCE 0 1 128) 0 ''10.0.1.1'' 1 0 0 demo_start = Some s'
     \<and> s' = demo_start\<lparr>m_mForeign := m\<rparr> \<and> m \<noteq> []"
proof -
  have r: "ptp_reachable demo_start" by (simp add: demo_start_def ptp_reachable.start)
  have l: "34 \<le> length (demo_msg ANNOUNCE 0 1 128)" by (simp add: demo_msg_def)
  have "map_option (\<lambda>s. m_mForeign s \<noteq> [])
      (HandleMessage (demo_msg ANNOUNCE 0 1 128) 0 ''10.0.1.1'' 1 0 0 demo_start) = Some True"
    by code_simp
  then obtain s' where s': "HandleMessage (demo_msg ANNOUNCE 0 1 128) 0 ''10.0.1.1'' 1 0 0 demo_start = Some s'"
    "m_mForeign s' \<noteq> []" by auto
  with secondary_interface_monitors_only [OF r l s'(1)] show ?thesis by auto
qed



text \<open>
  The system-clock deadline computed from a PTP time is the inverse of the PTP clock: at any
  reading of the system clock, the current PTP time of a synchronised client maps back to that
  reading, for every mapping and with the 64-bit wrap-around of the code.
\<close>

theorem PtpToRealtime_inverse:
  assumes "m_bSynced s"
  shows "PtpToRealtimeNs (PtpTimeNs rt s) s = rt"
  using assms by (simp add: PtpToRealtimeNs_def PtpTimeNs_def)

theorem PtpToRealtime_inverse_witness:
  "PtpToRealtimeNs (PtpTimeNs 18446744073709551615 (demo_start\<lparr>m_bSynced := True, m_nMappingNs := 37000000000\<rparr>))
     (demo_start\<lparr>m_bSynced := True, m_nMappingNs := 37000000000\<rparr>) = 18446744073709551615"
  by (rule PtpToRealtime_inverse) simp

text \<open>
  The delay request on the wire: 44 bytes with the message type, the version, the length, the
  domain, the own identity and port 1, and the sequence number the response is matched with.
  The marker value 0x7f is written to byte 32, the control field of the PTP header; byte 33,
  the log message interval the source's comment names, stays 0.
\<close>

theorem SendDelayReq_format:
  assumes "length (m_ownIdentity s) = 8"
  shows "length (fst (SendDelayReq rt s)) = 44
    \<and> take 6 (fst (SendDelayReq rt s)) = [DELAY_REQ, 2, 0, 44, word_of_int (m_nDomain s), 0]
    \<and> rd_bytes (fst (SendDelayReq rt s)) 20 8 = Some (m_ownIdentity s)
    \<and> Get16 (fst (SendDelayReq rt s)) 28 = Some 1
    \<and> Get16 (fst (SendDelayReq rt s)) 30 = Some (m_nDelaySeq (snd (SendDelayReq rt s)))
    \<and> m_nDelaySeq (snd (SendDelayReq rt s)) = m_nDelaySeq s + 1
    \<and> rd (fst (SendDelayReq rt s)) 32 = Some 0x7f \<and> rd (fst (SendDelayReq rt s)) 33 = Some 0"
proof -
  obtain a b c d e f g h where own: "m_ownIdentity s = [a, b, c, d, e, f, g, h]"
    using assms by (auto simp: length_Suc_conv eval_nat_numeral)
  have msg: "fst (SendDelayReq rt s)
    = [DELAY_REQ, 2, 0, 44, word_of_int (m_nDomain s)] @ replicate 15 0 @ m_ownIdentity s
      @ [0, 1, hi8 (m_nDelaySeq s + 1), lo8 (m_nDelaySeq s + 1), 0x7f] @ replicate 11 0"
    unfolding SendDelayReq_def own by (simp add: Let_def eval_nat_numeral)
  have seq: "m_nDelaySeq (snd (SendDelayReq rt s)) = m_nDelaySeq s + 1"
    by (simp add: SendDelayReq_def Let_def)
  have port: "be16 0 1 = 1" by code_simp
  show ?thesis
    unfolding msg seq Get16_def
    by (simp add: own rd_def rd_bytes_def nth_append be16_split port eval_nat_numeral)
qed

theorem SendDelayReq_format_witness:
  "Get16 (fst (SendDelayReq 0 demo_start)) 30 = Some 1 \<and> rd (fst (SendDelayReq 0 demo_start)) 33 = Some 0"
proof -
  have len: "length (m_ownIdentity demo_start) = 8" by (simp add: demo_start_def init_client_def)
  have "m_nDelaySeq demo_start = 0" by (simp add: demo_start_def init_client_def)
  with SendDelayReq_format [OF len, of 0] show ?thesis by simp
qed

section \<open>Ageing\<close>

definition heard :: "(PortIdentity, ForeignMaster) omap \<Rightarrow> (PortIdentity \<times> int) list" where
  "heard m = map (\<lambda>(k, f). (k, lastSeen f)) m"

lemma heard_RunBmca [simp]: "heard (m_mForeign (RunBmca s)) = heard (m_mForeign s)"
  by (simp add: heard_def RunBmca_foreign case_prod_unfold)

lemma heard_del: "heard (omap_del k m) = filter (\<lambda>(k', t). k' \<noteq> k) (heard m)"
  by (induction m) (auto simp: heard_def omap_del_def)

lemma heard_get: "map_of (heard m) k = map_option lastSeen (map_of m k)"
  by (induction m) (auto simp: heard_def)

lemma omap_ok_heard: "omap_ok (heard m) = omap_ok m"
  by (simp add: omap_ok_def heard_def case_prod_unfold comp_def)

lemma age_out_heard:
  "omap_ok (m_mForeign s) \<Longrightarrow> heard (m_mForeign (age_out now ks s))
     = filter (\<lambda>(k, t). k \<in> set ks \<longrightarrow> now - t \<le> 6000000000) (heard (m_mForeign s))"
proof (induction now ks s rule: age_out.induct)
  case (1 now s)
  then show ?case by simp
next
  case (2 now k ks s)
  let ?h = "heard (m_mForeign s)"
  have uniq: "t' = t" if "(k, t) \<in> set ?h" "(k, t') \<in> set ?h" for t t'
    using that "2.prems" cmap.get_iff [of ?h k] by (simp add: omap_ok_heard) (metis option.inject)
  show ?case
  proof (cases "map_of (m_mForeign s) k")
    case None
    then have "(k, t) \<notin> set ?h" for t
      using "2.prems" cmap.get_iff [of ?h k t] by (simp add: omap_ok_heard heard_get)
    with None "2" show ?thesis by (auto intro!: filter_cong)
  next
    case (Some f)
    then have mem: "(k, lastSeen f) \<in> set ?h" by (simp add: heard_get map_of_SomeD)
    show ?thesis
    proof (cases "6000000000 < now - lastSeen f")
      case True
      have "omap_ok (m_mForeign (RunBmca (s\<lparr>m_mForeign := omap_del k (m_mForeign s)\<rparr>)))"
        using "2.prems" by (simp add: RunBmca_foreign)
      from "2.IH"(2) [OF Some True this] Some True uniq [OF mem] show ?thesis
        by (auto simp: heard_del intro!: filter_cong)
    next
      case False
      with Some "2.IH"(3) [OF Some False] "2.prems" uniq [OF mem] show ?thesis
        by (auto intro!: filter_cong)
    qed
  qed
qed

text \<open>
  A timer tick removes exactly the masters whose last announce is older than six seconds,
  keeps all others in order, and leaves the client synchronised only if a master is selected
  and its last Sync is at most five seconds old; a delay request follows only on every fourth
  tick and only towards a selected master.
\<close>

theorem TimerTick_expiry:
  assumes "ptp_reachable s"
  shows "map fst (m_mForeign (snd (TimerTick nTick now s)))
      = map fst (filter (\<lambda>(k, f). now - lastSeen f \<le> 6000000000) (m_mForeign s))
    \<and> (m_bSynced (snd (TimerTick nTick now s)) \<longrightarrow>
         m_selectedMaster (snd (TimerTick nTick now s)) \<noteq> None
         \<and> now - m_lastSyncSeen (snd (TimerTick nTick now s)) \<le> 5000000000)
    \<and> (fst (TimerTick nTick now s) \<longleftrightarrow>
         m_selectedMaster (snd (TimerTick nTick now s)) \<noteq> None \<and> nTick mod 4 = 0)"
proof -
  have inv: "ptp_inv s" using assms by (rule ptp_reachable_inv)
  then have ok: "omap_ok (m_mForeign s)" by (simp add: ptp_inv_def table_ok_def)
  let ?s1 = "age_out now (map fst (m_mForeign s)) s"
  have keys: "map fst (heard m) = map fst m" for m
    by (simp add: heard_def case_prod_unfold comp_def)
  have "m_mForeign (snd (TimerTick nTick now s)) = m_mForeign ?s1"
    by (simp add: TimerTick_def Let_def)
  moreover have "heard (m_mForeign ?s1) = filter (\<lambda>(k, t). now - t \<le> 6000000000) (heard (m_mForeign s))"
    unfolding age_out_heard [OF ok] by (rule filter_cong) (force simp: heard_def)+
  moreover have "\<dots> = heard (filter (\<lambda>(k, f). now - lastSeen f \<le> 6000000000) (m_mForeign s))"
    by (simp add: heard_def filter_map comp_def case_prod_unfold)
  ultimately have "map fst (m_mForeign (snd (TimerTick nTick now s)))
      = map fst (filter (\<lambda>(k, f). now - lastSeen f \<le> 6000000000) (m_mForeign s))"
    by (metis keys)
  moreover have "ptp_inv (snd (TimerTick nTick now s))" using inv by (rule TimerTick_inv)
  ultimately show ?thesis
    by (auto simp: TimerTick_def Let_def ptp_inv_def selection_inv_def not_less)
qed

theorem TimerTick_expiry_witness:
  "\<exists>s. demo_run demo_announces demo_start = Some s
     \<and> map fst (m_mForeign (snd (TimerTick 4 6000000001 s))) = []
     \<and> \<not> fst (TimerTick 4 6000000001 s)"
proof -
  obtain s where s: "demo_run demo_announces demo_start = Some s" "ptp_reachable s"
    "m_selectedMaster s = Some demo_master"
    by (rule demo_announces_run)
  have "map_option (\<lambda>s. filter (\<lambda>(k, f). (6000000001::int) - lastSeen f \<le> 6000000000) (m_mForeign s) = [])
     (demo_run demo_announces demo_start) = Some True" by code_simp
  then have e: "filter (\<lambda>(k, f). (6000000001::int) - lastSeen f \<le> 6000000000) (m_mForeign s) = []"
    by (simp add: s(1))
  have "map fst (m_mForeign (snd (TimerTick 4 6000000001 s))) = []"
    using TimerTick_expiry [OF s(2), of 4 6000000001] unfolding e by simp
  moreover have "map_option (\<lambda>s. fst (TimerTick 4 6000000001 s)) (demo_run demo_announces demo_start) = Some False"
    by code_simp
  ultimately show ?thesis using s(1) by simp
qed

end
