(* ===== verification/Engine_Json.thy ===== *)
theory Engine_Json
  imports Ptp_Client Rtp_Sender Json
begin

text \<open>
  The JSON side of the engine: the status documents of the PTP client (\<^verbatim>\<open>src/src/ptp/ptpclient.cpp\<close>), the
  receiver (\<^verbatim>\<open>src/src/rtp/rtpreceiver.cpp\<close>) and the sender (\<^verbatim>\<open>src/src/rtp/rtpsender.cpp\<close>), the meters in decibels
  (\<^verbatim>\<open>src/src/audio/meters.h\<close>), and the source made from the configuration of the sender
  (\<^verbatim>\<open>src/src/audio/sources.cpp\<close>).  The clocks and \<^verbatim>\<open>log10\<close> are arguments.
\<close>

section \<open>Meters\<close>

definition ToDb :: "(double \<Rightarrow> double) \<Rightarrow> float32 \<Rightarrow> double" where
  "ToDb log10 f = (if rnd32 (1/1000000) < f then rnd64 (20 * log10 f) else -120)"

definition LeftDb :: "(double \<Rightarrow> double) \<Rightarrow> Meters \<Rightarrow> double" where
  "LeftDb log10 m = ToDb log10 (m_fLeft m)"

definition RightDb :: "(double \<Rightarrow> double) \<Rightarrow> Meters \<Rightarrow> double" where
  "RightDb log10 m = ToDb log10 (m_fRight m)"

definition meters_json :: "(double \<Rightarrow> double) \<Rightarrow> Meters \<Rightarrow> json" where
  "meters_json log10 m = obj [(''left_db'', JFloat (LeftDb log10 m)), (''right_db'', JFloat (RightDb log10 m))]"

section \<open>PTP client\<close>

definition net_match :: "ForeignMaster \<Rightarrow> json" where
  "net_match f =
    (if aAnnounceCount f ! 0 = 0 \<or> aAnnounceCount f ! 1 = 0 then JNull
     else JBool (nResult (CompareDatasets (aDataset f ! 0) (aDataset f ! 1)) = 0
            \<and> nUtcOffset (aDataset f ! 0) = nUtcOffset (aDataset f ! 1)))"

definition master_json :: "int \<Rightarrow> PortIdentity \<Rightarrow> ForeignMaster \<Rightarrow> json" where
  "master_json now k f =
    (let ds = fm_dataset f in obj
      [(''port_identity'', JStr (IdentityToString (clockIdentity k) @ ''-'' @ to_string (uint (Bmca.nPort k)))),
       (''address'', JStr (sAddress f)), (''grandmaster'', JStr (IdentityToString (grandmasterIdentity ds))),
       (''priority1'', JInt (uint (nPriority1 ds))), (''clock_class'', JInt (uint (nClockClass ds))),
       (''clock_accuracy'', JInt (uint (nClockAccuracy ds))), (''variance'', JInt (uint (nOffsetScaledLogVariance ds))),
       (''priority2'', JInt (uint (nPriority2 ds))), (''steps_removed'', JInt (uint (nStepsRemoved ds))),
       (''time_source'', JInt (uint (nTimeSource ds))), (''utc_offset'', JInt (nUtcOffset ds)),
       (''time_traceable'', JBool (bTimeTraceable ds)), (''freq_traceable'', JBool (bFreqTraceable ds)),
       (''announces'', JInt (uint (nAnnounceCount f))), (''seen_seconds'', JInt (cdiv (now - firstSeen f) 1000000000)),
       (''selected'', JBool (bSelected f)), (''bmca'', JStr (sBmcaInfo f)),
       (''nets'', obj [(''amber'', JInt (uint (aAnnounceCount f ! 0))), (''blue'', JInt (uint (aAnnounceCount f ! 1)))]),
       (''net_match'', net_match f)])"

text \<open>The best qualified data set of one network.\<close>

definition best_on :: "nat \<Rightarrow> (PortIdentity, ForeignMaster) omap \<Rightarrow> AnnounceDataset option" where
  "best_on nIf m = scan_best beats (map (\<lambda>x. aDataset (snd x) ! nIf) (filter (\<lambda>x. 2 \<le> aAnnounceCount (snd x) ! nIf) m))"

definition meta_json :: "(PortIdentity, ForeignMaster) omap \<Rightarrow> json" where
  "meta_json m =
    (let b0 = best_on 0 m; b1 = best_on 1 m;
         gm = (\<lambda>b. JStr (case b of None \<Rightarrow> [] | Some ds \<Rightarrow> IdentityToString (grandmasterIdentity ds)));
         (match, detail) =
           (case (b0, b1) of
              (Some x, Some y) \<Rightarrow>
                (JBool (grandmasterIdentity x = grandmasterIdentity y),
                 if nResult (CompareDatasets x y) = 0 then [] else ''differs on '' @ sDecidingField (CompareDatasets x y))
            | (Some _, None) \<Rightarrow> (JNull, ''no ptp on blue'')
            | (None, Some _) \<Rightarrow> (JNull, ''no ptp on amber'')
            | (None, None) \<Rightarrow> (JNull, ''no ptp on either net''))
     in obj [(''amber_gm'', gm b0), (''blue_gm'', gm b1), (''match'', match), (''detail'', JStr detail)])"

definition utc_offset :: "PtpClient \<Rightarrow> int" where
  "utc_offset s =
    (case m_selectedMaster s of
       None \<Rightarrow> 37
     | Some k \<Rightarrow> (case map_of (m_mForeign s) k of None \<Rightarrow> 37 | Some f \<Rightarrow> nUtcOffset (fm_dataset f)))"

definition ptp_GetStatusJson :: "u64 \<Rightarrow> int \<Rightarrow> PtpClient \<Rightarrow> json" where
  "ptp_GetStatusJson rt now s = obj (
     [(''domain'', JInt (m_nDomain s)), (''interface'', JStr (case m_vInterfaces s of [] \<Rightarrow> [] | i # _ \<Rightarrow> i)),
      (''identity'', JStr (IdentityToString (m_ownIdentity s))), (''synced'', JBool (m_bSynced s)),
      (''sync_count'', JInt (uint (m_nSyncCount s))),
      (''correction_ns'', JFloat (if m_qOffsetHistory s = [] then 0 else snd (last (m_qOffsetHistory s)))),
      (''time_ms'', JInt (if m_bSynced s then uint (PtpTimeNs rt s div 1000000) else 0)),
      (''utc_offset'', JInt (utc_offset s)),
      (''mean_path_delay_ns'', if m_bHaveDelay s then JFloat (m_dMeanPathDelayNs s) else JNull),
      (''masters'', JArr (map (\<lambda>(k, f). master_json now k f) (m_mForeign s)))]
     @ (if 1 < length (m_vInterfaces s) then [(''meta'', meta_json (m_mForeign s))] else [])
     @ [(''offset_history'', JArr (map (\<lambda>(nMs, dOffset). JArr [JInt (uint nMs), JFloat dOffset]) (m_qOffsetHistory s)))])"

section \<open>Receiver\<close>

text \<open>\<^verbatim>\<open>std::round\<close>: to the nearest integer, halves away from zero.\<close>

definition cround :: "rat \<Rightarrow> int" where
  "cround x = (if 0 \<le> x then \<lfloor>x + 1/2\<rfloor> else \<lceil>x - 1/2\<rceil>)"

definition tenths :: "float32 \<Rightarrow> json" where
  "tenths f = JFloat (rnd64 (of_int (cround (rnd32 (f * 10))) / 10))"

definition critical_ms :: "nat \<Rightarrow> double" where
  "critical_ms nFrames = rnd64 (rnd64 (rnd64 (2 * rnd64 (of_nat nFrames)) * 1000) / 48000)"

text \<open>The monitored channels as the status computes them, beside \<open>monitor_pair\<close> of the decoder.\<close>

definition monitor_json :: "RtpReceiver \<Rightarrow> json" where
  "monitor_json s =
    (let nCh = (if 0 < nChannels (m_session s) then nat (nChannels (m_session s)) else 1);
         nLeft = (if 0 \<le> m_nMonLeft s \<and> nat (m_nMonLeft s) < nCh then nat (m_nMonLeft s) else 0);
         nRight = (if 0 \<le> m_nMonRight s \<and> nat (m_nMonRight s) < nCh then nat (m_nMonRight s) else if 2 \<le> nCh then 1 else nLeft)
     in JArr [JInt (int nLeft), JInt (int nRight)])"

definition rx_leg_json :: "LegState \<Rightarrow> json" where
  "rx_leg_json leg = obj
     [(''interface'', JStr (leg_sInterface leg)), (''multicast'', JStr (leg_sMulticast leg)), (''active'', JBool (bActive leg)),
      (''received'', JInt (uint (nReceived leg))), (''lost'', JInt (uint (nLost leg)))]"

definition rx_GetStatusJson :: "(double \<Rightarrow> double) \<Rightarrow> RtpReceiver \<Rightarrow> json" where
  "rx_GetStatusJson log10 s = obj
     [(''running'', JBool (rx_bRun s)), (''receiving'', JBool (m_bReceiving s)), (''played'', JInt (uint (m_nPlayed s))),
      (''concealed'', JInt (uint (m_nConcealed s))), (''duplicates_merged'', JInt (uint (m_nDuplicates s))),
      (''from_secondary'', JInt (uint (m_nMergedFromSecondary s))), (''meters'', meters_json log10 (rx_meters s)),
      (''session_name'', JStr (sName (m_session s))), (''channels'', JInt (nChannels (m_session s))),
      (''bits'', JInt (nBitsPerSample (m_session s))), (''playout_delay_ms'', JInt (m_nPlayoutDelayMs s)),
      (''critical_ms'', JFloat (critical_ms (m_nFramesPerPacket s))), (''monitor'', monitor_json s),
      (''buffer_history'', JArr (map (\<lambda>b. JArr [tenths (fMin b), tenths (fMax b), tenths (fLast b)]) (m_qBufferHistory s))),
      (''legs'', JArr (map rx_leg_json (take (m_nLegCount s) (m_aLegs s))))]"

section \<open>Sender\<close>

text \<open>\<open>None\<close> is a read behind the array of the two enable flags.\<close>

fun tx_legs_json :: "RtpSender \<Rightarrow> nat \<Rightarrow> Leg list \<Rightarrow> json list option" where
  "tx_legs_json s nLeg [] = Some []"
| "tx_legs_json s nLeg (leg # legs) = do {
     enabled \<leftarrow> rd (m_abLegEnabled s) nLeg;
     rest \<leftarrow> tx_legs_json s (Suc nLeg) legs;
     Some (obj [(''interface'', JStr (tx_sInterface leg)), (''multicast'', JStr (tx_sMulticast leg)),
                (''port'', JInt (uint (m_nPort s))), (''enabled'', JBool enabled)] # rest)
   }"

definition tx_GetStatusJson :: "(double \<Rightarrow> double) \<Rightarrow> RtpSender \<Rightarrow> json option" where
  "tx_GetStatusJson log10 s = do {
     legs \<leftarrow> tx_legs_json s 0 (m_vLegs s);
     Some (obj
       [(''running'', JBool (tx_bRun s)), (''waiting_for_ptp'', JBool (m_bWaitingForPtp s)), (''essence_ok'', JBool (m_bEssenceOk s)),
        (''packets_sent'', JInt (uint (m_nPacketsSent s))), (''send_errors'', JInt (uint (m_nSendErrors s))),
        (''late_avg_us'', JFloat (rnd64 (rnd64 (of_int (m_nLateAvgNs s)) / 1000))),
        (''late_max_us'', JFloat (rnd64 (rnd64 (of_int (m_nLateMaxNs s)) / 1000))),
        (''meters'', meters_json log10 (tx_meters s)), (''source'', JStr (m_sSourceName s)), (''legs'', JArr legs)])
   }"

section \<open>The configured source\<close>

text \<open>
  The decoders are bundled, and a failed decoding (\<open>CreateFile\<close> gives \<open>None\<close> for behaviour without a
  definition) makes the outcome undefined.
\<close>

record codecs =
  c_pow :: "double \<Rightarrow> double \<Rightarrow> double"
  c_mp3 :: "string \<Rightarrow> (16 word list \<times> nat \<times> int) option"
  c_wav :: "string \<Rightarrow> (float32 list \<times> nat \<times> nat \<times> int) option"
  c_src :: "float32 list \<Rightarrow> double \<Rightarrow> nat \<Rightarrow> float32 list option"

definition file_path :: "string \<Rightarrow> string \<Rightarrow> string" where
  "file_path sFilesDir sFile = (if sFile \<noteq> [] \<and> CHR ''/'' \<notin> set sFile then sFilesDir @ ''/'' @ sFile else sFile)"

definition CreateFromConfig :: "codecs \<Rightarrow> json \<Rightarrow> string \<Rightarrow> Source outcome" where
  "CreateFromConfig c jsSender sFilesDir =
     bindO (jvalue get_string ''source'' ''tone'' jsSender) (\<lambda>sSource.
     bindO (jvalue get_double ''tone_level_db'' (-18) jsSender) (\<lambda>dLevel.
       let tone = bindO (jvalue get_double ''tone_hz'' 440 jsSender) (\<lambda>dHz. Val (CreateTone (c_pow c) dHz dLevel)) in
       if sSource = ''sweep'' then Val (CreateSweep (c_pow c) dLevel)
       else if sSource = ''file'' then
         bindO (jvalue get_string ''file'' [] jsSender) (\<lambda>sFile.
         bindO (jvalue get_bool ''loop'' True jsSender) (\<lambda>bLoop.
           case CreateFile (c_mp3 c) (c_wav c) (c_src c) (file_path sFilesDir sFile) bLoop of
             None \<Rightarrow> Undef
           | Some None \<Rightarrow> tone
           | Some (Some src) \<Rightarrow> Val src))
       else tone))"

section \<open>Properties\<close>

lemma monitor_json_pair:
  "monitor_json s = (let (nLeft, nRight) = monitor_pair (m_nMonLeft s) (m_nMonRight s) (channel_count (m_session s))
     in JArr [JInt (int nLeft), JInt (int nRight)])"
  by (simp add: monitor_json_def monitor_pair_def channel_count_def Let_def)

lemma distinct_key_count:
  "distinct (map fst m) \<Longrightarrow> length (filter (\<lambda>(k, f). Some k' = Some k) m) = (if k' \<in> fst ` set m then 1 else 0)"
  by (induction m) (auto simp: image_iff filter_empty_conv)

text \<open>
  C34. The status of the receiver tells the channels that are heard: the pair it reports as
  monitored is the pair of channels that the decoder takes from every frame of a packet, for every
  selection and every channel count.
\<close>

theorem reported_monitor_is_heard:
  fixes s p
  defines "nb \<equiv> bytes_per_sample (m_session s)" and "nCh \<equiv> channel_count (m_session s)"
  assumes "rx_inv s" "nLeg < 2" "is_rtp p" "packet_frames (m_session s) p \<noteq> 0"
    and "nGeneration (m_vJitter s ! slot_index (rtp_seq p)) \<noteq> generation (rtp_seq p)"
  shows "\<exists>l r s'. jfind ''monitor'' (rx_GetStatusJson log10 s) = Some (JArr [JInt (int l), JInt (int r)]) \<and> l < nCh \<and> r < nCh
    \<and> HandlePacket nLeg p now s = Some s'
    \<and> vSamples (m_vJitter s' ! slot_index (rtp_seq p)) = concat (map (\<lambda>f. [sample_at nb (rtp_payload p) (f * nCh + l),
         sample_at nb (rtp_payload p) (f * nCh + r)]) [0..<packet_frames (m_session s) p])"
proof -
  obtain l r where lr: "monitor_pair (m_nMonLeft s) (m_nMonRight s) nCh = (l, r)" by fastforce
  have len: "12 < length p" "length (m_aLegs s) = 2" "length (m_vJitter s) = 1024"
    using assms(3,5) by (simp_all add: is_rtp_def rx_inv_def jitter_ok_def)
  let ?s' = "store nLeg p (arrive nLeg p now s)"
  have "HandlePacket nLeg p now s = Some ?s'"
    using HandlePacket_eq [of p nLeg s now] assms(4-7) len by (simp add: Let_def)
  moreover have "vSamples (m_vJitter ?s' ! slot_index (rtp_seq p)) = packet_audio (arrive nLeg p now s) p"
    using len(3) by (simp add: store_def store_slot_def arrive_def Let_def)
  moreover have "packet_audio (arrive nLeg p now s) p = concat (map (\<lambda>f. [sample_at nb (rtp_payload p) (f * nCh + l),
         sample_at nb (rtp_payload p) (f * nCh + r)]) [0..<packet_frames (m_session s) p])"
    using lr by (simp add: packet_audio_def arrive_def nb_def nCh_def Let_def)
  moreover have "jfind ''monitor'' (rx_GetStatusJson log10 s) = Some (JArr [JInt (int l), JInt (int r)])"
    using lr by (simp add: rx_GetStatusJson_def jfind_obj monitor_json_pair nCh_def)
  moreover have "l < nCh" "r < nCh"
    using monitor_pair_range [of nCh "m_nMonLeft s" "m_nMonRight s"] lr by (simp_all add: nCh_def)
  ultimately show ?thesis by auto
qed

text \<open>
  The status of the PTP client shows one selected master at most, and it is the one the
  client follows: its grandmaster is the one that the session description and the node announce,
  and when a master is selected it is in the list.
\<close>

theorem status_shows_selected_master:
  assumes "ptp_reachable s"
  shows "\<exists>ms. jfind ''masters'' (ptp_GetStatusJson rt now s) = Some (JArr ms)
    \<and> length (filter (\<lambda>m. jfind ''selected'' m = Some (JBool True)) ms) = (if m_selectedMaster s = None then 0 else 1)
    \<and> (\<forall>m \<in> set ms. jfind ''selected'' m = Some (JBool True) \<longrightarrow> jfind ''grandmaster'' m = Some (JStr (GrandmasterId s)))"
proof -
  let ?F = "m_mForeign s"
  have inv: "selection_inv s" "omap_ok ?F" using ptp_reachable_inv [OF assms] by (simp_all add: ptp_inv_def table_ok_def)
  have masters: "jfind ''masters'' (ptp_GetStatusJson rt now s) = Some (JArr (map (\<lambda>(k, f). master_json now k f) ?F))"
    by (simp add: ptp_GetStatusJson_def jfind_obj)
  have sel: "jfind ''selected'' (master_json now k f) = Some (JBool (bSelected f))"
    "jfind ''grandmaster'' (master_json now k f) = Some (JStr (IdentityToString (grandmasterIdentity (fm_dataset f))))" for k f
    by (simp_all add: master_json_def jfind_obj Let_def)
  have bsel: "bSelected f \<longleftrightarrow> m_selectedMaster s = Some k" if "(k, f) \<in> set ?F" for k f
    using inv(1) that by (auto simp: selection_inv_def)
  have get: "map_of ?F k = Some f" if "(k, f) \<in> set ?F" for k f using cmap.get_iff [OF inv(2)] that by simp
  have "filter (\<lambda>m. jfind ''selected'' m = Some (JBool True)) (map (\<lambda>(k, f). master_json now k f) ?F)
      = map (\<lambda>(k, f). master_json now k f) (filter (\<lambda>(k, f). m_selectedMaster s = Some k) ?F)"
    unfolding filter_map by (intro arg_cong [of _ _ "map (\<lambda>(k, f). master_json now k f)"] filter_cong) (auto simp: sel bsel)
  moreover have "length (filter (\<lambda>(k, f). m_selectedMaster s = Some k) ?F) = (if m_selectedMaster s = None then 0 else 1)"
  proof (cases "m_selectedMaster s")
    case (Some k)
    have "map_option fst (best_master ?F) = Some k" using inv(1) Some by (simp add: selection_inv_def)
    then have "k \<in> fst ` set ?F" using best_master_mem by force
    then show ?thesis using cmap.keys_distinct [OF inv(2)] Some distinct_key_count [of ?F k] by simp
  qed simp
  moreover have "jfind ''grandmaster'' m = Some (JStr (GrandmasterId s))"
    if "m \<in> set (map (\<lambda>(k, f). master_json now k f) ?F)" "jfind ''selected'' m = Some (JBool True)" for m
    using that bsel get by (auto simp: sel GrandmasterId_def)
  ultimately show ?thesis using masters by auto
qed

theorem reported_monitor_is_heard_witness:
  "\<exists>s'. jfind ''monitor'' (rx_GetStatusJson (\<lambda>x. 0) init_receiver) = Some (JArr [JInt 0, JInt 1])
    \<and> HandlePacket 0 (demo_packet 1) 0 init_receiver = Some s'
    \<and> vSamples (m_vJitter s' ! 1) = [sample_at 3 (rtp_payload (demo_packet 1)) 0, sample_at 3 (rtp_payload (demo_packet 1)) 1]"
proof -
  let ?p = "demo_packet 1"
  have ses: "m_session init_receiver = default_session" by (simp add: init_receiver_def)
  have fmt: "bytes_per_sample default_session = 3" "channel_count default_session = 2" by code_simp+
  have ix: "slot_index (rtp_seq ?p) = 1" by code_simp
  have mon: "jfind ''monitor'' (rx_GetStatusJson (\<lambda>x. 0) init_receiver) = Some (JArr [JInt 0, JInt 1])"
    by (simp add: rx_GetStatusJson_def jfind_obj monitor_json_def init_receiver_def default_session_def)
  have gen: "nGeneration (m_vJitter init_receiver ! slot_index (rtp_seq ?p)) \<noteq> generation (rtp_seq ?p)"
    using generation_nonzero [of "rtp_seq ?p"] by (simp add: init_receiver_slot init_slot_def)
  have pf: "packet_frames (m_session init_receiver) ?p \<noteq> 0" by (simp add: ses demo_packet_facts)
  from reported_monitor_is_heard [OF init_receiver_inv _ demo_packet_facts(1) pf gen, of 0 "\<lambda>x. 0" 0]
  obtain l r s' where s: "jfind ''monitor'' (rx_GetStatusJson (\<lambda>x. 0) init_receiver) = Some (JArr [JInt (int l), JInt (int r)])"
      "HandlePacket 0 ?p 0 init_receiver = Some s'"
      "vSamples (m_vJitter s' ! slot_index (rtp_seq ?p)) = [sample_at 3 (rtp_payload ?p) l, sample_at 3 (rtp_payload ?p) r]"
    by (auto simp: ses demo_packet_facts fmt)
  then have "l = 0" "r = 1" using mon by simp_all
  then show ?thesis using s mon ix by simp
qed

theorem status_shows_selected_master_witness:
  "\<exists>s ms. demo_run demo_announces demo_start = Some s \<and> jfind ''masters'' (ptp_GetStatusJson 0 0 s) = Some (JArr ms)
    \<and> length (filter (\<lambda>m. jfind ''selected'' m = Some (JBool True)) ms) = 1"
proof -
  obtain s where s: "demo_run demo_announces demo_start = Some s" "ptp_reachable s" "m_selectedMaster s = Some demo_master"
    by (rule demo_announces_run)
  with status_shows_selected_master [OF s(2), of 0 0] show ?thesis by auto
qed

end
