(* ===== verification/Registration.thy ===== *)
theory Registration
  imports Node
begin

text \<open>
  The registration thread of the node (\<^verbatim>\<open>NmosNode::RegistrationLoop\<close> and \<^verbatim>\<open>RegisterAll\<close>,
  \<^verbatim>\<open>src/src/nmos/node.cpp\<close>): it discovers registries, registers the six resources with the first
  that accepts them, sends heartbeats and registers again when a resource has changed.  The thread
  is a step function on its local variables and the state of the node, cut at every request and
  every wait, where the other threads run.  The result of discovery is an argument of a step.
\<close>

section \<open>The thread\<close>

text \<open>Why the resources are being registered; a fresh registration has the registries left to try.\<close>

datatype reg_goal = Fresh "RegistryEntry list" | Lost | Push

datatype reg_pc =
    RegTop
  | RegTry "RegistryEntry list"
  | RegPost nat string reg_goal
  | RegPosted bool string reg_goal
  | RegHeartbeat
  | RegSleep nat
  | RegWake nat
  | RegBye
  | RegDone

record RegLocals =
  reg_pc :: reg_pc
  nSinceDiscovery :: int
  vRegistries :: "RegistryEntry list"
  bRegistered :: bool

definition reg_start :: RegLocals where
  "reg_start = \<lparr>reg_pc = RegTop, nSinceDiscovery = 999, vRegistries = [], bRegistered = False\<rparr>"

text \<open>\<open>RegisterAll\<close> is the steps \<open>RegPost 0\<close> to \<open>RegPost 6\<close>; \<open>Post\<close> is its local function.\<close>

definition Post :: "node_env \<Rightarrow> string \<Rightarrow> string \<times> (node_env \<Rightarrow> 'r Node_scheme \<Rightarrow> json outcome) \<Rightarrow> ('r Node_scheme, bool) act" where
  "Post e url r =
     bindS (\<lambda>s. (snd r e s, s)) (\<lambda>jsData.
       bindS (HttpJson e ''POST'' (url @ ''/x-nmos/registration/v1.3/resource'') (Some (obj [(''type'', JStr (fst r)), (''data'', jsData)]))) (\<lambda>(_, st).
         returnS (st = 200 \<or> st = 201)))"

definition reg_top :: "RegistryEntry list outcome \<Rightarrow> RegLocals \<Rightarrow> ('r Node_scheme, RegLocals) act" where
  "reg_top registries l s =
    (if \<not> node_bRun s then returnS (l\<lparr>reg_pc := RegBye\<rparr>) s
     else bindS (evalS (GetValue get_string ''nmos.registry_override'' [] (cfg s))) (\<lambda>sOverride.
       if bRegistered l then returnS (l\<lparr>reg_pc := RegHeartbeat\<rparr>)
       else if sOverride \<noteq> [] then
         let v = [\<lparr>sUrl = sOverride, nPriority = 0, sApiVersions = []\<rparr>] in returnS (l\<lparr>reg_pc := RegTry v, vRegistries := v\<rparr>)
       else if 5 \<le> nSinceDiscovery l + 1 then
         bindS (evalS registries) (\<lambda>v. returnS (l\<lparr>reg_pc := RegTry v, vRegistries := v, nSinceDiscovery := 0\<rparr>))
       else returnS (l\<lparr>reg_pc := RegTry (vRegistries l), nSinceDiscovery := nSinceDiscovery l + 1\<rparr>)) s)"

definition after_beat :: "string \<Rightarrow> int \<Rightarrow> RegLocals \<Rightarrow> 'r Node_scheme \<Rightarrow> RegLocals" where
  "after_beat sRegistry st l s =
    (if st = 404 then l\<lparr>reg_pc := RegPost 0 sRegistry Lost\<rparr>
     else if st < 200 \<or> 300 \<le> st then l\<lparr>reg_pc := RegSleep 0, bRegistered := False, nSinceDiscovery := 999\<rparr>
     else if m_nVersion s \<noteq> m_nRegisteredVersion s then l\<lparr>reg_pc := RegPost 0 sRegistry Push\<rparr>
     else l\<lparr>reg_pc := RegSleep 0\<rparr>)"

definition heartbeat :: "node_env \<Rightarrow> RegLocals \<Rightarrow> ('r Node_scheme, RegLocals) act" where
  "heartbeat e l s =
     bindS (HttpJson e ''POST'' (m_sRegistry s @ ''/x-nmos/registration/v1.3/health/nodes/'' @ m_sNodeId s) (Some (obj []))) (\<lambda>r s'.
       (Val (after_beat (m_sRegistry s) (snd r) l s'), s')) s"

definition reg_posted :: "bool \<Rightarrow> string \<Rightarrow> reg_goal \<Rightarrow> RegLocals \<Rightarrow> ('r Node_scheme, RegLocals) act" where
  "reg_posted ok url g l s =
    (case g of
       Fresh rs \<Rightarrow>
         if ok then (Val (l\<lparr>reg_pc := RegSleep 0, bRegistered := True\<rparr>),
                     s\<lparr>m_sRegistry := url, m_sRegistryStatus := ''registered'', m_nRegisteredVersion := m_nVersion s\<rparr>)
         else (Val (l\<lparr>reg_pc := RegTry rs\<rparr>), s)
     | Lost \<Rightarrow> (Val (l\<lparr>reg_pc := RegSleep 0, bRegistered := ok\<rparr>), s)
     | Push \<Rightarrow> (Val (l\<lparr>reg_pc := RegSleep 0\<rparr>), if ok then s\<lparr>m_nRegisteredVersion := m_nVersion s\<rparr> else s))"

definition reg_step :: "node_env \<Rightarrow> RegistryEntry list outcome \<Rightarrow> RegLocals \<Rightarrow> ('r Node_scheme, RegLocals) act" where
  "reg_step e registries l s =
    (case reg_pc l of
       RegTop \<Rightarrow> reg_top registries l s
     | RegTry [] \<Rightarrow>
         (Val (l\<lparr>reg_pc := RegSleep 0\<rparr>),
          s\<lparr>m_sRegistry := [], m_sRegistryStatus := (if vRegistries l = [] then ''no registry found'' else ''registration failed'')\<rparr>)
     | RegTry (r # rs) \<Rightarrow> (Val (l\<lparr>reg_pc := RegPost 0 (sUrl r) (Fresh rs)\<rparr>), s)
     | RegPost k url g \<Rightarrow>
         if k < 6 then bindS (Post e url (resources ! k)) (\<lambda>ok.
           returnS (l\<lparr>reg_pc := (if ok then RegPost (Suc k) url g else RegPosted False url g)\<rparr>)) s
         else (Val (l\<lparr>reg_pc := RegPosted True url g\<rparr>), s)
     | RegPosted ok url g \<Rightarrow> reg_posted ok url g l s
     | RegHeartbeat \<Rightarrow> heartbeat e l s
     | RegSleep i \<Rightarrow> (Val (l\<lparr>reg_pc := (if i < 25 \<and> node_bRun s then RegWake i else RegTop)\<rparr>), s)
     | RegWake i \<Rightarrow>
         (Val (l\<lparr>reg_pc := (if bRegistered l \<and> m_nVersion s \<noteq> m_nRegisteredVersion s then RegTop else RegSleep (Suc i))\<rparr>), s)
     | RegBye \<Rightarrow>
         bindS (if m_sRegistry s \<noteq> [] then HttpJson e ''DELETE'' (m_sRegistry s @ ''/x-nmos/registration/v1.3/resource/nodes/'' @ m_sNodeId s) None
                else returnS (None, 0)) (\<lambda>_. returnS (l\<lparr>reg_pc := RegDone\<rparr>)) s
     | RegDone \<Rightarrow> (Val l, s))"

section \<open>Runs\<close>

text \<open>
  What a step tells a registry: the resource it posted with the answer, a heartbeat, or the farewell.
\<close>

datatype reg_event = Posted nat string bool | Beat string | Bye string

definition event :: "RegLocals \<Rightarrow> 'r Node_scheme \<Rightarrow> RegLocals \<Rightarrow> reg_event list" where
  "event l s l' =
    (case reg_pc l of
       RegPost k url g \<Rightarrow> if k < 6 then [Posted k url (reg_pc l' = RegPost (Suc k) url g)] else []
     | RegHeartbeat \<Rightarrow> [Beat (m_sRegistry s)]
     | RegBye \<Rightarrow> if m_sRegistry s \<noteq> [] then [Bye (m_sRegistry s)] else []
     | _ \<Rightarrow> [])"

text \<open>The other threads leave alone what belongs to the registration thread, and the identifiers.\<close>

definition ids :: "'r Node_scheme \<Rightarrow> string list" where
  "ids s = [m_sNodeId s, m_sDeviceId s, m_sSourceId s, m_sFlowId s, m_sSenderId s, m_sReceiverId s]"

definition same_registration :: "'r Node_scheme \<Rightarrow> 'r Node_scheme \<Rightarrow> bool" where
  "same_registration s s' \<longleftrightarrow> ids s' = ids s \<and> m_sRegistry s' = m_sRegistry s \<and> m_sRegistryStatus s' = m_sRegistryStatus s
     \<and> m_nRegisteredVersion s' = m_nRegisteredVersion s"

inductive reg_reachable :: "RegLocals \<Rightarrow> 'r Node_scheme \<Rightarrow> reg_event list \<Rightarrow> bool" where
  start: "reg_reachable reg_start s []"
| step: "reg_reachable l s tr \<Longrightarrow> priority_sort srt \<Longrightarrow> reg_step e (DiscoverRegistries srt query conf) l s = (Val l', s')
    \<Longrightarrow> reg_reachable l' s' (tr @ event l s l')"
| others: "reg_reachable l s tr \<Longrightarrow> same_registration s s' \<Longrightarrow> reg_reachable l s' tr"

section \<open>Steps\<close>

lemma HttpText_state:
  assumes "HttpText e m url b s = (r, s')"
  shows "\<exists>rqs. s' = s\<lparr>requests := rqs\<rparr>"
proof (cases "ParseUrl url")
  case (Val x)
  then show ?thesis using assms
    by (cases x) (auto simp: HttpText_def act_simps Let_def case_prod_unfold split: option.splits intro: exI [of _ "requests s"])
qed (use assms in \<open>auto simp: HttpText_def act_simps intro: exI [of _ "requests s"]\<close>)

lemma HttpJson_state:
  assumes "HttpJson e m url b s = (r, s')"
  shows "\<exists>rqs. s' = s\<lparr>requests := rqs\<rparr>"
proof -
  obtain x where x: "x = (case b of None \<Rightarrow> Val [] | Some js \<Rightarrow> v_dump e js)" by blast
  show ?thesis
  proof (cases x)
    case (Val t)
    obtain r1 s1 where h: "HttpText e m url t s = (r1, s1)" by fastforce
    then have "s' = s1" using assms Val x [symmetric]
      by (cases r1) (auto simp: HttpJson_def act_simps case_prod_unfold)
    then show ?thesis using HttpText_state [OF h] by simp
  qed (use assms x [symmetric] in \<open>auto simp: HttpJson_def act_simps intro: exI [of _ "requests s"]\<close>)
qed

lemma Post_state:
  assumes "Post e url r s = (x, s')"
  shows "\<exists>rqs. s' = s\<lparr>requests := rqs\<rparr>"
proof (cases "snd r e s")
  case (Val js)
  let ?h = "HttpJson e ''POST'' (url @ ''/x-nmos/registration/v1.3/resource'') (Some (obj [(''type'', JStr (fst r)), (''data'', js)]))"
  obtain r1 s1 where h: "?h s = (r1, s1)" by fastforce
  then have "s' = s1" using assms Val by (cases r1) (auto simp: Post_def act_simps case_prod_unfold)
  then show ?thesis using HttpJson_state [OF h] by simp
qed (use assms in \<open>auto simp: Post_def act_simps intro: exI [of _ "requests s"]\<close>)


lemma Post_cases:
  assumes "bindS (Post e url r) (\<lambda>ok. returnS (f ok)) s = (Val l', s')"
  obtains ok rqs where "Post e url r s = (Val ok, s')" "l' = f ok" "s' = s\<lparr>requests := rqs\<rparr>"
proof -
  obtain x s1 where p: "Post e url r s = (x, s1)" by fastforce
  then obtain ok where "x = Val ok" "l' = f ok" "s' = s1" using assms by (cases x) (auto simp: act_simps)
  then show ?thesis using that p Post_state [OF p] by auto
qed

lemma after_beat_cases:
  "reg_pc (after_beat url st l s) = RegSleep 0 \<and> (bRegistered (after_beat url st l s) \<longrightarrow> bRegistered l)
   \<or> reg_pc (after_beat url st l s) \<in> {RegPost 0 url Lost, RegPost 0 url Push} \<and> bRegistered (after_beat url st l s) = bRegistered l"
  "vRegistries (after_beat url st l s) = vRegistries l"
  by (simp_all add: after_beat_def)

lemma heartbeat_cases:
  assumes "heartbeat e l s = (Val l', s')"
  obtains rqs st where "s' = s\<lparr>requests := rqs\<rparr>" "l' = after_beat (m_sRegistry s) st l s'"
proof -
  let ?h = "HttpJson e ''POST'' (m_sRegistry s @ ''/x-nmos/registration/v1.3/health/nodes/'' @ m_sNodeId s) (Some (obj []))"
  obtain x s1 where h: "?h s = (x, s1)" by fastforce
  have "s' = s1" "\<exists>st. l' = after_beat (m_sRegistry s) st l s1" using assms h
    by (cases x; auto simp: heartbeat_def bindS_def)+
  then show ?thesis using that HttpJson_state [OF h] by blast
qed

lemma reg_bye_state:
  assumes "reg_step e registries l s = (Val l', s')" "reg_pc l = RegBye"
  shows "\<exists>rqs. s' = s\<lparr>requests := rqs\<rparr>" "l' = l\<lparr>reg_pc := RegDone\<rparr>"
proof -
  let ?h = "if m_sRegistry s \<noteq> [] then HttpJson e ''DELETE'' (m_sRegistry s @ ''/x-nmos/registration/v1.3/resource/nodes/'' @ m_sNodeId s) None
     else returnS (None, 0)"
  obtain x s1 where h: "?h s = (x, s1)" by fastforce
  from assms have b: "bindS ?h (\<lambda>_. returnS (l\<lparr>reg_pc := RegDone\<rparr>)) s = (Val l', s')" by (simp add: reg_step_def)
  then show "l' = l\<lparr>reg_pc := RegDone\<rparr>" using h by (cases x) (simp_all add: bindS_def returnS_def)
  have "s' = s1" using b h by (cases x) (simp_all add: bindS_def returnS_def)
  moreover have "\<exists>rqs. s1 = s\<lparr>requests := rqs\<rparr>"
    using h HttpJson_state by (cases "m_sRegistry s = []") (auto simp: returnS_def intro: exI [of _ "requests s"])
  ultimately show "\<exists>rqs. s' = s\<lparr>requests := rqs\<rparr>" by simp
qed

section \<open>The invariant\<close>

text \<open>Posts of the first \<open>k\<close> resources, all accepted.\<close>

definition accepted :: "nat \<Rightarrow> string \<Rightarrow> reg_event list" where
  "accepted k url = map (\<lambda>i. Posted i url True) [0..<k]"

primrec event_url :: "reg_event \<Rightarrow> string" where
  "event_url (Posted k url ok) = url"
| "event_url (Beat url) = url"
| "event_url (Bye url) = url"

definition registered_with :: "string \<Rightarrow> reg_event list \<Rightarrow> bool" where
  "registered_with url tr \<longleftrightarrow> (\<exists>tr0 tr1. tr = tr0 @ accepted 6 url @ tr1 \<and> (\<forall>ev \<in> set tr1. event_url ev = url))"

definition reg_inv :: "RegLocals \<Rightarrow> 'r Node_scheme \<Rightarrow> reg_event list \<Rightarrow> bool" where
  "reg_inv l s tr \<longleftrightarrow>
     (\<forall>r \<in> set (vRegistries l). sUrl r \<noteq> [])
     \<and> (bRegistered l \<longrightarrow> m_sRegistry s \<noteq> [] \<and> m_sRegistryStatus s = ''registered'' \<and> registered_with (m_sRegistry s) tr)
     \<and> (case reg_pc l of
          RegTry rs \<Rightarrow> \<not> bRegistered l \<and> (\<forall>r \<in> set rs. sUrl r \<noteq> [])
        | RegPost k url g \<Rightarrow> k \<le> 6 \<and> (\<exists>tr0. tr = tr0 @ accepted k url)
            \<and> (case g of Fresh rs \<Rightarrow> \<not> bRegistered l \<and> url \<noteq> [] \<and> (\<forall>r \<in> set rs. sUrl r \<noteq> []) | _ \<Rightarrow> bRegistered l \<and> url = m_sRegistry s)
        | RegPosted ok url g \<Rightarrow> (ok \<longrightarrow> (\<exists>tr0. tr = tr0 @ accepted 6 url))
            \<and> (case g of Fresh rs \<Rightarrow> \<not> bRegistered l \<and> url \<noteq> [] \<and> (\<forall>r \<in> set rs. sUrl r \<noteq> []) | _ \<Rightarrow> bRegistered l \<and> url = m_sRegistry s)
        | RegHeartbeat \<Rightarrow> bRegistered l
        | _ \<Rightarrow> True)"

lemma accepted_Suc: "accepted (Suc k) url = accepted k url @ [Posted k url True]"
  by (simp add: accepted_def)

lemma registered_with_append:
  assumes "registered_with url tr" "\<forall>ev \<in> set tr'. event_url ev = url"
  shows "registered_with url (tr @ tr')"
proof -
  obtain tr0 tr1 where "tr = tr0 @ accepted 6 url @ tr1" "\<forall>ev \<in> set tr1. event_url ev = url"
    using assms(1) by (auto simp: registered_with_def)
  then show ?thesis unfolding registered_with_def using assms(2) by (intro exI [of _ tr0] exI [of _ "tr1 @ tr'"]) auto
qed

lemma registered_withI: "registered_with url (tr @ accepted 6 url)"
  unfolding registered_with_def by (intro exI [of _ tr] exI [of _ "[]"]) simp

lemma discovered_urls:
  assumes "priority_sort srt" "DiscoverRegistries srt query conf = Val rs" "r \<in> set rs"
  shows "sUrl r \<noteq> []"
proof -
  from priority_sort.DiscoverRegistries_result(3) [OF assms] obtain i where "read_instance query i = Val (Some r)"
    by (auto simp: discovered_def)
  then show ?thesis by (rule read_instance_SomeD) (simp add: registry_url_def)
qed

lemma reg_top_inv:
  assumes "reg_inv l s tr" "reg_top registries l s = (Val l', s')" "\<And>rs r. registries = Val rs \<Longrightarrow> r \<in> set rs \<Longrightarrow> sUrl r \<noteq> []"
    "reg_pc l = RegTop"
  shows "reg_inv l' s' tr"
  using assms
  by (cases "GetValue get_string ''nmos.registry_override'' [] (cfg s)"; cases registries)
    (auto simp: reg_inv_def reg_top_def act_simps Let_def split: if_splits)

lemma reg_post_inv:
  assumes i: "reg_inv l s tr" and s: "reg_step e registries l s = (Val l', s')" and p: "reg_pc l = RegPost k url g"
  shows "reg_inv l' s' (tr @ event l s l')"
proof (cases "k < 6")
  case True
  from s p True obtain ok rqs where ok: "l' = l\<lparr>reg_pc := (if ok then RegPost (Suc k) url g else RegPosted False url g)\<rparr>"
      "s' = s\<lparr>requests := rqs\<rparr>"
    by (auto simp: reg_step_def elim: Post_cases)
  from i p obtain tr0 where tr: "tr = tr0 @ accepted k url" by (auto simp: reg_inv_def)
  have ev: "event l s l' = [Posted k url ok]" using p True ok(1) by (simp add: event_def)
  have "\<exists>tr1. tr @ event l s l' = tr1 @ accepted (Suc k) url" if ok using tr ev that by (auto simp: accepted_Suc)
  then show ?thesis using i p True ok ev registered_with_append [of "m_sRegistry s" tr "[Posted k url ok]"] by (cases g) (auto simp: reg_inv_def)
next
  case False
  then have "k = 6" using i p by (auto simp: reg_inv_def)
  then show ?thesis using i s p by (cases g) (auto simp: reg_inv_def reg_step_def event_def)
qed

lemma reg_step_inv:
  assumes i: "reg_inv l s tr" and s: "reg_step e registries l s = (Val l', s')"
    and r: "\<And>rs r. registries = Val rs \<Longrightarrow> r \<in> set rs \<Longrightarrow> sUrl r \<noteq> []"
  shows "reg_inv l' s' (tr @ event l s l')"
proof (cases "reg_pc l")
  case RegTop
  then show ?thesis using reg_top_inv [OF i _ r] s by (simp add: reg_step_def event_def)
next
  case (RegTry rs)
  then show ?thesis using i s by (cases rs) (auto simp: reg_inv_def reg_step_def event_def accepted_def)
next
  case (RegPost k url g)
  then show ?thesis by (rule reg_post_inv [OF i s])
next
  case (RegPosted ok url g)
  then have "registered_with url tr" if ok using i that registered_withI by (auto simp: reg_inv_def)
  then show ?thesis using i s RegPosted
    by (cases g) (auto simp: reg_inv_def reg_step_def reg_posted_def event_def split: if_splits)
next
  case RegHeartbeat
  then have reg: "bRegistered l" using i by (simp add: reg_inv_def)
  from s RegHeartbeat obtain rqs st where h: "s' = s\<lparr>requests := rqs\<rparr>" "l' = after_beat (m_sRegistry s) st l s'"
    by (auto simp: reg_step_def elim: heartbeat_cases)
  note c = after_beat_cases [of "m_sRegistry s" st l s', folded h(2)]
  show ?thesis using i h(1) c reg RegHeartbeat registered_with_append [of "m_sRegistry s" tr "event l s l'"] by (auto simp: reg_inv_def accepted_def event_def)
next
  case RegBye
  from reg_bye_state [OF s RegBye] show ?thesis using i RegBye registered_with_append [of "m_sRegistry s" tr "event l s l'"] by (auto simp: reg_inv_def event_def)
qed (use i s in \<open>auto simp: reg_inv_def reg_step_def event_def\<close>)

lemma reg_reachable_inv: "reg_reachable l s tr \<Longrightarrow> reg_inv l s tr"
proof (induction rule: reg_reachable.induct)
  case (start s)
  then show ?case by (simp add: reg_inv_def reg_start_def)
next
  case (step l s tr srt e query conf l' s')
  then show ?case by (intro reg_step_inv) (auto dest: discovered_urls)
next
  case (others l s tr s')
  then show ?case by (cases "reg_pc l") (auto simp: reg_inv_def same_registration_def split: reg_goal.splits)
qed

lemma override_total: "\<exists>v. GetValue get_string ''nmos.registry_override'' d c = Val v"
proof -
  have p: "pointer ''nmos.registry_override'' = Val [''nmos'', ''registry_override'']" by code_simp
  show ?thesis by (rule GetValue_string_total [OF p]) (simp add: is_digit_def)
qed

section \<open>Properties\<close>


text \<open>Which member of a resource refers to which resource before it.\<close>

definition references :: "nat \<Rightarrow> (string \<times> nat) list" where
  "references k = [[], [(''node_id'', 0)], [(''device_id'', 1)], [(''device_id'', 1), (''source_id'', 2)],
     [(''flow_id'', 3), (''device_id'', 1)], [(''device_id'', 1)]] ! k"

lemma resource_ids:
  assumes "j < 6" "snd (resources ! j) e s = Val js"
  shows "jfind ''id'' js = Some (JStr (ids s ! j))"
proof -
  from assms(1) have "j \<in> {0, 1, 2, 3, 4, 5}" by auto
  then show ?thesis using assms(2)
    by (elim insertE) (auto simp: resources_def ids_def jfind_obj Let_def
        BuildSelf_def BuildDevice_def BuildSource_def BuildFlow_def BuildSender_def BuildReceiver_def)
qed

lemma resource_refs:
  assumes "k < 6" "snd (resources ! k) e s = Val js" "(key, j) \<in> set (references k)"
  shows "j < k" "jfind key js = Some (JStr (ids s ! j))"
proof -
  from assms(1) have k: "k \<in> {0, 1, 2, 3, 4, 5}" by auto
  show "j < k" using k assms(3) by (elim insertE) (auto simp: references_def)
  show "jfind key js = Some (JStr (ids s ! j))" using k assms(2,3)
    by (elim insertE) (auto simp: references_def resources_def ids_def jfind_obj
        BuildDevice_def BuildSource_def BuildFlow_def BuildSender_def BuildReceiver_def)
qed

lemma event_Posted:
  assumes "event l s l' = tr1 @ Posted k url ok # tr2"
  shows "tr1 = [] \<and> tr2 = [] \<and> k < 6 \<and> (\<exists>g. reg_pc l = RegPost k url g)"
  using assms by (auto simp: event_def Cons_eq_append_conv split: reg_pc.splits if_splits)

lemma posts_in_order:
  assumes "reg_reachable l s tr"
  shows "tr = tr1 @ Posted k url ok # tr2 \<Longrightarrow> k < 6 \<and> (\<exists>tr0. tr1 = tr0 @ accepted k url)"
  using assms
proof (induction arbitrary: tr2 rule: reg_reachable.induct)
  case (step l s tr srt e query conf l' s')
  show ?case
  proof (cases "length tr1 < length tr")
    case True
    then obtain us where us: "tr = tr1 @ us" "us @ event l s l' = Posted k url ok # tr2" "us \<noteq> []" using step.prems
      by (auto simp: append_eq_append_conv2)
    then have "tr = tr1 @ Posted k url ok # tl us" by (cases us) auto
    then show ?thesis by (rule step.IH)
  next
    case False
    then obtain tr3 where t: "tr1 = tr @ tr3" "event l s l' = tr3 @ Posted k url ok # tr2" using step.prems
      by (auto simp: append_eq_append_conv2)
    from event_Posted [OF t(2)] obtain g where "tr3 = []" "k < 6" "reg_pc l = RegPost k url g" by blast
    then show ?thesis using reg_reachable_inv [OF step.hyps(1)] t(1) by (auto simp: reg_inv_def)
  qed
qed auto


section \<open>Changes reach the registry\<close>

fun reg_run :: "nat \<Rightarrow> node_env \<Rightarrow> RegistryEntry list outcome \<Rightarrow> RegLocals \<times> 'r Node_scheme \<times> reg_event list
    \<Rightarrow> (RegLocals \<times> 'r Node_scheme \<times> reg_event list) outcome" where
  "reg_run 0 e registries x = Val x"
| "reg_run (Suc n) e registries (l, s, tr) =
     (case reg_step e registries l s of
        (Val l', s') \<Rightarrow> reg_run n e registries (l', s', tr @ event l s l')
      | (Throw, s') \<Rightarrow> Throw
      | (Undef, s') \<Rightarrow> Undef)"

lemma reg_run_add: "reg_run (m + n) e registries x = bindO (reg_run m e registries x) (reg_run n e registries)"
proof (induction m arbitrary: x)
  case (Suc m)
  obtain l s tr where x: "x = (l, s, tr)" by (cases x)
  show ?case using Suc by (cases "reg_step e registries l s"; cases "fst (reg_step e registries l s)") (auto simp: x)
qed simp

text \<open>A registry that can be reached at \<open>url\<close> and accepts what it is sent.\<close>

definition willing :: "node_env \<Rightarrow> string \<Rightarrow> bool" where
  "willing e url \<longleftrightarrow> (\<forall>h p t. \<exists>b. v_http e h p t = Some (200, b)) \<and> (\<forall>js. \<exists>t. v_dump e js = Val t)
     \<and> (\<forall>path. \<exists>p. ParseUrl (url @ CHR ''/'' # path) = Val (Some p))"

lemma willing_HttpJson:
  assumes "willing e url" "path = CHR ''/'' # rest"
  shows "\<exists>js rqs. HttpJson e m (url @ path) (Some body) s = (Val (js, 200), s\<lparr>requests := rqs\<rparr>)"
proof -
  obtain t where t: "v_dump e body = Val t" using assms(1) unfolding willing_def by blast
  obtain p where p: "ParseUrl (url @ path) = Val (Some p)" using assms unfolding willing_def by blast
  obtain b where "v_http e (c_str (sHost p)) (url_nPort p)
      (request_text \<lparr>rq_host = sHost p, rq_port = url_nPort p, rq_method = m, rq_path = sPath p, rq_body = t\<rparr>) = Some (200, b)"
    using assms(1) unfolding willing_def by blast
  then show ?thesis using t p by (simp add: HttpJson_def HttpText_def act_simps Let_def) blast
qed

lemma resources_length: "length resources = 6"
  by (simp add: resources_def)

lemma willing_Post:
  assumes "willing e url" "active_readable s" "r \<in> set resources"
  shows "\<exists>rqs. Post e url r s = (Val True, s\<lparr>requests := rqs\<rparr>)"
proof -
  obtain js where js: "snd r e s = Val js" using resource_total [OF assms(2), of "fst r" "snd r"] assms(3) by auto
  have path: "''/x-nmos/registration/v1.3/resource'' = CHR ''/'' # ''x-nmos/registration/v1.3/resource''" by simp
  obtain x rqs where "HttpJson e ''POST'' (url @ ''/x-nmos/registration/v1.3/resource'')
      (Some (obj [(''type'', JStr (fst r)), (''data'', js)])) s = (Val (x, 200), s\<lparr>requests := rqs\<rparr>)"
    using willing_HttpJson [OF assms(1) path] by blast
  then show ?thesis using js by (simp add: Post_def act_simps) blast
qed

lemma post_run:
  assumes "willing e url" "k \<le> 6"
  shows "active_readable s \<Longrightarrow> \<exists>rqs. reg_run k e registries (l\<lparr>reg_pc := RegPost (6 - k) url g\<rparr>, s, tr)
    = Val (l\<lparr>reg_pc := RegPost 6 url g\<rparr>, s\<lparr>requests := rqs\<rparr>, tr @ map (\<lambda>i. Posted i url True) [6 - k..<6])"
  using assms(2)
proof (induction k arbitrary: s tr)
  case 0
  then show ?case by (intro exI [of _ "requests s"]) simp
next
  case (Suc k)
  have lt: "6 - Suc k < (6 :: nat)" by arith
  then have "resources ! (6 - Suc k) \<in> set resources" by (intro nth_mem) (simp only: resources_length)
  from willing_Post [OF assms(1) Suc.prems(1) this]
  obtain rqs where p: "Post e url (resources ! (6 - Suc k)) s = (Val True, s\<lparr>requests := rqs\<rparr>)" ..
  have n1: "Suc (6 - Suc k) = 6 - k" using Suc.prems(2) by arith
  then have n: "Suc (6 - Suc k) = 6 - k" "[6 - Suc k..<6] = (6 - Suc k) # [6 - k..<6]"
    using upt_conv_Cons [OF lt] by (simp_all only:)
  have "active_readable (s\<lparr>requests := rqs\<rparr>)" using Suc.prems(1) by (rule readable_docs [rotated]) (simp add: docs_def)
  from Suc.IH [OF this, of "tr @ [Posted (6 - Suc k) url True]"] Suc.prems show ?case
    using p n lt by (simp add: reg_step_def act_simps event_def)
qed

text \<open>The first registry that is willing gets all six resources and becomes the registry.\<close>

lemma first_registry_accepts:
  fixes s :: "'r Node_scheme"
  assumes "willing e (sUrl r)" "active_readable s" "reg_pc l = RegTry (r # rs)"
  shows "\<exists>rqs. reg_run 9 e registries (l, s, tr) = Val (l\<lparr>reg_pc := RegSleep 0, bRegistered := True\<rparr>,
    s\<lparr>requests := rqs, m_sRegistry := sUrl r, m_sRegistryStatus := ''registered'', m_nRegisteredVersion := m_nVersion s\<rparr>,
    tr @ map (\<lambda>i. Posted i (sUrl r) True) [0..<6])"
proof -
  from post_run [OF assms(1) order_refl assms(2), where registries = registries and l = l and g = "Fresh rs" and tr = tr]
  obtain rqs where p: "reg_run 6 e registries (l\<lparr>reg_pc := RegPost 0 (sUrl r) (Fresh rs)\<rparr>, s, tr)
      = Val (l\<lparr>reg_pc := RegPost 6 (sUrl r) (Fresh rs)\<rparr>, s\<lparr>requests := rqs\<rparr>, tr @ map (\<lambda>i. Posted i (sUrl r) True) [0..<6])" by auto
  have first: "reg_run 1 e registries (l, s, tr) = Val (l\<lparr>reg_pc := RegPost 0 (sUrl r) (Fresh rs)\<rparr>, s, tr)"
    using assms(3) by (simp add: reg_step_def event_def)
  have last: "reg_run 2 e registries (l\<lparr>reg_pc := RegPost 6 url (Fresh rs)\<rparr>, t, tr)
      = Val (l\<lparr>reg_pc := RegSleep 0, bRegistered := True\<rparr>,
             t\<lparr>m_sRegistry := url, m_sRegistryStatus := ''registered'', m_nRegisteredVersion := m_nVersion t\<rparr>, tr)"
    for t :: "'r Node_scheme" and tr url
    by (simp add: numeral_eq_Suc reg_step_def reg_posted_def event_def)
  have "reg_run (1 + (6 + 2)) e registries (l, s, tr) = Val (l\<lparr>reg_pc := RegSleep 0, bRegistered := True\<rparr>,
      s\<lparr>requests := rqs, m_sRegistry := sUrl r, m_sRegistryStatus := ''registered'', m_nRegisteredVersion := m_nVersion s\<rparr>,
      tr @ map (\<lambda>i. Posted i (sUrl r) True) [0..<6])"
    unfolding reg_run_add first bindO.simps p last by simp
  then show ?thesis by auto
qed


section \<open>A registered node\<close>

lemma reg_run_reachable:
  "reg_reachable l s tr \<Longrightarrow> priority_sort srt \<Longrightarrow> reg_run n e (DiscoverRegistries srt query conf) (l, s, tr) = Val (l', s', tr')
    \<Longrightarrow> reg_reachable l' s' tr'"
proof (induction n arbitrary: l s tr)
  case (Suc n)
  obtain r s1 where st: "reg_step e (DiscoverRegistries srt query conf) l s = (r, s1)" by fastforce
  then obtain l1 where r: "r = Val l1" using Suc.prems(3) by (cases r) auto
  then have "reg_reachable l1 s1 (tr @ event l s l1)" using reg_reachable.step Suc.prems(1,2) st by blast
  then show ?case using Suc.IH Suc.prems(2,3) st r by simp
qed simp

definition demo_config :: Config where
  "demo_config = \<lparr>m_json = obj [(''nmos'', obj [(''registry_override'', JStr ''http://reg'')])], m_sPath = []\<rparr>"

definition demo_running :: Node where
  "demo_running = demo_node\<lparr>node_bRun := True, cfg := demo_config\<rparr>"

lemma demo_willing: "willing demo_node_env ''http://reg''"
proof -
  have "\<exists>p. ParseUrl (''http://reg'' @ CHR ''/'' # path) = Val (Some p)" for path
  proof -
    have f: "find_str ''://'' (''http://reg'' @ CHR ''/'' # path) = Some 4"
      using find_str_first [of "CHR '':''" "''http''" "''//''" "''reg/'' @ path"] by simp
    have g: "find_from (CHR ''/'') 0 (''reg/'' @ path) = Some 3" using find_from_split [of "CHR ''/''" "''reg''" path] by simp
    show ?thesis unfolding ParseUrl_def f using g by (simp add: Let_def find_from_def)
  qed
  then show ?thesis by (simp add: willing_def demo_node_env_def)
qed

lemma demo_reachable: "conn_reachable (\<lambda>b. returnS ()) (\<lambda>b ses. returnS ()) demo_running" "outside (\<lambda>b. returnS ()) (\<lambda>b ses. returnS ())"
  by (rule conn_reachable.start, simp add: docs_def demo_running_def demo_node_def init_node_def) (simp add: outside_def returnS_def)

lemma demo_registered:
  obtains l and s :: Node where "reg_reachable l s (map (\<lambda>i. Posted i ''http://reg'' True) [0..<6])" "bRegistered l" "m_sRegistry s = ''http://reg''"
    "reg_pc l = RegSleep 0" "node_bRun s" "m_nVersion s = 0" "m_nRegisteredVersion s = 0" "docs s = docs demo_running" "ids s = ids demo_running"
proof -
  let ?reg = "DiscoverRegistries (sort_key nPriority) (\<lambda>_ _. []) None"
  let ?v = "[\<lparr>sUrl = ''http://reg'', nPriority = 0, sApiVersions = []\<rparr>]"
  let ?l = "reg_start\<lparr>reg_pc := RegTry ?v, vRegistries := ?v\<rparr>"
  have "GetValue get_string ''nmos.registry_override'' [] demo_config = Val ''http://reg''" by code_simp
  then have top: "reg_run 1 demo_node_env ?reg (reg_start, demo_running, []) = Val (?l, demo_running, [])"
    by (simp add: reg_step_def reg_top_def event_def reg_start_def demo_running_def act_simps Let_def)
  have "active_readable demo_running" by (rule conn_reachable_readable [OF demo_reachable])
  from first_registry_accepts [OF _ this, of demo_node_env _ ?l "[]" ?reg "[]"] demo_willing
  obtain rqs where r: "reg_run 9 demo_node_env ?reg (?l, demo_running, []) = Val (?l\<lparr>reg_pc := RegSleep 0, bRegistered := True\<rparr>,
      demo_running\<lparr>requests := rqs, m_sRegistry := ''http://reg'', m_sRegistryStatus := ''registered'', m_nRegisteredVersion := m_nVersion demo_running\<rparr>,
      map (\<lambda>i. Posted i ''http://reg'' True) [0..<6])" by fastforce
  have "reg_run (1 + 9) demo_node_env ?reg (reg_start, demo_running, []) = Val (?l\<lparr>reg_pc := RegSleep 0, bRegistered := True\<rparr>,
      demo_running\<lparr>requests := rqs, m_sRegistry := ''http://reg'', m_sRegistryStatus := ''registered'', m_nRegisteredVersion := m_nVersion demo_running\<rparr>,
      map (\<lambda>i. Posted i ''http://reg'' True) [0..<6])"
    unfolding reg_run_add top bindO.simps by (rule r)
  from reg_run_reachable [OF reg_reachable.start by_priority.priority_sort_axioms this] show ?thesis
    by (rule that) (simp_all add: demo_running_def demo_node_def init_node_def docs_def ids_def)
qed




text \<open>
  A change during the registration is lost: when the version is increased after a resource was
  posted and before the posting ends, the thread takes the new version as registered, and nothing
  it does afterwards sends the change until the version is increased again.
\<close>

lemma change_while_registering_lost:
  "(case reg_posted True url Push l (BumpVersion s) of
      (Val l', s') \<Rightarrow> m_nRegisteredVersion s' = m_nVersion s' \<and> reg_pc l' = RegSleep 0
        \<and> (\<forall>i st. reg_pc (after_beat url st (l'\<lparr>reg_pc := RegWake i\<rparr>) s') \<noteq> RegPost 0 url Push)
    | _ \<Rightarrow> False)"
  by (simp add: reg_posted_def BumpVersion_def after_beat_def)

end
