(* ===== verification/App.thy ===== *)
theory App
  imports Web Engine_Json Registration
begin

text \<open>
  The program around the components, \<^verbatim>\<open>src/src/main.cpp\<close>: the network interfaces, the sender made from
  the configuration, the callbacks of the connection API, the documents of the user interface and
  the reaction to a changed configuration.  The actions of the user interface are in \<open>Actions\<close>,
  the status feed in \<open>Feed\<close>.

  The state extends the state of the web server by the playback device, whose handle type is a
  parameter, and by the list of the shell commands run.  The record \<open>app_env\<close> has the readings of
  the environment and what is fixed when the program starts: the two directories, the version and
  the build stamp.
\<close>

section \<open>State\<close>

record 'p App = Web +
  alsa :: "'p AlsaOut"
  ran :: "string list" \<comment> \<open>the commands handed to the shell\<close>

record 'p app_env =
  p_node :: node_env
  p_codecs :: codecs
  p_open_leg :: "string \<Rightarrow> string \<Rightarrow> u16 \<Rightarrow> int"
  p_connect :: "Leg \<Rightarrow> u16 \<Rightarrow> int"
  p_ip :: "string \<Rightarrow> string"
  p_random :: u32
  p_log10 :: "double \<Rightarrow> double"
  p_realtime :: u64
  p_now :: int
  p_stat :: "string \<Rightarrow> u64 option" \<comment> \<open>modification time\<close>
  p_output :: "string \<Rightarrow> string" \<comment> \<open>what is read from a shell command\<close>
  p_carrier :: "string \<Rightarrow> int" \<comment> \<open>the number in a file, 0 when there is none\<close>
  p_pcm_open :: "string \<Rightarrow> 'p option"
  p_hw_params :: "'p \<Rightarrow> int \<times> 'p"
  p_set_params :: "'p \<Rightarrow> int \<times> 'p"
  p_sw_params :: "'p \<Rightarrow> 'p"
  p_pcm_delay :: "'p \<Rightarrow> int \<times> int"
  p_version :: string
  p_build :: string
  p_filesDir :: string
  p_webRoot :: string

section \<open>The sender of the configuration\<close>

definition Interfaces :: "Config \<Rightarrow> string list outcome" where
  "Interfaces c =
     bindO (GetValue get_string ''network.interface_primary'' ''eth0'' c) (\<lambda>sPrimary.
     bindO (GetValue get_string ''network.interface_secondary'' [] c) (\<lambda>sSecondary.
       Val (if sSecondary \<noteq> [] \<and> sSecondary \<noteq> sPrimary then [sPrimary, sSecondary] else [sPrimary])))"

text \<open>The subscript of a document that is not constant: a missing member reads as null.\<close>

definition jref :: "string \<Rightarrow> json \<Rightarrow> json outcome" where
  "jref key js = (if is_object js \<or> js = JNull then Val (null_member key js) else Throw)"

definition config_leg :: "string \<Rightarrow> string \<Rightarrow> string \<Rightarrow> string \<Rightarrow> json \<Rightarrow> Leg outcome" where
  "config_leg sInterface mkey d ekey js =
     bindO (jvalue get_string mkey d js) (\<lambda>ip. bindO (jvalue get_bool ekey True js) (\<lambda>b.
       Val \<lparr>tx_sInterface = sInterface, tx_sMulticast = ip, bEnabled = b\<rparr>))"

definition config_legs :: "string list \<Rightarrow> json \<Rightarrow> Leg list outcome" where
  "config_legs ifs js =
     bindO (config_leg (ifs ! 0) ''multicast_primary'' ''239.69.145.10'' ''leg1_enabled'' js) (\<lambda>leg1.
       if 1 < length ifs then
         bindO (config_leg (ifs ! 1) ''multicast_secondary'' ''239.69.146.10'' ''leg2_enabled'' js) (\<lambda>leg2. Val [leg1, leg2])
       else Val [leg1])"

definition ApplySender :: "'p app_env \<Rightarrow> ('r ConnectionApi_scheme, unit) act" where
  "ApplySender e s =
     bindS (evalS (jref ''sender'' (m_json (cfg s)))) (\<lambda>js.
     bindS (evalS (jvalue get_bool ''enabled'' False js)) (\<lambda>enabled.
       if \<not> enabled then modifyS (\<lambda>s. s\<lparr>sender := tx_Stop (sender s)\<rparr>)
       else
         bindS (evalS (Interfaces (cfg s))) (\<lambda>ifs.
         bindS (evalS (config_legs ifs js)) (\<lambda>legs.
         bindS (evalS (jvalue get_int ''port'' 5004 js)) (\<lambda>port.
         bindS (evalS (jvalue get_int ''payload_type'' 96 js)) (\<lambda>pt.
         bindS (evalS (jvalue get_int ''packet_time_us'' 1000 js)) (\<lambda>ptimeUs.
         bindS (evalS (CreateFromConfig (p_codecs e) js (p_filesDir e))) (\<lambda>src. (\<lambda>s.
           case tx_Configure (p_connect e) (p_ip e) (p_random e) legs (word_of_int port) pt ptimeUs (Some src) (sender s) of
             None \<Rightarrow> (Undef, s)
           | Some (ok, tx) \<Rightarrow> (Val (), s\<lparr>sender := tx\<rparr>)))))))))) s"

section \<open>Callbacks of the connection API\<close>

definition onReceiver :: "'p app_env \<Rightarrow> bool \<Rightarrow> SdpSession option \<Rightarrow> ('r Node_scheme, unit) act" where
  "onReceiver e bEnable ses s =
    (case (bEnable, ses) of
       (True, Some ses) \<Rightarrow>
         bindS (evalS (Interfaces (cfg s))) (\<lambda>ifs.
         bindS (evalS (GetValue get_int ''receiver.playout_delay_ms'' 20 (cfg s))) (\<lambda>nDelay. (\<lambda>s.
           case rx_Configure (p_open_leg e) ses ifs nDelay (receiver s) of
             None \<Rightarrow> (Undef, s)
           | Some (ok, rx) \<Rightarrow> (Val (), s\<lparr>receiver := rx\<rparr>)))) s
     | _ \<Rightarrow> (Val (), s\<lparr>receiver := rx_Stop (receiver s)\<rparr>))"

definition onSender :: "'p app_env \<Rightarrow> bool \<Rightarrow> ('r Node_scheme, unit) act" where
  "onSender e bEnable =
     thenS (set_config ''sender.enabled'' (JBool bEnable)) (thenS (ApplySender e) (modifyS BumpVersion))"

section \<open>Documents of the user interface\<close>

definition ui_stamp :: "'p app_env \<Rightarrow> u64" where
  "ui_stamp e = fold (\<lambda>sFile n. case p_stat e (p_webRoot e @ ''/'' @ sFile) of Some t \<Rightarrow> max n t | None \<Rightarrow> n)
     [''index.html'', ''app.js'', ''style.css''] 0"

definition StatusJson :: "'p app_env \<Rightarrow> ('p, 'r) App_scheme \<Rightarrow> json outcome" where
  "StatusJson e s =
     bindO (case tx_GetStatusJson (p_log10 e) (sender s) of None \<Rightarrow> Undef | Some js \<Rightarrow> Val js) (\<lambda>jsTx.
     bindO (GetValue get_double ''receiver.gain_db'' 0 (cfg s)) (\<lambda>dGain.
     bindO (node_GetStatusJson s) (\<lambda>jsNode. Val (obj (
       [(''version'', JStr (p_version e)), (''build'', JStr (p_build e @ '' ui-'' @ to_string (uint (ui_stamp e)))),
        (''ptp'', ptp_GetStatusJson (p_realtime e) (p_now e) (ptp s)), (''sender'', jsTx),
        (''receiver'', put ''gain_db'' (JFloat dGain) (rx_GetStatusJson (p_log10 e) (receiver s))),
        (''config'', m_json (cfg s)), (''nmos'', jsNode),
        (''alsa'', obj [(''underruns'', JInt (uint (m_nUnderruns (alsa s)))),
                        (''delay_frames'', JInt (DelayFrames (p_pcm_delay e) (alsa s)))])]
       @ (if m_bServer s then [(''monitors'', GetMonitorJson (m_pIs12 s))] else []))))))"

definition MetersJson :: "'p app_env \<Rightarrow> 'r Node_scheme \<Rightarrow> json" where
  "MetersJson e s =
    (let db = (\<lambda>m. JArr [JFloat (LeftDb (p_log10 e) m), JFloat (RightDb (p_log10 e) m)])
     in obj [(''meters'', obj [(''rx'', db (rx_meters (receiver s))), (''tx'', db (tx_meters (sender s)))])])"

section \<open>A changed configuration\<close>

definition leg_toggle :: "string \<Rightarrow> bool" where
  "leg_toggle key \<longleftrightarrow> key = ''sender.leg1_enabled'' \<or> key = ''sender.leg2_enabled''"

definition toggle_leg :: "nat \<Rightarrow> ('r ConnectionApi_scheme, unit) act" where
  "toggle_leg i s =
     bindS (evalS (GetValue get_bool (enabled_key i) True (cfg s))) (\<lambda>b. modifyS (\<lambda>s. s\<lparr>sender := SetLegEnabled i b (sender s)\<rparr>)) s"

definition apply_monitor :: "('r Node_scheme, unit) act" where
  "apply_monitor s =
     bindS (evalS (GetValue get_int ''receiver.monitor_left'' (-1) (cfg s))) (\<lambda>l.
     bindS (evalS (GetValue get_int ''receiver.monitor_right'' (-1) (cfg s))) (\<lambda>r.
       modifyS (\<lambda>s. s\<lparr>receiver := SetMonitor l r (receiver s)\<rparr>))) s"

definition open_device :: "'p app_env \<Rightarrow> string \<Rightarrow> ('p, 'r) App_scheme \<Rightarrow> ('p, 'r) App_scheme" where
  "open_device e sDevice s =
     s\<lparr>alsa := snd (AlsaOpen (p_pcm_open e) (p_hw_params e) (p_set_params e) (p_sw_params e) sDevice (alsa s))\<rparr>"

fun apply_changes :: "'p app_env \<Rightarrow> (string \<times> json) list \<Rightarrow> (('p, 'r) App_scheme, unit) act" where
  "apply_changes e [] = returnS ()"
| "apply_changes e ((key, v) # ms) =
     thenS (whenS (key = ''ptp.domain'') (bindS (evalS (get_int v)) (\<lambda>n. modifyS (\<lambda>s. s\<lparr>ptp := SetDomain n (ptp s)\<rparr>)))) (
     thenS (whenS (key = ''receiver.alsa_device'') (bindS (evalS (get_string v)) (\<lambda>d. modifyS (open_device e d)))) (
     thenS (whenS (key = ''receiver.monitor_left'' \<or> key = ''receiver.monitor_right'') apply_monitor)
       (apply_changes e ms)))"

definition on_config :: "'p app_env \<Rightarrow> json \<Rightarrow> (('p, 'r) App_scheme, unit) act" where
  "on_config e jsChanged =
    (if jsize jsChanged \<noteq> 0 \<and> (\<forall>(key, v) \<in> set (jitems jsChanged). leg_toggle key) then
       thenS (toggle_leg 0) (thenS (toggle_leg 1) (modifyS BumpVersion))
     else
       thenS (whenS (\<exists>(key, v) \<in> set (jitems jsChanged). starts_with ''sender.'' key)
                (thenS (ApplySender e) (modifyS BumpVersion)))
         (apply_changes e (jitems jsChanged)))"

section \<open>Start\<close>

text \<open>
  The start of the engine and the node, from the point where the configuration is loaded and the
  PTP client runs (\<open>Ptp_Net\<close>).  An exception here is not caught.
\<close>

definition startup :: "'p app_env \<Rightarrow> (('p, 'r) App_scheme, unit) act" where
  "startup e s =
     bindS (evalS (GetValue get_string ''receiver.alsa_device'' ''default'' (cfg s))) (\<lambda>sDevice.
     thenS (modifyS (open_device e sDevice)) (
     thenS apply_monitor (
     thenS (ApplySender e) (\<lambda>s.
     bindS (evalS (GetValue get_bool ''nmos.enabled'' True (cfg s))) (\<lambda>enabled.
     whenS enabled (
       bindS (evalS (GetValue get_int ''nmos.http_port'' 8080 (cfg s))) (\<lambda>port.
       bindS (evalS (Interfaces (cfg s))) (\<lambda>ifs. (\<lambda>s.
         case node_Start (p_node e) port ifs s of None \<Rightarrow> (Undef, s) | Some (ok, s) \<Rightarrow> (Val (), s)))))) s)))) s"
section \<open>The callbacks leave the documents alone\<close>

lemma Interfaces_total: "\<exists>ifs. Interfaces c = Val ifs \<and> ifs \<noteq> [] \<and> length ifs \<le> 2 \<and> distinct ifs"
proof -
  have p: "pointer ''network.interface_primary'' = Val [''network'', ''interface_primary'']"
    "pointer ''network.interface_secondary'' = Val [''network'', ''interface_secondary'']" by code_simp+
  obtain a b where "GetValue get_string ''network.interface_primary'' ''eth0'' c = Val a"
      "GetValue get_string ''network.interface_secondary'' [] c = Val b"
    using GetValue_string_total [OF p(1)] GetValue_string_total [OF p(2)] by (simp add: is_digit_def) blast
  then show ?thesis by (auto simp: Interfaces_def)
qed

text \<open>The sender has at most the two legs whose enable flags it stores.\<close>

definition tx_ok :: "RtpSender \<Rightarrow> bool" where
  "tx_ok tx \<longleftrightarrow> length (m_abLegEnabled tx) = 2 \<and> length (m_vLegs tx) \<le> 2"

lemma config_legs_length: "config_legs ifs js = Val legs \<Longrightarrow> length legs \<le> 2"
  by (auto simp: config_legs_def split: if_splits)

text \<open>What the program does to the sender and to the receiver, apart from their own threads.\<close>

inductive tx_steps :: "RtpSender \<Rightarrow> RtpSender \<Rightarrow> bool" for tx where
  same: "tx_steps tx tx"
| stop: "tx_steps tx tx1 \<Longrightarrow> tx_steps tx (tx_Stop tx1)"
| switch: "tx_steps tx tx1 \<Longrightarrow> tx_steps tx (SetLegEnabled i b tx1)"
| configure: "tx_steps tx tx1 \<Longrightarrow> length legs \<le> 2 \<Longrightarrow> tx_Configure c ip r legs port pt us src tx1 = Some (ok, tx2) \<Longrightarrow> tx_steps tx tx2"

inductive rx_steps :: "RtpReceiver \<Rightarrow> RtpReceiver \<Rightarrow> bool" for rx where
  same: "rx_steps rx rx"
| stop: "rx_steps rx rx1 \<Longrightarrow> rx_steps rx (rx_Stop rx1)"
| monitor: "rx_steps rx rx1 \<Longrightarrow> rx_steps rx (SetMonitor l r rx1)"
| configure: "rx_steps rx rx1 \<Longrightarrow> rx_Configure f ses ifs d rx1 = Some (ok, rx2) \<Longrightarrow> rx_steps rx rx2"

lemma tx_steps_reachable: "tx_steps tx tx' \<Longrightarrow> \<exists>l. tx_reachable l tx \<Longrightarrow> \<exists>l. tx_reachable l tx'"
  by (induction rule: tx_steps.induct) (blast intro: tx_reachable.intros)+

lemma rx_steps_reachable: "rx_steps rx rx' \<Longrightarrow> \<exists>p. rx_reachable p rx \<Longrightarrow> \<exists>p. rx_reachable p rx'"
  by (induction rule: rx_steps.induct) (blast intro: rx_reachable.intros)+

lemma tx_reachable_ok: "tx_reachable l tx \<Longrightarrow> tx_ok tx"
  using tx_reachable_inv by (auto simp: tx_inv_def tx_ok_def)

text \<open>What the pieces change: \<open>ApplySender\<close> the sender only, the receiver's callback the receiver only.\<close>

lemma keeps_eval: "(\<And>x. m = Val x \<Longrightarrow> keeps P (f x)) \<Longrightarrow> keeps P (bindS (evalS m) f)"
  by (cases m) (simp_all add: keeps_def bindS_def evalS_def)

lemma ApplySender_effect:
  fixes s :: "'r ConnectionApi_scheme"
  shows "\<exists>tx. snd (ApplySender e s) = s\<lparr>sender := tx\<rparr> \<and> tx_steps (sender s) tx"
proof -
  let ?P = "\<lambda>t. \<exists>tx. t = s\<lparr>sender := tx\<rparr> \<and> tx_steps (sender s) tx"
  have stop: "keeps ?P (modifyS (\<lambda>s. s\<lparr>sender := tx_Stop (sender s)\<rparr>))"
    by (intro keeps_modify) (auto intro: tx_steps.stop)
  have conf: "keeps ?P (\<lambda>s. case tx_Configure (p_connect e) (p_ip e) (p_random e) legs port pt us src (sender s) of
       None \<Rightarrow> (Undef, s) | Some (ok, tx) \<Rightarrow> (Val (), s\<lparr>sender := tx\<rparr>))" if "length legs \<le> 2" for legs port pt us src
    using that by (fastforce simp: keeps_def split: option.split intro: tx_steps.configure)
  have "?P s" by (intro exI [of _ "sender s"]) (simp add: tx_steps.same)
  then show ?thesis
    unfolding ApplySender_def
    by (rule keepsD [rotated]) (intro keeps_eval keeps_if stop conf, rule config_legs_length)
qed

lemma onReceiver_effect:
  fixes s :: "'r Node_scheme"
  shows "\<exists>rx. snd (onReceiver e b ses s) = s\<lparr>receiver := rx\<rparr> \<and> rx_steps (receiver s) rx"
proof -
  let ?P = "\<lambda>t. \<exists>rx. t = s\<lparr>receiver := rx\<rparr> \<and> rx_steps (receiver s) rx"
  have s: "?P s" by (intro exI [of _ "receiver s"]) (simp add: rx_steps.same)
  have conf: "keeps ?P (\<lambda>s. case rx_Configure (p_open_leg e) ses ifs n (receiver s) of
       None \<Rightarrow> (Undef, s) | Some (ok, rx) \<Rightarrow> (Val (), s\<lparr>receiver := rx\<rparr>))" for ses ifs n
    by (fastforce simp: keeps_def split: option.split intro: rx_steps.configure)
  show ?thesis
  proof (cases "b \<and> ses \<noteq> None")
    case True
    then obtain x where x: "b" "ses = Some x" by auto
    have "keeps ?P (bindS (evalS m) (\<lambda>ifs. bindS (evalS (k ifs)) (\<lambda>n s. case rx_Configure (p_open_leg e) x ifs n (receiver s) of
       None \<Rightarrow> (Undef, s) | Some (ok, rx) \<Rightarrow> (Val (), s\<lparr>receiver := rx\<rparr>))))" for m k
      by (intro keeps_eval conf)
    from keepsD [OF this s] show ?thesis by (simp only: onReceiver_def x prod.case bool.case option.case)
  next
    case False
    then have "onReceiver e b ses s = (Val (), s\<lparr>receiver := rx_Stop (receiver s)\<rparr>)" by (cases b; cases ses) (simp_all add: onReceiver_def)
    then show ?thesis using rx_steps.stop [OF rx_steps.same] by auto
  qed
qed

text \<open>Everything but the configuration, the sender and the resource version is as before.\<close>

definition sender_side :: "'r ConnectionApi_scheme \<Rightarrow> 'r ConnectionApi_scheme \<Rightarrow> bool" where
  "sender_side s t \<longleftrightarrow> t\<lparr>cfg := cfg s, written := written s, sender := sender s, m_nVersion := m_nVersion s\<rparr> = s
     \<and> tx_steps (sender s) (sender t)"

lemma sender_side_refl [simp]: "sender_side s s"
  by (simp add: sender_side_def tx_steps.same)

lemma tx_steps_trans: "tx_steps b c \<Longrightarrow> tx_steps a b \<Longrightarrow> tx_steps a c"
  by (induction rule: tx_steps.induct) (auto intro: tx_steps.intros)

lemma sender_side_docs: "sender_side s t \<Longrightarrow> docs t = docs s"
  unfolding sender_side_def docs_def by (metis (no_types, lifting) ConnectionApi.select_convs(5-8) ConnectionApi.update_convs(1-4) ConnectionApi.surjective)

lemma sender_side_keeps [keeps_intros]:
  fixes s :: "'r ConnectionApi_scheme"
  shows "keeps (sender_side s) (set_config p v)" "keeps (sender_side s) (ApplySender e)"
proof -
  show "keeps (sender_side s) (set_config p v)"
    by (auto simp: keeps_def set_config_def Let_def case_prod_unfold sender_side_def)
  show "keeps (sender_side s) (ApplySender e)"
  proof (rule keepsI)
    fix t assume t: "sender_side s t"
    obtain tx where "snd (ApplySender e t) = t\<lparr>sender := tx\<rparr>" "tx_steps (sender t) tx" using ApplySender_effect [of e t] by blast
    with t show "sender_side s (snd (ApplySender e t))" by (auto simp: sender_side_def intro: tx_steps_trans)
  qed
qed

lemma sender_side_bump [keeps_intros]:
  fixes s :: "'r Node_scheme"
  shows "keeps (sender_side s) (modifyS BumpVersion)"
  by (rule keeps_modify) (simp add: BumpVersion_def sender_side_def)

lemma onSender_effect: "sender_side s (snd (onSender e b s))"
proof -
  have "keeps (sender_side s) (onSender e b)" unfolding onSender_def by (intro keeps_intros)
  from keepsD [OF this] show ?thesis by simp
qed

lemma callbacks_outside: "outside (onSender e) (onReceiver e :: bool \<Rightarrow> SdpSession option \<Rightarrow> ('r Node_scheme, unit) act)"
proof -
  have "docs (snd (onSender e b s)) = docs s" for b and s :: "'r Node_scheme"
    using onSender_effect by (rule sender_side_docs)
  moreover have "docs (snd (onReceiver e b ses s)) = docs s" for b ses and s :: "'r Node_scheme"
    using onReceiver_effect [of e b ses s] by (elim exE conjE) (simp add: docs_def)
  ultimately show ?thesis by (simp add: outside_def)
qed

section \<open>Connecting\<close>

lemma open_legs_all:
  assumes "\<forall>i m p. 0 \<le> f i m p" "distinct (map fst todo)" "\<forall>(i, sdp) \<in> set todo. i < length legs"
  shows "\<exists>legs'. open_legs f ifs todo legs = (True, legs') \<and> length legs' = length legs
    \<and> (\<forall>(i, sdp) \<in> set todo. leg_sMulticast (legs' ! i) = sMulticast sdp \<and> 0 \<le> nSocket (legs' ! i))
    \<and> (\<forall>i. i \<notin> fst ` set todo \<longrightarrow> legs' ! i = legs ! i)"
  using assms(2,3)
proof (induction todo arbitrary: legs)
  case (Cons x todo)
  obtain i sdp where x: "x = (i, sdp)" by (cases x)
  let ?if = "if i < length ifs \<and> ifs ! i \<noteq> [] then ifs ! i else ifs ! 0"
  let ?leg = "(legs ! i)\<lparr>leg_sInterface := ?if, leg_sMulticast := sMulticast sdp, nReceived := 0, nLost := 0,
    nSocket := f ?if (sMulticast sdp) (SdpLeg.nPort sdp)\<rparr>"
  have s: "\<not> f ?if (sMulticast sdp) (SdpLeg.nPort sdp) < 0" using assms(1) by (simp add: not_less)
  obtain legs' where l: "open_legs f ifs todo (legs[i := ?leg]) = (True, legs')" "length legs' = length legs"
      "\<forall>(i, sdp) \<in> set todo. leg_sMulticast (legs' ! i) = sMulticast sdp \<and> 0 \<le> nSocket (legs' ! i)"
      "\<forall>j. j \<notin> fst ` set todo \<longrightarrow> legs' ! j = legs[i := ?leg] ! j"
    using Cons.IH [of "legs[i := ?leg]"] Cons.prems x by auto
  have "legs' ! i = ?leg" using l(4) Cons.prems x by auto
  moreover have "legs' ! j = legs ! j" if "j \<notin> fst ` set (x # todo)" for j using l(4) that x by auto
  ultimately show ?case using l s x by (simp add: Let_def not_less)
qed simp

lemma read_legs_multicast: "map sMulticast (read_legs s n legs origin ips) = map sMulticast legs"
  by (induction legs arbitrary: n) (simp_all add: read_leg_def)

lemma rx_Configure_starts:
  assumes "rx_inv rx" "\<forall>i m p. 0 \<le> open_leg i m p" "vLegs ses \<noteq> []" "length (vLegs ses) \<le> 2" "ifs \<noteq> []"
    and "frames_per_packet (dPacketTimeMs ses) = Some nFrames"
  shows "\<exists>rx'. rx_Configure open_leg ses ifs nDelay rx = Some (True, rx') \<and> rx_bRun rx' \<and> m_session rx' = ses
    \<and> m_nLegCount rx' = length (vLegs ses) \<and> m_nPlayoutDelayMs rx' = clamp nDelay 2 500
    \<and> (\<forall>i < length (vLegs ses). leg_sMulticast (m_aLegs rx' ! i) = sMulticast (vLegs ses ! i) \<and> 0 \<le> nSocket (m_aLegs rx' ! i))"
proof -
  let ?n = "length (vLegs ses)" and ?todo = "zip [0..<length (vLegs ses)] (vLegs ses)"
  have two: "length (m_aLegs (rx_Stop rx)) = 2" using rx_Stop_inv [OF assms(1)] by (simp add: rx_inv_def)
  have todo: "distinct (map fst ?todo)" "\<forall>(i, sdp) \<in> set ?todo. i < length (m_aLegs (rx_Stop rx))"
    using assms(4) two by (auto dest: set_zip_leftD)
  obtain legs where l: "open_legs open_leg ifs ?todo (m_aLegs (rx_Stop rx)) = (True, legs)"
      "\<forall>(i, sdp) \<in> set ?todo. leg_sMulticast (legs ! i) = sMulticast sdp \<and> 0 \<le> nSocket (legs ! i)"
    using open_legs_all [OF assms(2) todo, of ifs] by blast
  have "(i, vLegs ses ! i) \<in> set ?todo" if "i < ?n" for i using that by (auto simp: set_zip intro!: exI [of _ i])
  with l(2) have m: "leg_sMulticast (legs ! i) = sMulticast (vLegs ses ! i) \<and> 0 \<le> nSocket (legs ! i)" if "i < ?n" for i
    using that by blast
  show ?thesis using assms(3-6) l(1) m by (simp add: rx_Configure_def Let_def)
qed

text \<open>
  Connecting, with the callbacks of the program: in every state reached by requests to the
  connection API, the request to connect to a printed session description leaves the receiver
  running with exactly the printed session, one socket per leg joined to the group of that leg,
  the playout delay of the configuration within its limits, the active document enabled and the
  resource version increased.  The hypotheses are that the sockets open, that the packet time gives
  a size, and that the staged interfaces are texts.
\<close>

lemma connect_configures_receiver:
  fixes s :: "'r Node_scheme"
  assumes "conn_reachable (onSender e) (onReceiver e) s" "rx_inv (receiver s)"
    and "\<forall>leg \<in> set (legs_of (m_jsReceiverStaged s)). \<exists>ip. jfind ''interface_ip'' leg = Some (JStr ip)"
    and "session_ok ses" "plain origin" "origin \<noteq> []" "\<forall>ip \<in> set ips. plain ip \<and> ip \<noteq> []"
    and "frames_per_packet (dPacketTimeMs ses) = Some nFrames" "\<forall>i m p. 0 \<le> p_open_leg e i m p"
    and "GetValue get_int ''receiver.playout_delay_ms'' 20 (cfg s) = Val nDelay"
  shows "\<exists>s'. PatchReceiver nNow vIps (onReceiver e) (connect_patch (GenerateSdp nSessId ses origin ips)) s = (Val (), s')
    \<and> rx_bRun (receiver s') \<and> m_session (receiver s') = ses\<lparr>sName := Trim (sName ses), vLegs := read_legs ses 0 (vLegs ses) origin ips\<rparr>
    \<and> m_nLegCount (receiver s') = length (vLegs ses) \<and> m_nPlayoutDelayMs (receiver s') = clamp nDelay 2 500
    \<and> (\<forall>i < length (vLegs ses). leg_sMulticast (m_aLegs (receiver s') ! i) = sMulticast (vLegs ses ! i) \<and> 0 \<le> nSocket (m_aLegs (receiver s') ! i))
    \<and> jfind ''master_enable'' (m_jsReceiverActive s') = Some (JBool True) \<and> m_nVersion s' = m_nVersion s + 1"
proof -
  let ?ses = "ses\<lparr>sName := Trim (sName ses), vLegs := read_legs ses 0 (vLegs ses) origin ips\<rparr>"
  have inv: "doc_ok (m_jsReceiverStaged s)" "file_ok (m_jsReceiverStaged s)"
    using conn_reachable_inv [OF assms(1) callbacks_outside] by (simp_all add: conn_inv_def)
  obtain staged active where p: "PatchReceiver nNow vIps (onReceiver e) (connect_patch (GenerateSdp nSessId ses origin ips)) s
      = thenS (onReceiver e True (Some ?ses)) (modifyS (\<lambda>s. s\<lparr>m_nVersion := m_nVersion s + 1\<rparr>))
        (s\<lparr>m_jsReceiverStaged := staged, m_jsReceiverActive := active\<rparr>)"
      "jfind ''master_enable'' active = Some (JBool True)"
    using PatchReceiver_connect [OF inv assms(3) parse_printed [OF assms(4-7)]] by blast
  obtain ifs where ifs: "Interfaces (cfg s) = Val ifs" "ifs \<noteq> []" using Interfaces_total by blast
  have len: "length (vLegs ?ses) = length (vLegs ses)" "vLegs ?ses \<noteq> []" "length (vLegs ?ses) \<le> 2"
    using assms(4) read_legs_mids(2) [of ses 0 "vLegs ses" origin ips] by (auto simp: session_ok_def)
  have mc: "sMulticast (vLegs ?ses ! i) = sMulticast (vLegs ses ! i)" if "i < length (vLegs ses)" for i
    using that arg_cong [OF read_legs_multicast [of ses 0 "vLegs ses" origin ips], of "\<lambda>xs. xs ! i"] len(1) by simp
  obtain rx where rx: "rx_Configure (p_open_leg e) ?ses ifs nDelay (receiver s) = Some (True, rx)" "rx_bRun rx" "m_session rx = ?ses"
      "m_nLegCount rx = length (vLegs ses)" "m_nPlayoutDelayMs rx = clamp nDelay 2 500"
      "\<forall>i < length (vLegs ses). leg_sMulticast (m_aLegs rx ! i) = sMulticast (vLegs ses ! i) \<and> 0 \<le> nSocket (m_aLegs rx ! i)"
    using rx_Configure_starts [OF assms(2,9) len(2,3) ifs(2), of nFrames nDelay] assms(8) len(1) mc by auto
  show ?thesis using p ifs rx assms(10) by (simp add: onReceiver_def act_simps)
qed

section \<open>A concrete program\<close>

definition demo_app_env :: "nat app_env" where
  "demo_app_env = \<lparr>p_node = demo_node_env, p_codecs = \<lparr>c_pow = \<lambda>x y. 1, c_mp3 = \<lambda>f. None, c_wav = \<lambda>f. None, c_src = \<lambda>v r n. None\<rparr>,
     p_open_leg = \<lambda>i m p. 5, p_connect = \<lambda>leg port. 6, p_ip = \<lambda>i. ''10.0.0.7'', p_random = 7, p_log10 = \<lambda>x. 0, p_realtime = 0, p_now = 0,
     p_stat = \<lambda>f. None, p_output = \<lambda>c. [], p_carrier = \<lambda>f. 1, p_pcm_open = \<lambda>d. Some 0, p_hw_params = \<lambda>p. (0, p), p_set_params = \<lambda>p. (0, p),
     p_sw_params = \<lambda>p. p, p_pcm_delay = \<lambda>p. (0, 480), p_version = ''1.0'', p_build = ''today'', p_filesDir = ''/audio'', p_webRoot = ''/webui''\<rparr>"

definition demo_app :: "Config \<Rightarrow> nat App" where
  "demo_app c = Web.Web.extend (init_web (init_node c init_sender (init_client [] 0 []) init_receiver)) \<lparr>alsa = init_alsa, ran = []\<rparr>"

lemma demo_app_simps [simp]:
  "cfg (demo_app c) = c" "sender (demo_app c) = init_sender" "receiver (demo_app c) = init_receiver" "m_nVersion (demo_app c) = 0"
  "m_jsReceiverStaged (demo_app c) = receiver_document" "m_jsReceiverActive (demo_app c) = receiver_document" "m_bServer (demo_app c) = False"
  by (simp_all add: demo_app_def init_web_def init_node_def Web.Web.defs Node.Node.defs)

lemma demo_app_reachable: "conn_reachable (onSender e) (onReceiver e) (demo_app c)"
  by (rule conn_reachable.start) (simp add: docs_def demo_app_def init_web_def init_node_def Web.Web.defs Node.Node.defs)

section \<open>Status\<close>

lemma pointer_total:
  assumes "pointer key = Val ts" "\<forall>t \<in> set ts. t \<noteq> [] \<and> \<not> is_digit (hd t)" "\<And>x. get x \<noteq> Undef"
  shows "\<exists>v. GetValue get key d c = Val v"
proof -
  obtain r where "pfind ts (m_json c) = Val r" using pfind_named [OF assms(2)] by blast
  moreover have "\<exists>v. catchO (get x) d = Val v" for x using assms(3) by (cases "get x") simp_all
  ultimately show ?thesis using assms(1) by (cases r) (simp_all add: GetValue_def)
qed

lemma get_never_undefined: "get_double js \<noteq> Undef" "get_bool js \<noteq> Undef"
  by (cases js; simp)+

lemma tx_legs_json_total: "nLeg + length legs \<le> length (m_abLegEnabled tx) \<Longrightarrow> tx_legs_json tx nLeg legs \<noteq> None"
  by (induction tx nLeg legs rule: tx_legs_json.induct) (auto simp: rd_def)

lemma StatusJson_total:
  fixes s :: "('p, 'r) App_scheme"
  assumes "active_readable s" "tx_ok (sender s)"
  shows "\<exists>js. StatusJson e s = Val js"
proof -
  have "tx_legs_json (sender s) 0 (m_vLegs (sender s)) \<noteq> None" using assms(2) by (intro tx_legs_json_total) (simp add: tx_ok_def)
  then obtain tx where "tx_GetStatusJson (p_log10 e) (sender s) = Some tx" by (auto simp: tx_GetStatusJson_def)
  moreover have "pointer ''receiver.gain_db'' = Val [''receiver'', ''gain_db'']" by code_simp
  then obtain d where "GetValue get_double ''receiver.gain_db'' 0 (cfg s) = Val d"
    using pointer_total [of "''receiver.gain_db''" _ get_double 0 "cfg s"] get_never_undefined by (fastforce simp: is_digit_def)
  moreover obtain js where "ReceiverSenderId s = Val js" using ReceiverSenderId_total [OF assms(1)] by blast
  ultimately show ?thesis by (simp add: StatusJson_def node_GetStatusJson_def)
qed

text \<open>
  The status can always be shown: whatever the configuration holds and whatever the
  connection API was asked, the status of the user interface is computed without an exception and
  without reading outside an array, as long as the sender has at most its two legs.  So neither
  the status page nor the loop that pushes it to the clients can stop the program.
\<close>

theorem status_available:
  fixes s :: "('p, 'r) App_scheme"
  assumes "conn_reachable (onSender e) (onReceiver e) s" "tx_ok (sender s)"
  shows "\<exists>js. StatusJson e s = Val js"
  using conn_reachable_readable [OF assms(1) callbacks_outside] assms(2) by (rule StatusJson_total)

theorem status_available_witness: "\<exists>js. StatusJson demo_app_env (demo_app \<lparr>m_json = JStr ''x'', m_sPath = []\<rparr>) = Val js"
  by (rule status_available [OF demo_app_reachable]) (simp add: tx_ok_def init_sender_def)

section \<open>Leg switches\<close>

lemma enabled_key_pointer: "i < 2 \<Longrightarrow> pointer (enabled_key i) = Val [''sender'', if i = 0 then ''leg1_enabled'' else ''leg2_enabled'']"
proof -
  have "pointer ''sender.leg1_enabled'' = Val [''sender'', ''leg1_enabled'']" "pointer ''sender.leg2_enabled'' = Val [''sender'', ''leg2_enabled'']"
    by code_simp+
  then show "i < 2 \<Longrightarrow> ?thesis" by (auto simp: enabled_key_def)
qed

lemma enabled_total: "i < 2 \<Longrightarrow> \<exists>b. GetValue get_bool (enabled_key i) True c = Val b"
  by (rule pointer_total [OF enabled_key_pointer]) (auto simp: is_digit_def get_never_undefined)

lemma toggle_legs:
  assumes "tx_ok (sender s)"
  shows "\<exists>flags. thenS (toggle_leg 0) (thenS (toggle_leg 1) (modifyS BumpVersion)) s
      = (Val (), s\<lparr>sender := (sender s)\<lparr>m_abLegEnabled := flags\<rparr>, m_nVersion := m_nVersion s + 1\<rparr>)
    \<and> length flags = 2 \<and> (\<forall>k < 2. GetValue get_bool (enabled_key k) True (cfg s) = Val (flags ! k))"
proof -
  obtain a b where ab: "GetValue get_bool (enabled_key 0) True (cfg s) = Val a" "GetValue get_bool (enabled_key 1) True (cfg s) = Val b"
    using enabled_total [of 0 "cfg s"] enabled_total [of 1 "cfg s"] by auto
  have "length (m_abLegEnabled (sender s)) = 2" using assms by (simp add: tx_ok_def)
  then have "(m_abLegEnabled (sender s))[0 := a, Suc 0 := b] = [a, b]" by (cases "m_abLegEnabled (sender s)"; cases "tl (m_abLegEnabled (sender s))") auto
  then show ?thesis using ab
    by (intro exI [of _ "[a, b]"]) (auto simp: toggle_leg_def act_simps SetLegEnabled_def BumpVersion_def less_2_cases_iff)
qed

lemma obj_single: "obj [(k, v)] = JObj [(k, v)]"
  by (simp add: obj_def)

lemma pput_member:
  "jfind a js = Some (JObj ms) \<Longrightarrow> \<exists>js'. pput [a, k] v js = (True, js')"
  by (cases js) (simp_all add: as_container_def)



section \<open>A configuration that keeps the program from starting\<close>

lemma pput_two:
  assumes "jfind a js = Some (JObj ms)" "json_ok js" "json_ok v" "pput [a, k] v js = (True, js')"
  shows "olookup [a, k] js' = Some v" "is_object js'" "json_ok js'"
proof -
  obtain m where m: "js = JObj m" using assms(1) by (cases js) simp_all
  have ms: "json_ok (JObj ms)" using jfind_ok assms(1,2) by blast
  have js': "js' = JObj (omap_put a (JObj (omap_put k v ms)) m)" using assms(1,4) m by (simp add: as_container_def)
  have inner: "json_ok (JObj (omap_put k v ms))" by (rule json_ok_put) (use ms assms(3) in auto)
  show "json_ok js'" unfolding js' by (rule json_ok_put) (use inner assms(2) m in auto)
  show "olookup [a, k] js' = Some v" using ms assms(2) m by (simp add: js' map_of_omap_put)
  show "is_object js'" by (simp add: js')
qed

lemma bindS_Val: "fst (bindS m f s) = Val y \<Longrightarrow> \<exists>x s1. m s = (Val x, s1) \<and> fst (f x s1) = Val y"
  by (auto simp: bindS_def split: prod.splits outcome.splits)

lemma thenS_Throw: "m s = (Throw, s') \<Longrightarrow> thenS m n s = (Throw, s')"
  by (simp add: thenS_def bindS_def)

lemma ApplySender_rejects:
  assumes "olookup [''sender'', ''enabled''] (m_json (cfg s)) = Some v" "get_bool v = Throw"
  shows "fst (ApplySender e s) = Throw"
proof -
  obtain sd where sd: "jfind ''sender'' (m_json (cfg s)) = Some sd" "jfind ''enabled'' sd = Some v"
    using assms(1) by (auto split: option.splits)
  then have "is_object (m_json (cfg s))" "is_object sd" by (cases "m_json (cfg s)"; simp) (use sd(2) in \<open>cases sd; simp\<close>)
  then show ?thesis using sd assms(2) by (simp add: ApplySender_def jref_def null_member_def jvalue_def act_simps)
qed

lemma startup_rejects:
  fixes t :: "('p, 'r) App_scheme"
  assumes "\<And>t' :: ('p, 'r) App_scheme. cfg t' = cfg t \<Longrightarrow> fst (ApplySender e t') = Throw"
  shows "fst (startup e t) \<noteq> Val ()"
proof
  assume "fst (startup e t) = Val ()"
  then obtain d t1 t2 n where "modifyS (open_device e d) t = (Val (), t1)" "apply_monitor t1 = (Val (), t2)" "fst (ApplySender e t2) = Val n"
    unfolding startup_def thenS_def by (auto dest!: bindS_Val simp: evalS_def)
  moreover from this have "cfg t2 = cfg t"
    by (auto simp: apply_monitor_def act_simps open_device_def split: outcome.splits)
  ultimately show False using assms [of t2] by simp
qed

text \<open>
  C28. A rejected change of the configuration can keep the program from starting again: when the
  enable flag of the sender is set to something that is not a boolean, the request is answered with
  400, but the value is already in the configuration and in its file; when the program is started
  with that file, merging the defaults keeps the value, and the start ends in an exception that
  nothing catches (or in undefined behaviour before), never normally.
\<close>

theorem rejected_value_is_fatal:
  fixes s t :: "('p, 'r) App_scheme"
  assumes "v_parse (w_node we) sBody = Some (obj [(''sender.enabled'', v)])" "get_bool v = Throw" "\<not> is_object v" "json_ok v"
    and "v_dump (w_node we) (obj [(''error'', JStr (w_what we))]) = Val out"
    and "json_ok (m_json (cfg s))" "jfind ''sender'' (m_json (cfg s)) = Some (JObj ms)" "m_sPath (cfg s) \<noteq> []"
    and "HandleApi we pStatus (Some (on_config e)) pAction ''/api/config'' ''POST'' sBody s = (r, s')"
  shows "r = Val (Reply_Json 400 (obj [(''error'', JStr (w_what we))]))
    \<and> (\<exists>js. written s' = written s @ [(m_sPath (cfg s), js)] \<and> (\<forall>file c t. file (m_sPath (cfg s)) = Some (Some js)
        \<longrightarrow> Load file (m_sPath (cfg s)) = Val c \<longrightarrow> cfg t = c \<longrightarrow> fst (startup e' (t :: ('p, 'r) App_scheme)) \<noteq> Val ()))"
proof -
  have p: "pointer ''sender.enabled'' = Val [''sender'', ''enabled'']" by code_simp
  obtain js where js: "pput [''sender'', ''enabled''] v (m_json (cfg s)) = (True, js)"
    using pput_member [OF assms(7)] by blast
  note look = pput_two [OF assms(7,6,4) js]
  let ?u = "s\<lparr>cfg := (cfg s)\<lparr>m_json := js\<rparr>, written := written s @ [(m_sPath (cfg s), js)]\<rparr>"
  have u: "update_config (obj [(''sender.enabled'', v)]) s = (Val (), ?u)"
    using p js assms(8) by (simp add: update_config_def Update_config_def obj_single jitems_def Let_def Save_def)
  have "on_config e (obj [(''sender.enabled'', v)]) ?u = thenS (thenS (ApplySender e) (modifyS BumpVersion)) (apply_changes e [(''sender.enabled'', v)]) ?u"
    by (simp add: on_config_def obj_single jitems_def leg_toggle_def starts_with_def whenS_def)
  moreover obtain tx where tx: "ApplySender e ?u = (Throw, ?u\<lparr>sender := tx\<rparr>)"
    using ApplySender_rejects [of ?u v e] ApplySender_effect [of e ?u] look assms(2) by (cases "ApplySender e ?u") auto
  ultimately have "on_config e (obj [(''sender.enabled'', v)]) ?u = (Throw, ?u\<lparr>sender := tx\<rparr>)"
    by (simp del: apply_changes.simps add: thenS_Throw [of "thenS (ApplySender e) (modifyS BumpVersion)"] thenS_Throw [of "ApplySender e"])
  then have "HandleApi we pStatus (Some (on_config e)) pAction ''/api/config'' ''POST'' sBody s
      = (Val (Reply_Json 400 (obj [(''error'', JStr (w_what we))])), ?u\<lparr>sender := tx\<rparr>)"
    using assms(1,5) u by (simp add: HandleApi_def try_reply_def act_simps parse_body_def SendJson_def)
  then have r: "r = Val (Reply_Json 400 (obj [(''error'', JStr (w_what we))]))" "s' = ?u\<lparr>sender := tx\<rparr>" using assms(9) by auto
  have fatal: "fst (startup e' t) \<noteq> Val ()" if "Load f (m_sPath (cfg s)) = Val c" "f (m_sPath (cfg s)) = Some (Some js)" "cfg t = c"
    for f c and t :: "('p, 'r) App_scheme"
  proof -
    have merge: "MergeDefaults js Defaults = Val (m_json c)" using that(1,2) by (auto simp: Load_def)
    have d: "json_ok Defaults" "is_object Defaults" by code_simp+
    have "olookup [''sender'', ''enabled''] (m_json c) = Some v"
      using merge_keeps_leaf [OF look(3,2) d merge look(1) assms(3)] .
    then have rej: "fst (ApplySender e' t') = Throw" if "cfg t' = c" for t' :: "('p, 'r) App_scheme"
      using ApplySender_rejects [of t' v e'] that assms(2) by simp
    show ?thesis by (rule startup_rejects) (simp add: rej that(3))
  qed
  show ?thesis
  proof (intro conjI exI [of _ js] allI impI)
    show "r = Val (Reply_Json 400 (obj [(''error'', JStr (w_what we))]))" by (rule r(1))
    show "written s' = written s @ [(m_sPath (cfg s), js)]" by (simp add: r(2))
  qed (rule fatal)
qed

theorem rejected_value_is_fatal_witness:
  "\<exists>r s'. HandleApi (demo_web_env\<lparr>w_node := demo_node_env\<lparr>v_parse := \<lambda>t. Some (obj [(''sender.enabled'', JStr ''yes'')])\<rparr>\<rparr>) None (Some (on_config demo_app_env)) None
      ''/api/config'' ''POST'' ''on'' (demo_app \<lparr>m_json = obj [(''sender'', JObj [])], m_sPath = ''cfg''\<rparr>) = (r, s')
    \<and> r = Val (Reply_Json 400 (obj [(''error'', JStr ''error'')]))
    \<and> (\<exists>js. written s' = [(''cfg'', js)] \<and> (\<forall>file c t. file ''cfg'' = Some (Some js)
        \<longrightarrow> Load file ''cfg'' = Val c \<longrightarrow> cfg t = c \<longrightarrow> fst (startup demo_app_env (t :: nat App)) \<noteq> Val ()))"
proof -
  let ?we = "demo_web_env\<lparr>w_node := demo_node_env\<lparr>v_parse := \<lambda>t. Some (obj [(''sender.enabled'', JStr ''yes'')])\<rparr>\<rparr>"
  let ?s = "demo_app \<lparr>m_json = obj [(''sender'', JObj [])], m_sPath = ''cfg''\<rparr>"
  obtain r s' where h: "HandleApi ?we None (Some (on_config demo_app_env)) None ''/api/config'' ''POST'' ''on'' ?s = (r, s')" by fastforce
  have w: "written ?s = []" "w_what ?we = ''error''"
    by (simp_all add: demo_app_def init_web_def init_node_def Web.Web.defs Node.Node.defs demo_web_env_def)
  show ?thesis
    using rejected_value_is_fatal [OF _ _ _ _ _ _ _ _ h, of "JStr ''yes''" "[]" "[]" demo_app_env] h w
    by (simp add: demo_node_env_def obj_single omap_ok_def)
qed

end
