(* ===== verification/Actions.thy ===== *)
theory Actions
  imports App
begin

text \<open>
  The actions of the user interface, the function \<open>Action\<close> of \<^verbatim>\<open>src/src/main.cpp\<close>: connecting the receiver
  through the node's own connection API, browsing the senders of the registry page by page, and
  reading and changing the network settings with shell commands.  The requests made and the
  commands run are logs of the state.
\<close>

section \<open>Shell commands\<close>

definition RunCommand :: "'p app_env \<Rightarrow> string \<Rightarrow> (('p, 'r) App_scheme, string) act" where
  "RunCommand e sCmd = (\<lambda>s.
     let cmd = c_str (sCmd @ '' 2>&1'') in (Val (p_output e cmd), s\<lparr>ran := ran s @ [cmd]\<rparr>))"

fun nmcli_line :: "string list \<Rightarrow> string \<Rightarrow> string" where
  "nmcli_line [] sKey = []"
| "nmcli_line (sLine # ls) sKey =
     (if starts_with sKey sLine then
        case find_from (CHR '':'') 0 sLine of Some nColon \<Rightarrow> drop (nColon + 1) sLine | None \<Rightarrow> nmcli_line ls sKey
      else nmcli_line ls sKey)"

definition NmcliField :: "string \<Rightarrow> string \<Rightarrow> string" where
  "NmcliField sOutput sKey = nmcli_line (getlines sOutput) sKey"

definition ValidIp4 :: "string \<Rightarrow> bool \<Rightarrow> bool outcome" where
  "ValidIp4 s bWithPrefix =
    (let octets = (\<lambda>ns. \<forall>n \<in> set (take 4 ns). 0 \<le> n \<and> n \<le> 255) in
     if bWithPrefix then
       bindO (sscanf s ''%d.%d.%d.%d/%d%c'') (\<lambda>ns. Val (length ns = 5 \<and> 1 \<le> ns ! 4 \<and> ns ! 4 \<le> 32 \<and> octets ns))
     else bindO (sscanf s ''%d.%d.%d.%d%c'') (\<lambda>ns. Val (length ns = 4 \<and> octets ns)))"

definition SafeShellArg :: "string \<Rightarrow> bool" where
  "SafeShellArg s \<longleftrightarrow> s \<noteq> [] \<and> CHR 0x27 \<notin> set s \<and> CHR 0x0A \<notin> set s"

text \<open>A text between single quotes.\<close>

definition sq :: "string \<Rightarrow> string" where
  "sq x = CHR 0x27 # x @ [CHR 0x27]"

section \<open>Browsing the registry\<close>

text \<open>\<^verbatim>\<open>strtoull\<close> in base ten: the largest number when the text is too large, negated after a minus sign.\<close>

definition strtoull :: "string \<Rightarrow> u64" where
  "strtoull s =
    (let (neg, s) = scan_sign (skip_space s); n = digits_val 0 (takeWhile is_digit s)
     in if 18446744073709551615 < n then - 1 else if neg then - word_of_int n else word_of_int n)"

definition ParseVersion :: "string \<Rightarrow> u64 \<times> u64" where
  "ParseVersion s =
    (case find_from (CHR '':'') 0 s of
       None \<Rightarrow> (0, 0)
     | Some nColon \<Rightarrow> (strtoull (c_str s), strtoull (c_str (drop (nColon + 1) s))))"

text \<open>The loop over a page: the oldest version, the identifiers and resources collected, the number of new ones.\<close>

fun page_items :: "json list \<Rightarrow> string \<times> string list \<times> json list \<times> nat \<Rightarrow> (string \<times> string list \<times> json list \<times> nat) outcome" where
  "page_items [] x = Val x"
| "page_items (js # rest) (sOldest, seen, all, nNew) =
     bindO (jvalue get_string ''version'' [] js) (\<lambda>sVersion.
     bindO (jvalue get_string ''id'' [] js) (\<lambda>sId.
       let sOldest = (if sOldest = [] \<or> ParseVersion sVersion < ParseVersion sOldest then sVersion else sOldest) in
       page_items rest (if sId \<in> set seen then (sOldest, seen, all, nNew) else (sOldest, seen @ [sId], all @ [js], Suc nNew))))"

text \<open>At most \<open>n\<close> further pages; every page has its own readings of the environment.\<close>

fun fetch_pages ::
  "(nat \<Rightarrow> node_env) \<Rightarrow> string \<Rightarrow> nat \<Rightarrow> string \<Rightarrow> string list \<Rightarrow> json list \<Rightarrow> int \<Rightarrow> ('r Node_scheme, json list option \<times> int) act" where
  "fetch_pages es url 0 sQuery seen all st = returnS (Some all, st)"
| "fetch_pages es url (Suc n) sQuery seen all st =
     bindS (HttpJson (es n) ''GET'' sQuery None) (\<lambda>(page, st).
       case page of
         Some (JArr xs) \<Rightarrow>
           bindS (evalS (page_items xs ([], seen, all, 0))) (\<lambda>(sOldest, seen, all, nNew).
             if length xs < 100 \<or> nNew = 0 \<or> sOldest = [] then returnS (Some all, st)
             else fetch_pages es url n (url @ ''?paging.limit=100&paging.until='' @ sOldest) seen all st)
       | _ \<Rightarrow> returnS (if all = [] then None else Some all, st))"

definition FetchAll :: "(nat \<Rightarrow> node_env) \<Rightarrow> string \<Rightarrow> ('r Node_scheme, json list option \<times> int) act" where
  "FetchAll es url = fetch_pages es url 20 (url @ ''?paging.limit=100'') [] [] 0"

fun find_id :: "json list \<Rightarrow> string \<Rightarrow> json outcome" where
  "find_id [] sId = Val (obj [])"
| "find_id (js # rest) sId = bindO (jvalue get_string ''id'' [] js) (\<lambda>x. if x = sId then Val js else find_id rest sId)"

definition find_resource :: "json list option \<Rightarrow> string \<Rightarrow> json outcome" where
  "find_resource jsList sId = (case jsList of None \<Rightarrow> Val (obj []) | Some xs \<Rightarrow> if sId = [] then Val (obj []) else find_id xs sId)"

definition StringOr :: "json \<Rightarrow> string \<Rightarrow> string" where
  "StringOr js sKey = (case jfind sKey js of Some (JStr s) \<Rightarrow> s | _ \<Rightarrow> [])"

text \<open>The entry of a sender, or none when its flow is known not to be audio.\<close>

definition sender_entry :: "json list option \<Rightarrow> json list option \<Rightarrow> string \<Rightarrow> json \<Rightarrow> json option outcome" where
  "sender_entry flows devices self js =
     bindO (find_resource flows (StringOr js ''flow_id'')) (\<lambda>jsFlow.
     bindO (jvalue get_string ''format'' [] jsFlow) (\<lambda>sFormat.
       if sFormat \<noteq> [] \<and> sFormat \<noteq> ''urn:x-nmos:format:audio'' then Val None
       else
         bindO (case jfind ''subscription'' js of Some (JObj m) \<Rightarrow> jvalue get_bool ''active'' True (JObj m) | _ \<Rightarrow> Val True) (\<lambda>bActive.
         bindO (jvalue get_string ''id'' [] js) (\<lambda>sId.
         bindO (jvalue get_string ''label'' [] js) (\<lambda>label.
         bindO (find_resource devices (StringOr js ''device_id'')) (\<lambda>jsDevice.
         bindO (jvalue get_string ''label'' [] jsDevice) (\<lambda>device.
         bindO (jvalue get_string ''media_type'' [] jsFlow) (\<lambda>media.
           Val (Some (obj [(''id'', JStr sId), (''label'', JStr label), (''device'', JStr device), (''media_type'', JStr media),
             (''manifest_href'', JStr (StringOr js ''manifest_href'')), (''active'', JBool bActive), (''is_self'', JBool (sId = self))]))))))))))"

fun sender_list :: "json list option \<Rightarrow> json list option \<Rightarrow> string \<Rightarrow> json list \<Rightarrow> json list outcome" where
  "sender_list flows devices self [] = Val []"
| "sender_list flows devices self (js # rest) =
     bindO (sender_entry flows devices self js) (\<lambda>x.
     bindO (sender_list flows devices self rest) (\<lambda>xs. Val (case x of None \<Rightarrow> xs | Some entry \<Rightarrow> entry # xs)))"

definition nmos_senders :: "'p app_env \<Rightarrow> (('p, 'r) App_scheme, json) act" where
  "nmos_senders e s =
     bindS (evalS (bindO (node_GetStatusJson s) (jvalue get_string ''registry'' []))) (\<lambda>sRegistry.
       if sRegistry = [] then returnS (obj [(''error'', JStr ''not registered with a registry'')])
       else
         bindS (FetchAll (\<lambda>_. p_node e) (sRegistry @ ''/x-nmos/query/v1.3/senders'')) (\<lambda>(jsSenders, st).
           case jsSenders of
             None \<Rightarrow> returnS (obj [(''error'', JStr (''query api not reachable (status '' @ to_string st @ '')''))])
           | Some senders \<Rightarrow>
               bindS (FetchAll (\<lambda>_. p_node e) (sRegistry @ ''/x-nmos/query/v1.3/flows'')) (\<lambda>(flows, _).
               bindS (FetchAll (\<lambda>_. p_node e) (sRegistry @ ''/x-nmos/query/v1.3/devices'')) (\<lambda>(devices, _). (\<lambda>s.
                 bindS (evalS (sender_list flows devices (m_sSenderId s) senders)) (\<lambda>xs.
                   returnS (obj [(''senders'', JArr xs)])) s))))) s"

section \<open>Connecting the receiver\<close>

definition activate_now :: "string \<times> json" where
  "activate_now = (''activation'', obj [(''mode'', JStr ''activate_immediate'')])"

definition sdp_file :: "string \<Rightarrow> string \<times> json" where
  "sdp_file sdp = (''transport_file'', obj [(''type'', JStr ''application/sdp''), (''data'', JStr sdp)])"

definition patch_receiver :: "'p app_env \<Rightarrow> string \<Rightarrow> json \<Rightarrow> (('p, 'r) App_scheme, json) act" where
  "patch_receiver e sBase jsPatch =
     bindS (HttpJson (p_node e) ''PATCH'' sBase (Some jsPatch)) (\<lambda>(_, st). returnS (obj [(''status'', JInt st)]))"

definition receiver_connect :: "'p app_env \<Rightarrow> string \<Rightarrow> json \<Rightarrow> (('p, 'r) App_scheme, json) act" where
  "receiver_connect e sBase jsBody =
     bindS (evalS (jvalue get_string ''sdp'' [] jsBody)) (\<lambda>sdp.
       patch_receiver e sBase (obj [(''master_enable'', JBool True), activate_now, sdp_file sdp]))"

definition receiver_disconnect :: "'p app_env \<Rightarrow> string \<Rightarrow> (('p, 'r) App_scheme, json) act" where
  "receiver_disconnect e sBase =
     patch_receiver e sBase (obj [(''master_enable'', JBool False), (''sender_id'', JNull), activate_now])"

definition sender_sdp :: "'p app_env \<Rightarrow> (('p, 'r) App_scheme, json) act" where
  "sender_sdp e s =
     bindS (evalS (GetValue get_string ''sender.label'' [] (cfg s))) (\<lambda>label. (\<lambda>s.
       case DescribeSession label (GrandmasterId (ptp s)) (sender s) of
         None \<Rightarrow> (Undef, s)
       | Some ses \<Rightarrow>
           if vLegs ses = [] then (Val (obj [(''error'', JStr ''sender is not running'')]), s)
           else let ips = m_vSourceIps (sender s) in
             (Val (obj [(''sdp'', JStr (GenerateSdp (nat (v_time (p_node e))) ses (if ips = [] then ''0.0.0.0'' else ips ! 0) ips))]), s))) s"

definition nmos_connect :: "'p app_env \<Rightarrow> string \<Rightarrow> json \<Rightarrow> (('p, 'r) App_scheme, json) act" where
  "nmos_connect e sBase jsBody =
     bindS (evalS (jvalue get_string ''sender_id'' [] jsBody)) (\<lambda>sSenderId.
     bindS (evalS (jvalue get_string ''manifest_href'' [] jsBody)) (\<lambda>sManifest.
       if \<not> starts_with ''http://'' sManifest then returnS (obj [(''error'', JStr ''sender has no usable manifest url'')])
       else
         bindS (HttpText (p_node e) ''GET'' sManifest []) (\<lambda>(sSdp, st).
           case sSdp of
             Some sdp \<Rightarrow>
               if st \<noteq> 200 \<or> find_str ''m=audio'' sdp = None
               then returnS (obj [(''error'', JStr (''could not fetch sdp from sender (status '' @ to_string st @ '')''))])
               else patch_receiver e sBase (obj [(''master_enable'', JBool True), (''sender_id'', JStr sSenderId), activate_now, sdp_file sdp])
           | None \<Rightarrow> returnS (obj [(''error'', JStr (''could not fetch sdp from sender (status '' @ to_string st @ '')''))]))))"

section \<open>Network settings\<close>

fun interface_status :: "'p app_env \<Rightarrow> nat \<Rightarrow> string list \<Rightarrow> (('p, 'r) App_scheme, json list) act" where
  "interface_status e nRole [] = returnS []"
| "interface_status e nRole (sIf # ifs) =
    (if 2 \<le> nRole then returnS []
     else if \<not> SafeShellArg sIf then interface_status e (Suc nRole) ifs
     else
       bindS (RunCommand e (''nmcli -t -f GENERAL.CONNECTION,IP4.ADDRESS,IP4.GATEWAY device show '' @ sq sIf)) (\<lambda>sInfo.
         let sCon = NmcliField sInfo ''GENERAL.CONNECTION'' in
         bindS (if SafeShellArg sCon
                then bindS (RunCommand e (''nmcli -t -f ipv4.method con show '' @ sq sCon)) (\<lambda>out. returnS (NmcliField out ''ipv4.method''))
                else returnS []) (\<lambda>sMethod.
         bindS (interface_status e (Suc nRole) ifs) (\<lambda>rest.
           returnS (obj [(''role'', JStr ([''amber'', ''blue''] ! nRole)), (''interface'', JStr sIf),
             (''link'', JBool (p_carrier e (''/sys/class/net/'' @ sIf @ ''/carrier'') = 1)), (''connection'', JStr sCon), (''method'', JStr sMethod),
             (''address'', JStr (NmcliField sInfo ''IP4.ADDRESS'')), (''gateway'', JStr (NmcliField sInfo ''IP4.GATEWAY''))] # rest)))))"

definition network_status :: "'p app_env \<Rightarrow> (('p, 'r) App_scheme, json) act" where
  "network_status e s =
     bindS (evalS (Interfaces (cfg s))) (\<lambda>ifs.
     bindS (interface_status e 0 ifs) (\<lambda>xs. returnS (obj [(''interfaces'', JArr xs)]))) s"

definition reject :: "string \<Rightarrow> ('s, json) act" where
  "reject msg = returnS (obj [(''error'', JStr msg)])"

text \<open>The profile of the device, created under the name of its role when there is none.\<close>

definition profile :: "'p app_env \<Rightarrow> nat \<Rightarrow> string \<Rightarrow> (('p, 'r) App_scheme, string) act" where
  "profile e nRole sIf =
     bindS (RunCommand e (''nmcli -t -f GENERAL.CONNECTION device show '' @ sq sIf)) (\<lambda>out.
       let sCon = NmcliField out ''GENERAL.CONNECTION'' in
       if SafeShellArg sCon then returnS sCon
       else let sCon = (if nRole = 0 then ''amber'' else ''blue'') in
         bindS (RunCommand e (''sudo -n nmcli con add type ethernet ifname '' @ sq sIf @ '' con-name '' @ sq sCon)) (\<lambda>_. returnS sCon))"

definition mod_command :: "string \<Rightarrow> string \<Rightarrow> string \<Rightarrow> string \<Rightarrow> string" where
  "mod_command sCon sMethod address gateway =
     ''sudo -n nmcli con mod '' @ sq sCon @ '' ''
     @ (if sMethod = ''dhcp'' then ''ipv4.method auto ipv4.addresses '' @ sq [] @ '' ipv4.gateway '' @ sq []
        else ''ipv4.method manual ipv4.addresses '' @ sq address @ '' ipv4.gateway '' @ sq gateway)"

definition change_profile :: "'p app_env \<Rightarrow> string \<Rightarrow> string \<Rightarrow> string \<Rightarrow> string \<Rightarrow> (('p, 'r) App_scheme, json) act" where
  "change_profile e sCon sMethod address gateway =
     bindS (RunCommand e (mod_command sCon sMethod address gateway)) (\<lambda>sResult.
       if find_str ''Error'' sResult \<noteq> None then reject sResult
       else thenS (modifyS (\<lambda>s. s\<lparr>ran := ran s @ [c_str (''sudo -n nmcli con up '' @ sq sCon @ '' >/dev/null 2>&1 &'')]\<rparr>))
         (returnS (obj [(''ok'', JBool True)])))"

definition network_change :: "'p app_env \<Rightarrow> json \<Rightarrow> string list \<Rightarrow> (('p, 'r) App_scheme, json) act" where
  "network_change e jsBody ifs =
     bindS (evalS (jvalue get_string ''interface'' [] jsBody)) (\<lambda>sIf.
     bindS (evalS (jvalue get_string ''method'' [] jsBody)) (\<lambda>sMethod.
     bindS (evalS (jvalue get_string ''address'' [] jsBody)) (\<lambda>address.
     bindS (evalS (jvalue get_string ''gateway'' [] jsBody)) (\<lambda>gateway.
       let nRole = length (takeWhile (\<lambda>x. x \<noteq> sIf) ifs) in
       if length ifs \<le> nRole \<or> 2 \<le> nRole \<or> \<not> SafeShellArg sIf then reject ''unknown interface''
       else if sMethod \<noteq> ''dhcp'' \<and> sMethod \<noteq> ''static'' then reject ''mode must be dhcp or static''
       else bindS (evalS (if sMethod = ''static'' then ValidIp4 address True else Val True)) (\<lambda>okAddress.
       if \<not> okAddress then reject ''address must be a.b.c.d/prefix''
       else bindS (evalS (if gateway \<noteq> [] then ValidIp4 gateway False else Val True)) (\<lambda>okGateway.
       if \<not> okGateway then reject ''bad gateway''
       else bindS (profile e nRole sIf) (\<lambda>sCon. change_profile e sCon sMethod address gateway)))))))"

definition network_apply :: "'p app_env \<Rightarrow> json \<Rightarrow> (('p, 'r) App_scheme, json) act" where
  "network_apply e jsBody s = bindS (evalS (Interfaces (cfg s))) (network_change e jsBody) s"

section \<open>Dispatch\<close>

definition Action :: "'p app_env \<Rightarrow> string \<Rightarrow> json \<Rightarrow> (('p, 'r) App_scheme, json) act" where
  "Action e sAction jsBody s =
     bindS (evalS (GetValue get_int ''nmos.http_port'' 8080 (cfg s))) (\<lambda>port.
       let sBase = ''http://127.0.0.1:'' @ to_string port @ ''/x-nmos/connection/v1.1/single/receivers/'' @ m_sReceiverId s @ ''/staged'' in
       if sAction = ''receiver-connect'' then receiver_connect e sBase jsBody
       else if sAction = ''receiver-disconnect'' then receiver_disconnect e sBase
       else if sAction = ''sender-sdp'' then sender_sdp e
       else if sAction = ''nmos-senders'' then nmos_senders e
       else if sAction = ''nmos-connect'' then nmos_connect e sBase jsBody
       else if sAction = ''network-status'' then network_status e
       else if sAction = ''network-apply'' then network_apply e jsBody
       else returnS (obj [(''status'', JInt 0)])) s"

section \<open>Commands cannot be injected\<close>

text \<open>
  What a shell sees of a command outside single quotes, \<open>None\<close> when a quote is not closed, in which
  case it reports an error and runs nothing.
\<close>

fun bare :: "bool \<Rightarrow> string \<Rightarrow> string option" where
  "bare quoted [] = (if quoted then None else Some [])"
| "bare quoted (c # cs) =
    (if c = CHR 0x27 then bare (\<not> quoted) cs
     else if quoted then bare True cs else map_option (Cons c) (bare False cs))"

text \<open>The texts the program itself contributes to a command, outside the quoted arguments.\<close>

definition shell_templates :: "string list" where
  "shell_templates =
    [''nmcli -t -f GENERAL.CONNECTION,IP4.ADDRESS,IP4.GATEWAY device show  2>&1'', ''nmcli -t -f ipv4.method con show  2>&1'',
     ''nmcli -t -f GENERAL.CONNECTION device show  2>&1'', ''sudo -n nmcli con add type ethernet ifname  con-name  2>&1'',
     ''sudo -n nmcli con mod  ipv4.method auto ipv4.addresses  ipv4.gateway  2>&1'',
     ''sudo -n nmcli con mod  ipv4.method manual ipv4.addresses  ipv4.gateway  2>&1'', ''sudo -n nmcli con up  >/dev/null 2>&1 &'']"

definition safe_command :: "string \<Rightarrow> bool" where
  "safe_command cmd \<longleftrightarrow> bare False cmd = None \<or> bare False cmd \<in> Some ` set shell_templates"

lemma bare_append:
  "CHR 0x27 \<notin> set x \<Longrightarrow> bare True (x @ r) = bare True r" "CHR 0x27 \<notin> set x \<Longrightarrow> bare False (x @ r) = map_option ((@) x) (bare False r)"
proof -
  have [simp]: "map_option ((@) []) y = y" "map_option ((@) (a # x)) y = map_option (Cons a) (map_option ((@) x) y)" for a x and y :: "string option"
    by (cases y; simp)+
  show "CHR 0x27 \<notin> set x \<Longrightarrow> bare True (x @ r) = bare True r" "CHR 0x27 \<notin> set x \<Longrightarrow> bare False (x @ r) = map_option ((@) x) (bare False r)"
    by (induction x) auto
qed

text \<open>A command is a sequence of fixed texts, each followed by a quoted argument.\<close>

fun command_text :: "(string \<times> string) list \<Rightarrow> string \<Rightarrow> string" where
  "command_text [] t = t"
| "command_text ((l, x) # segs) t = l @ sq x @ command_text segs t"

lemma c_str_append: "c_str (a @ b) = (if CHR 0x00 \<in> set a then c_str a else a @ c_str b)"
  by (induction a) (auto simp: c_str_def)

lemma c_str_bare: "CHR 0x00 \<in> set x \<Longrightarrow> CHR 0x27 \<notin> set (c_str x) \<Longrightarrow> bare True (c_str x) = None"
  using bare_append(1) [of "c_str x" "[]"] by simp

lemma command_bare:
  assumes "\<forall>(l, x) \<in> set segs. CHR 0x27 \<notin> set l \<and> CHR 0x00 \<notin> set l \<and> CHR 0x27 \<notin> set (c_str x)"
    and "CHR 0x27 \<notin> set t" "CHR 0x00 \<notin> set t"
  shows "bare False (c_str (command_text segs t)) \<in> {None, Some (concat (map fst segs) @ t)}"
  using assms(1)
proof (induction segs)
  case Nil
  have "c_str t = t" using c_str_append [of t "[]"] assms(3) by (simp add: c_str_def)
  then show ?case using bare_append(2) [OF assms(2), of "[]"] by simp
next
  case (Cons seg segs)
  obtain l x where seg: "seg = (l, x)" by (cases seg)
  have lx: "CHR 0x27 \<notin> set l" "CHR 0x00 \<notin> set l" "CHR 0x27 \<notin> set (c_str x)" using Cons.prems seg by auto
  show ?case
  proof (cases "CHR 0x00 \<in> set x")
    case True
    then have "c_str (command_text (seg # segs) t) = l @ CHR 0x27 # c_str x"
      using lx(2) c_str_append [of x] by (simp add: seg sq_def c_str_append [of l]) (simp add: c_str_def)
    then show ?thesis using bare_append(2) [OF lx(1)] c_str_bare [OF True lx(3)] by simp
  next
    case False
    then have x: "c_str x = x" using c_str_append [of x "[]"] by (simp add: c_str_def)
    have "c_str (command_text (seg # segs) t) = l @ CHR 0x27 # x @ CHR 0x27 # c_str (command_text segs t)"
      using False lx(2) c_str_append [of x] by (simp add: seg sq_def c_str_append [of l]) (simp add: c_str_def)
    moreover have "bare True (x @ CHR 0x27 # r) = bare False r" for r
      using bare_append(1) [of x "CHR 0x27 # r"] lx(3) x by simp
    ultimately show ?thesis using bare_append(2) [OF lx(1)] Cons seg by auto
  qed
qed

text \<open>An address that passes the check has no quote before its end.\<close>

lemma scan_int_rest:
  assumes "scan_int s = Val (Some (n, r))" "c \<in> set s" "\<not> is_digit c" "\<not> is_space c" "c \<noteq> CHR ''-''" "c \<noteq> CHR ''+''"
  shows "c \<in> set r"
proof -
  obtain neg u where u: "scan_sign (skip_space s) = (neg, u)" by fastforce
  have r: "r = dropWhile is_digit u" using assms(1) u by (auto simp: scan_int_def Let_def split: if_splits)
  have "c \<in> set (skip_space s)" using assms(2,4) unfolding skip_space_def
    by (metis (mono_tags, lifting) Un_iff set_append set_takeWhileD takeWhile_dropWhile_id)
  moreover have "scan_sign x = (neg, u) \<Longrightarrow> c \<in> set x \<Longrightarrow> c \<in> set u" for x
    using assms(5,6) by (cases x) (auto simp: scan_sign_def split: if_splits)
  ultimately have "c \<in> set u" using u by blast
  then show ?thesis using assms(3) unfolding r by (metis (mono_tags, lifting) Un_iff set_append set_takeWhileD takeWhile_dropWhile_id)
qed

lemma scan_all_consumed:
  assumes "scan (ds @ [Character]) s = Val ns" "length ns = length (filter (\<lambda>d. d = Decimal) ds)" "ds \<noteq> [] \<longrightarrow> last ds = Decimal"
    and "\<forall>d \<in> set ds. d = Decimal \<or> (\<exists>x. d = Literal x \<and> x \<noteq> c)" "\<not> is_digit c" "\<not> is_space c" "c \<noteq> CHR ''-''" "c \<noteq> CHR ''+''"
  shows "c \<notin> set s"
  using assms(1-4)
proof (induction ds arbitrary: s ns)
  case Nil
  then show ?case by (auto split: list.splits)
next
  case (Cons d ds)
  show ?case
  proof (cases "d = Decimal")
    case True
    obtain n r ms where r: "scan_int s = Val (Some (n, r))" "scan (ds @ [Character]) r = Val ms" "ns = n # ms"
      using Cons.prems(1,2) True by (auto split: outcome.splits option.splits)
    have "ds \<noteq> [] \<longrightarrow> last ds = Decimal" using Cons.prems(3) by auto
    then have "c \<notin> set r" using Cons.IH [OF r(2)] Cons.prems True r(3) by auto
    then show ?thesis using scan_int_rest [OF r(1) _ assms(5-8)] by blast
  next
    case False
    then obtain x where x: "d = Literal x" "x \<noteq> c" using Cons.prems(4) by auto
    then have ds: "ds \<noteq> []" "last ds = Decimal" using Cons.prems(3) by (auto split: if_splits)
    then have "filter (\<lambda>d. d = Decimal) ds \<noteq> []" by (metis (mono_tags, lifting) filter_empty_conv last_in_set)
    then have "ns \<noteq> []" using Cons.prems(2) False by auto
    then obtain r where "s = x # r" "scan (ds @ [Character]) r = Val ns" using Cons.prems(1) x by (auto split: list.splits if_splits)
    then show ?thesis using Cons.IH Cons.prems ds x by auto
  qed
qed

lemma ValidIp4_no_quote: "ValidIp4 s b = Val True \<Longrightarrow> CHR 0x27 \<notin> set (c_str s)"
proof -
  assume v: "ValidIp4 s b = Val True"
  define ds where "ds = (if b then [Decimal, Literal CHR ''.'', Decimal, Literal CHR ''.'', Decimal, Literal CHR ''.'', Decimal, Literal CHR ''/'', Decimal]
    else [Decimal, Literal CHR ''.'', Decimal, Literal CHR ''.'', Decimal, Literal CHR ''.'', Decimal])"
  have "format ''%d.%d.%d.%d/%d%c'' = [Decimal, Literal CHR ''.'', Decimal, Literal CHR ''.'', Decimal, Literal CHR ''.'', Decimal, Literal CHR ''/'', Decimal, Character]"
    "format ''%d.%d.%d.%d%c'' = [Decimal, Literal CHR ''.'', Decimal, Literal CHR ''.'', Decimal, Literal CHR ''.'', Decimal, Character]" by code_simp+
  then obtain ns where "scan (ds @ [Character]) (c_str s) = Val ns" "length ns = length (filter (\<lambda>d. d = Decimal) ds)"
    using v by (cases b) (auto simp: ValidIp4_def sscanf_def ds_def)
  then show ?thesis
    by (rule scan_all_consumed) (auto simp: ds_def is_digit_def is_space_def)
qed

text \<open>An operation that makes requests and runs safe commands, and changes nothing else.\<close>

definition asks :: "('p, 'r) App_scheme \<Rightarrow> ('p, 'r) App_scheme \<Rightarrow> bool" where
  "asks s t \<longleftrightarrow> (\<exists>rqs new. t = s\<lparr>requests := rqs, ran := ran s @ new\<rparr> \<and> (\<forall>cmd \<in> set new. safe_command cmd))"

definition safely :: "(('p, 'r) App_scheme, 'a) act \<Rightarrow> bool" where
  "safely m \<longleftrightarrow> (\<forall>s. keeps (asks s) m)"

named_theorems safely_intros \<open>operations that run safe commands only\<close>

lemma asks_refl: "asks s s"
  unfolding asks_def by (rule exI [of _ "requests s"], rule exI [of _ "[]"]) simp

lemma asks_trans: "asks s t \<Longrightarrow> asks t u \<Longrightarrow> asks s u"
  unfolding asks_def by (elim exE conjE, rule_tac x = rqsa in exI, rule_tac x = "new @ newa" in exI) auto

lemma safelyI: "(\<And>s. asks s (snd (m s))) \<Longrightarrow> safely m"
  unfolding safely_def by (intro allI keepsI) (blast intro: asks_trans)

lemma safelyD: "safely m \<Longrightarrow> asks s (snd (m s))"
  unfolding safely_def using keepsD [of "asks s" m s] asks_refl by blast

lemma safely_requests: "(\<And>s. \<exists>rqs. snd (m s) = s\<lparr>requests := rqs\<rparr>) \<Longrightarrow> safely m"
proof (rule safelyI)
  fix s
  assume "\<And>s. \<exists>rqs. snd (m s) = s\<lparr>requests := rqs\<rparr>"
  then obtain rqs where "snd (m s) = s\<lparr>requests := rqs\<rparr>" by blast
  then show "asks s (snd (m s))" unfolding asks_def by (intro exI [of _ rqs] exI [of _ "[]"]) simp
qed

lemma safely_same: "(\<And>s. snd (m s) = s) \<Longrightarrow> safely m"
  by (rule safelyI) (simp add: asks_refl)

lemma safely_bind [safely_intros]: "safely m \<Longrightarrow> (\<And>x. safely (f x)) \<Longrightarrow> safely (bindS m f)"
  unfolding safely_def by (blast intro: keeps_bind)

lemma safely_eval: "(\<And>x. m = Val x \<Longrightarrow> safely (f x)) \<Longrightarrow> safely (bindS (evalS m) f)"
  unfolding safely_def by (blast intro: keeps_eval)

lemma safely_then [safely_intros]: "safely m \<Longrightarrow> safely n \<Longrightarrow> safely (thenS m n)"
  unfolding thenS_def by (rule safely_bind)

lemma safely_if [safely_intros]: "(b \<Longrightarrow> safely m) \<Longrightarrow> (\<not> b \<Longrightarrow> safely n) \<Longrightarrow> safely (if b then m else n)"
  by simp

lemma safely_cases [safely_intros]:
  "(\<And>a b. safely (f a b)) \<Longrightarrow> safely (case p of (a, b) \<Rightarrow> f a b)"
  "safely m \<Longrightarrow> (\<And>x. safely (g x)) \<Longrightarrow> safely (case opt of None \<Rightarrow> m | Some x \<Rightarrow> g x)"
  by (cases p, simp) (cases opt, simp_all)

lemma safely_pointwise: "(\<And>s. \<exists>m. safely m \<and> n s = m s) \<Longrightarrow> safely n"
  unfolding safely_def keeps_def by metis

lemma safely_simple [safely_intros]: "safely (evalS x)" "safely (returnS y)" "safely (reject msg)"
  by (rule safely_same, simp add: act_simps reject_def)+

lemma safely_HttpText [safely_intros]:
  "safely (HttpText ne sMethod url body :: (('p, 'r) App_scheme, string option \<times> int) act)"
proof (rule safely_requests)
  fix s :: "('p, 'r) App_scheme"
  show "\<exists>rqs. snd (HttpText ne sMethod url body s) = s\<lparr>requests := rqs\<rparr>"
    using HttpText_state [of ne sMethod url body s] by (cases "HttpText ne sMethod url body s") auto
qed

lemma safely_HttpJson [safely_intros]: "safely (HttpJson ne sMethod url body)"
  unfolding HttpJson_def by (intro safely_intros)

lemma safely_fetch [safely_intros]: "safely (FetchAll es url)"
proof -
  have arr: "safely (case page of Some (JArr xs) \<Rightarrow> m xs | _ \<Rightarrow> n)" if "\<And>xs. safely (m xs)" "safely n"
    for page and m :: "json list \<Rightarrow> (('p, 'r) App_scheme, json list option \<times> int) act" and n
    using that by (simp split: option.split json.split)
  have "safely (fetch_pages es url n sQuery seen all st :: (('p, 'r) App_scheme, json list option \<times> int) act)" for n sQuery seen all st
    by (induction n arbitrary: sQuery seen all st) (simp_all only: fetch_pages.simps, intro safely_intros, (intro safely_intros arr | assumption)+)
  then show ?thesis unfolding FetchAll_def .
qed

text \<open>The commands.\<close>

lemma safe_commandI:
  assumes "cmd = command_text segs t" "concat (map fst segs) @ t \<in> set shell_templates"
    and "\<forall>(l, x) \<in> set segs. CHR 0x27 \<notin> set l \<and> CHR 0x00 \<notin> set l \<and> CHR 0x27 \<notin> set (c_str x)" "CHR 0x27 \<notin> set t" "CHR 0x00 \<notin> set t"
  shows "safe_command (c_str cmd)"
  using command_bare [OF assms(3-5)] assms(1,2) by (auto simp: safe_command_def)

lemma safe_arg: "SafeShellArg x \<Longrightarrow> CHR 0x27 \<notin> set (c_str x)"
  by (auto simp: SafeShellArg_def c_str_def dest: set_takeWhileD)

lemma safe_commands:
  assumes "SafeShellArg x"
  shows "safe_command (c_str ((''nmcli -t -f GENERAL.CONNECTION,IP4.ADDRESS,IP4.GATEWAY device show '' @ sq x) @ '' 2>&1''))"
    "safe_command (c_str ((''nmcli -t -f ipv4.method con show '' @ sq x) @ '' 2>&1''))"
    "safe_command (c_str ((''nmcli -t -f GENERAL.CONNECTION device show '' @ sq x) @ '' 2>&1''))"
    "SafeShellArg y \<Longrightarrow> safe_command (c_str ((''sudo -n nmcli con add type ethernet ifname '' @ sq x @ '' con-name '' @ sq y) @ '' 2>&1''))"
    "safe_command (c_str (''sudo -n nmcli con up '' @ sq x @ '' >/dev/null 2>&1 &''))"
proof -
  note x = safe_arg [OF assms]
  show "safe_command (c_str ((''nmcli -t -f GENERAL.CONNECTION,IP4.ADDRESS,IP4.GATEWAY device show '' @ sq x) @ '' 2>&1''))"
    by (rule safe_commandI [where segs = "[(''nmcli -t -f GENERAL.CONNECTION,IP4.ADDRESS,IP4.GATEWAY device show '', x)]" and t = "'' 2>&1''"])
      (simp_all add: shell_templates_def x)
  show "safe_command (c_str ((''nmcli -t -f ipv4.method con show '' @ sq x) @ '' 2>&1''))"
    by (rule safe_commandI [where segs = "[(''nmcli -t -f ipv4.method con show '', x)]" and t = "'' 2>&1''"]) (simp_all add: shell_templates_def x)
  show "safe_command (c_str ((''nmcli -t -f GENERAL.CONNECTION device show '' @ sq x) @ '' 2>&1''))"
    by (rule safe_commandI [where segs = "[(''nmcli -t -f GENERAL.CONNECTION device show '', x)]" and t = "'' 2>&1''"]) (simp_all add: shell_templates_def x)
  show "SafeShellArg y \<Longrightarrow> safe_command (c_str ((''sudo -n nmcli con add type ethernet ifname '' @ sq x @ '' con-name '' @ sq y) @ '' 2>&1''))"
    by (rule safe_commandI [where segs = "[(''sudo -n nmcli con add type ethernet ifname '', x), ('' con-name '', y)]" and t = "'' 2>&1''"])
      (simp_all add: shell_templates_def x safe_arg)
  show "safe_command (c_str (''sudo -n nmcli con up '' @ sq x @ '' >/dev/null 2>&1 &''))"
    by (rule safe_commandI [where segs = "[(''sudo -n nmcli con up '', x)]" and t = "'' >/dev/null 2>&1 &''"]) (simp_all add: shell_templates_def x)
qed

lemma safe_mod_command:
  assumes "SafeShellArg x" "m = ''static'' \<Longrightarrow> CHR 0x27 \<notin> set (c_str a)" "CHR 0x27 \<notin> set (c_str g)" "m = ''dhcp'' \<or> m = ''static''"
  shows "safe_command (c_str (mod_command x m a g @ '' 2>&1''))"
proof (cases "m = ''dhcp''")
  case True
  show ?thesis
    by (rule safe_commandI [where segs = "[(''sudo -n nmcli con mod '', x), ('' ipv4.method auto ipv4.addresses '', []), ('' ipv4.gateway '', [])]" and t = "'' 2>&1''"])
      (simp_all add: mod_command_def True shell_templates_def safe_arg [OF assms(1)], simp add: c_str_def)
next
  case False
  then show ?thesis using assms(4)
    by (intro safe_commandI [where segs = "[(''sudo -n nmcli con mod '', x), ('' ipv4.method manual ipv4.addresses '', a), ('' ipv4.gateway '', g)]" and t = "'' 2>&1''"])
      (simp_all add: mod_command_def shell_templates_def safe_arg [OF assms(1)] assms(2,3))
qed

lemma safely_RunCommand [safely_intros]: "safe_command (c_str (cmd @ '' 2>&1'')) \<Longrightarrow> safely (RunCommand e cmd)"
proof (rule safelyI)
  fix s :: "('a, 'b) App_scheme"
  assume "safe_command (c_str (cmd @ '' 2>&1''))"
  then show "asks s (snd (RunCommand e cmd s))"
    unfolding asks_def RunCommand_def Let_def by (intro exI [of _ "requests s"] exI [of _ "[c_str (cmd @ '' 2>&1'')]"]) simp
qed

lemma safely_interface_status: "safely (interface_status e n ifs)"
  by (induction e n ifs rule: interface_status.induct) (simp_all only: interface_status.simps Let_def, (intro safely_intros safe_commands | simp)+)

lemma safely_profile: "SafeShellArg sIf \<Longrightarrow> safely (profile e nRole sIf)"
  unfolding profile_def Let_def by (intro safely_intros safe_commands) (simp_all add: SafeShellArg_def)

lemma profile_safe_name:
  assumes "profile e nRole sIf s = (Val sCon, s')"
  shows "SafeShellArg sCon"
  using assms by (auto simp: profile_def act_simps RunCommand_def Let_def SafeShellArg_def split: if_splits)

lemma safely_change_profile:
  assumes "SafeShellArg x" "m = ''static'' \<Longrightarrow> CHR 0x27 \<notin> set (c_str a)" "CHR 0x27 \<notin> set (c_str g)" "m = ''dhcp'' \<or> m = ''static''"
  shows "safely (change_profile e x m a g)"
proof -
  have "safely (modifyS (\<lambda>s :: ('p, 'r) App_scheme. s\<lparr>ran := ran s @ [c_str (''sudo -n nmcli con up '' @ sq x @ '' >/dev/null 2>&1 &'')]\<rparr>))"
  proof (rule safelyI)
    fix s :: "('p, 'r) App_scheme"
    show "asks s (snd (modifyS (\<lambda>s. s\<lparr>ran := ran s @ [c_str (''sudo -n nmcli con up '' @ sq x @ '' >/dev/null 2>&1 &'')]\<rparr>) s))"
      using safe_commands(5) [OF assms(1)] unfolding asks_def modifyS_def
      by (intro exI [of _ "requests s"] exI [of _ "[c_str (''sudo -n nmcli con up '' @ sq x @ '' >/dev/null 2>&1 &'')]"]) simp
  qed
  then show ?thesis unfolding change_profile_def by (intro safely_intros safe_mod_command assms)
qed

lemma safely_result:
  assumes "safely m" "\<And>s x s'. m s = (Val x, s') \<Longrightarrow> safely (f x)"
  shows "safely (bindS m f)"
proof (rule safelyI)
  fix s
  obtain r s1 where m: "m s = (r, s1)" by fastforce
  have s1: "asks s s1" using safelyD [OF assms(1), of s] m by simp
  show "asks s (snd (bindS m f s))"
  proof (cases r)
    case (Val x)
    then have "asks s1 (snd (f x s1))" using assms(2) m safelyD by blast
    then show ?thesis using m Val asks_trans [OF s1] by (simp add: bindS_def)
  qed (use m s1 in \<open>simp_all add: bindS_def\<close>)
qed

lemma safely_network_change: "safely (network_change e jsBody ifs)"
proof -
  have gw: "CHR 0x27 \<notin> set (c_str g)" if "(if g \<noteq> [] then ValidIp4 g False else Val True) = Val ok" "ok" for g ok
    using that ValidIp4_no_quote by (cases "g = []") (auto simp: c_str_def)
  have ad: "CHR 0x27 \<notin> set (c_str a)" if "(if m = ''static'' then ValidIp4 a True else Val True) = Val ok" "ok" "m = ''static''" for a m ok
    using that ValidIp4_no_quote by auto
  show ?thesis
    unfolding network_change_def Let_def
    by (intro safely_eval safely_if safely_simple safely_result safely_profile safely_change_profile)
      (erule profile_safe_name | (erule ad, simp, assumption) | (erule gw, simp) | simp only: de_Morgan_disj not_not | simp only: de_Morgan_conj not_not)+
qed

lemma safely_network_apply: "safely (network_apply e jsBody)"
proof (rule safely_pointwise)
  fix s :: "('a, 'b) App_scheme"
  show "\<exists>m. safely m \<and> network_apply e jsBody s = m s"
    by (intro exI [of _ "bindS (evalS (Interfaces (cfg s))) (network_change e jsBody)"] conjI safely_intros safely_network_change)
      (simp add: network_apply_def)
qed

lemma safely_action:
  fixes e :: "'p app_env"
  shows "safely (Action e sAction jsBody :: (('p, 'r) App_scheme, json) act)"
proof -
  have status: "safely (network_status e :: (('p, 'r) App_scheme, json) act)"
    by (rule safely_pointwise, rule exI, rule conjI [rotated], rule network_status_def) (intro safely_intros safely_interface_status)
  have sdp: "safely (sender_sdp e :: (('p, 'r) App_scheme, json) act)"
  proof (rule safely_same)
    fix s :: "('p, 'r) App_scheme"
    show "snd (sender_sdp e s) = s"
      by (cases "GetValue get_string ''sender.label'' [] (cfg s)") (simp_all add: sender_sdp_def act_simps Let_def split: option.split)
  qed
  have entries: "safely (\<lambda>s :: ('p, 'r) App_scheme. bindS (evalS (sender_list flows devices (m_sSenderId s) senders)) (\<lambda>xs. returnS (obj [(''senders'', JArr xs)])) s)"
    for flows devices senders
    by (rule safely_pointwise, rule exI, rule conjI [rotated], rule refl) (intro safely_intros)
  have browse: "safely (nmos_senders e :: (('p, 'r) App_scheme, json) act)"
    by (rule safely_pointwise, rule exI, rule conjI [rotated], rule nmos_senders_def) (intro safely_intros entries)
  have patch: "safely (patch_receiver e sBase js :: (('p, 'r) App_scheme, json) act)" for sBase js
    unfolding patch_receiver_def by (intro safely_intros)
  show ?thesis
    by (rule safely_pointwise, rule exI, rule conjI [rotated], rule Action_def, unfold Let_def receiver_connect_def receiver_disconnect_def nmos_connect_def)
      (intro safely_intros status sdp browse patch safely_network_apply)
qed

text \<open>
  C6. No shell injection: whatever an action of the user interface is asked to do, with whatever
  configuration and whatever earlier commands printed, every command it hands to the shell is,
  outside single quotes, one of seven fixed texts of the program; everything that comes from the
  request, the configuration or a command's output stands inside quotes.  The only other case is
  a command with an unclosed quote (an argument with a zero byte cuts it off), which the shell
  refuses.  Beyond commands and HTTP requests an action changes nothing.
\<close>

theorem no_shell_injection:
  fixes s :: "('p, 'r) App_scheme"
  shows "\<exists>rqs new. snd (Action e sAction jsBody s) = s\<lparr>requests := rqs, ran := ran s @ new\<rparr>
    \<and> (\<forall>cmd \<in> set new. bare False cmd = None \<or> bare False cmd \<in> Some ` set shell_templates)"
  using safelyD [OF safely_action, of s e sAction jsBody] by (simp add: asks_def safe_command_def)

theorem no_shell_injection_witness:
  "\<exists>rqs new. snd (Action demo_app_env ''network-status'' (obj []) (demo_app \<lparr>m_json = JNull, m_sPath = []\<rparr>))
      = (demo_app \<lparr>m_json = JNull, m_sPath = []\<rparr>)\<lparr>requests := rqs, ran := ran (demo_app \<lparr>m_json = JNull, m_sPath = []\<rparr>) @ new\<rparr>
    \<and> (\<forall>cmd \<in> set new. bare False cmd = None \<or> bare False cmd \<in> Some ` set shell_templates)"
  by (rule no_shell_injection)

section \<open>Paging ends\<close>

definition resource_id :: "json \<Rightarrow> string" where
  "resource_id js = (case jvalue get_string ''id'' [] js of Val x \<Rightarrow> x | _ \<Rightarrow> [])"

lemma page_items_collect:
  assumes "page_items xs (old, seen, all, n) = Val (old', seen', all', n')" "map resource_id all = seen" "distinct seen"
  shows "map resource_id all' = seen' \<and> distinct seen'"
  using assms
proof (induction xs "(old, seen, all, n)" arbitrary: old seen all n rule: page_items.induct)
  case (2 js rest old seen all n)
  obtain v i where vi: "jvalue get_string ''version'' [] js = Val v" "jvalue get_string ''id'' [] js = Val i" using "2.prems"(1) by auto
  have "resource_id js = i" using vi(2) by (simp add: resource_id_def)
  then show ?case using 2 vi by (cases "i \<in> set seen") (auto simp: Let_def split: if_splits)
qed simp

definition asked :: "'r Node_scheme \<Rightarrow> nat \<Rightarrow> 'r Node_scheme \<Rightarrow> bool" where
  "asked s n t \<longleftrightarrow> (\<exists>rs. t = s\<lparr>requests := requests s @ rs\<rparr> \<and> length rs \<le> n \<and> (\<forall>rq \<in> fst ` set rs. rq_method rq = ''GET''))"

lemma asked_trans: "asked s m t \<Longrightarrow> asked t n u \<Longrightarrow> asked s (m + n) u"
  unfolding asked_def by (elim exE conjE, rule_tac x = "rs @ rsa" in exI) (auto simp: ball_Un image_Un)

lemma asked_refl: "asked s n s"
  unfolding asked_def by (intro exI [of _ "[]"]) simp

lemma asked_one: "rq_method rq = ''GET'' \<Longrightarrow> asked s 1 (s\<lparr>requests := requests s @ [(rq, st)]\<rparr>)"
  unfolding asked_def by (intro exI [of _ "[(rq, st)]"]) simp

lemma HttpJson_asked: "asked s 1 (snd (HttpJson e ''GET'' url None s))"
proof -
  have "asked s 1 (snd (HttpText e ''GET'' url body s))" for body
    by (cases "ParseUrl url") (simp_all add: HttpText_def act_simps Let_def case_prod_unfold asked_refl asked_one [simplified] split: option.split)
  then show ?thesis
    by (simp add: HttpJson_def act_simps case_prod_unfold split: outcome.split)
qed

lemma fetch_pages_end:
  assumes "fetch_pages es url n sQuery seen all st s = (r, s')" "map resource_id all = seen" "distinct seen"
  shows "asked s n s' \<and> (\<forall>all' st'. r = Val (Some all', st') \<longrightarrow> distinct (map resource_id all'))"
  using assms
proof (induction n arbitrary: sQuery seen all st s)
  case 0
  then show ?case by (auto simp: returnS_def asked_refl)
next
  case (Suc n)
  obtain o1 s1 where h: "HttpJson (es n) ''GET'' sQuery None s = (o1, s1)" by fastforce
  then have a1: "asked s 1 s1" using HttpJson_asked [of s "es n" sQuery] by simp
  then have stop: "asked s (Suc n) s1" using asked_trans [OF a1 asked_refl [of s1 n]] by simp
  show ?case
  proof (cases "\<exists>xs st. o1 = Val (Some (JArr xs), st)")
    case True
    then obtain xs st1 where o1: "o1 = Val (Some (JArr xs), st1)" by blast
    show ?thesis
    proof (cases "page_items xs ([], seen, all, 0)")
      case (Val x)
      obtain old seen' all' nNew where x: "x = (old, seen', all', nNew)" by (cases x)
      note c = page_items_collect [OF Val [unfolded x] Suc.prems(2,3)]
      show ?thesis
      proof (cases "length xs < 100 \<or> nNew = 0 \<or> old = []")
        case True
        then have "r = Val (Some all', st1)" "s' = s1" using Suc.prems(1) h o1 Val x by (auto simp: act_simps)
        then show ?thesis using stop c by auto
      next
        case False
        then have "fetch_pages es url n (url @ ''?paging.limit=100&paging.until='' @ old) seen' all' st1 s1 = (r, s')"
          using Suc.prems(1) h o1 Val x by (simp add: act_simps)
        from Suc.IH [OF this] c asked_trans [OF a1, of n s'] show ?thesis by auto
      qed
    qed (use Suc.prems(1) h o1 stop in \<open>auto simp: act_simps\<close>)
  next
    case False
    then have "s' = s1 \<and> (\<forall>all' st'. r = Val (Some all', st') \<longrightarrow> all' = all)"
      using Suc.prems(1) h by (cases o1) (auto simp: act_simps split: option.splits json.splits if_splits prod.splits)
    then show ?thesis using stop Suc.prems(2,3) by auto
  qed
qed

text \<open>
  C24. Browsing ends: whatever the registry answers, page by page, the collection of a resource
  type makes at most 20 requests, all of them GET, and changes nothing else; and no two of the
  resources it returns have the same identifier, however often the registry repeats them.
\<close>

theorem FetchAll_ends:
  "let (r, s') = FetchAll es url s
   in (\<exists>rs. s' = s\<lparr>requests := requests s @ rs\<rparr> \<and> length rs \<le> 20 \<and> (\<forall>rq \<in> fst ` set rs. rq_method rq = ''GET''))
      \<and> (\<forall>all st. r = Val (Some all, st) \<longrightarrow> distinct (map resource_id all))"
proof -
  obtain r s' where f: "FetchAll es url s = (r, s')" by fastforce
  from fetch_pages_end [OF this [unfolded FetchAll_def]] show ?thesis by (simp add: f asked_def)
qed

theorem FetchAll_ends_witness:
  "let (r, s') = FetchAll (\<lambda>_. demo_node_env) ''http://r:80/x'' demo_node
   in (\<exists>rs. s' = demo_node\<lparr>requests := requests demo_node @ rs\<rparr> \<and> length rs \<le> 20 \<and> (\<forall>rq \<in> fst ` set rs. rq_method rq = ''GET''))
      \<and> (\<forall>all st. r = Val (Some all, st) \<longrightarrow> distinct (map resource_id all))"
  by (rule FetchAll_ends)

text \<open>The list of senders.\<close>

definition maybe_audio :: "json list option \<Rightarrow> json \<Rightarrow> bool" where
  "maybe_audio flows js \<longleftrightarrow>
     (case bindO (find_resource flows (StringOr js ''flow_id'')) (jvalue get_string ''format'' []) of
        Val f \<Rightarrow> f = [] \<or> f = ''urn:x-nmos:format:audio'' | _ \<Rightarrow> False)"

lemma sender_entry_eq:
  assumes "sender_entry flows devices self js = Val x"
  shows "if maybe_audio flows js then \<exists>entry. x = Some entry \<and> jfind ''id'' entry = Some (JStr (resource_id js))
      \<and> jfind ''is_self'' entry = Some (JBool (resource_id js = self)) else x = None"
  using assms by (auto simp: sender_entry_def maybe_audio_def resource_id_def jfind_obj split: if_splits)

lemma sender_list_eq:
  assumes "sender_list flows devices self xs = Val ys"
  shows "map (jfind ''id'') ys = map (\<lambda>js. Some (JStr (resource_id js))) (filter (maybe_audio flows) xs)
    \<and> map (jfind ''is_self'') ys = map (\<lambda>js. Some (JBool (resource_id js = self))) (filter (maybe_audio flows) xs)"
  using assms
proof (induction xs arbitrary: ys)
  case (Cons js xs)
  then obtain x zs where x: "sender_entry flows devices self js = Val x" "sender_list flows devices self xs = Val zs"
      "ys = (case x of None \<Rightarrow> zs | Some entry \<Rightarrow> entry # zs)" by auto
  show ?case using sender_entry_eq [OF x(1)] Cons.IH [OF x(2)] x(3) by (auto split: if_splits)
qed simp

lemma bindS_ValD: "bindS m f s = (Val y, s') \<Longrightarrow> \<exists>x s1. m s = (Val x, s1) \<and> f x s1 = (Val y, s')"
  by (auto simp: bindS_def split: prod.splits outcome.splits)

text \<open>
  Browsing the registry: when the action answers with a list of senders, no identifier occurs
  twice, the senders marked as the node's own are exactly those with the node's own sender
  identifier, so at most one, and at most 60 requests were made.
\<close>

theorem browse_lists_each_once:
  fixes s :: "('p, 'r) App_scheme"
  assumes "nmos_senders e s = (Val js, s')" "jfind ''senders'' js = Some (JArr xs)"
  shows "distinct (map (jfind ''id'') xs) \<and> length (requests s') \<le> length (requests s) + 60
    \<and> (\<forall>x \<in> set xs. \<exists>i. jfind ''id'' x = Some (JStr i) \<and> jfind ''is_self'' x = Some (JBool (i = m_sSenderId s)))"
proof -
  let ?e = "\<lambda>_. p_node e"
  have fetch: "asked s 20 s' \<and> (\<forall>all st. r = Val (Some all, st) \<longrightarrow> distinct (map resource_id all))"
    if "FetchAll ?e url s = (r, s')" for url r and s s' :: "('p, 'r) App_scheme"
    using fetch_pages_end [OF that [unfolded FetchAll_def]] by simp
  have err: "jfind ''senders'' (obj [(''error'', x)]) = None" for x by (simp add: jfind_obj)
  obtain url where u: "bindS (FetchAll ?e (url @ ''/x-nmos/query/v1.3/senders'')) (\<lambda>(jsSenders, st).
           case jsSenders of
             None \<Rightarrow> returnS (obj [(''error'', JStr (''query api not reachable (status '' @ to_string st @ '')''))])
           | Some senders \<Rightarrow>
               bindS (FetchAll ?e (url @ ''/x-nmos/query/v1.3/flows'')) (\<lambda>(flows, _).
               bindS (FetchAll ?e (url @ ''/x-nmos/query/v1.3/devices'')) (\<lambda>(devices, _). (\<lambda>s.
                 bindS (evalS (sender_list flows devices (m_sSenderId s) senders)) (\<lambda>xs. returnS (obj [(''senders'', JArr xs)])) s)))) s = (Val js, s')"
    using assms err unfolding nmos_senders_def by (auto dest!: bindS_ValD simp: evalS_def returnS_def split: if_splits)
  obtain senders st1 s1 flows st2 s2 devices st3 s3 ys where f:
      "FetchAll ?e (url @ ''/x-nmos/query/v1.3/senders'') s = (Val (Some senders, st1), s1)"
      "FetchAll ?e (url @ ''/x-nmos/query/v1.3/flows'') s1 = (Val (flows, st2), s2)"
      "FetchAll ?e (url @ ''/x-nmos/query/v1.3/devices'') s2 = (Val (devices, st3), s3)"
      "sender_list flows devices (m_sSenderId s3) senders = Val ys" "js = obj [(''senders'', JArr ys)]" "s' = s3"
    using bindS_ValD [OF u] assms(2) err
    by (auto dest!: bindS_ValD simp: evalS_def returnS_def split: option.splits)
  have all: "asked s 60 s3" using asked_trans [OF asked_trans [OF conjunct1 [OF fetch [OF f(1)]] conjunct1 [OF fetch [OF f(2)]]] conjunct1 [OF fetch [OF f(3)]]] by simp
  have xs: "xs = ys" using assms(2) f(5) by (simp add: jfind_obj)
  note l = sender_list_eq [OF f(4)]
  have "distinct (map resource_id (filter (maybe_audio flows) senders))" using fetch [OF f(1)] by (simp add: distinct_map_filter)
  then have "distinct (map (jfind ''id'') xs)" using l xs by (simp add: distinct_map inj_on_def)
  moreover have "length (requests s') \<le> length (requests s) + 60" "m_sSenderId s3 = m_sSenderId s" using all f(6) by (auto simp: asked_def)
  moreover have "\<exists>i. jfind ''id'' x = Some (JStr i) \<and> jfind ''is_self'' x = Some (JBool (i = m_sSenderId s3))" if "x \<in> set xs" for x
  proof -
    obtain k where k: "k < length xs" "x = xs ! k" using \<open>x \<in> set xs\<close> by (auto simp: in_set_conv_nth)
    let ?js = "filter (maybe_audio flows) senders ! k"
    have len: "length (filter (maybe_audio flows) senders) = length xs" using l xs by (metis length_map)
    have "jfind ''id'' x = Some (JStr (resource_id ?js))" "jfind ''is_self'' x = Some (JBool (resource_id ?js = m_sSenderId s3))"
      using l k xs len by (metis (no_types, lifting) nth_map)+
    then show ?thesis by blast
  qed
  ultimately show ?thesis by simp
qed

definition demo_page :: node_env where
  "demo_page = demo_node_env\<lparr>v_http := \<lambda>h p t. Some (200, ''page''), v_parse := \<lambda>t. Some (JArr [obj [(''id'', JStr ''a'')]])\<rparr>"

definition demo_browser :: "nat App" where
  "demo_browser = (demo_app \<lparr>m_json = JNull, m_sPath = []\<rparr>)\<lparr>m_sRegistry := ''http://r:80'', m_sSenderId := ''a''\<rparr>"

theorem browse_lists_each_once_witness:
  "\<exists>js s' xs. nmos_senders (demo_app_env\<lparr>p_node := demo_page\<rparr>) demo_browser = (Val js, s') \<and> jfind ''senders'' js = Some (JArr xs)
    \<and> length xs = 1 \<and> distinct (map (jfind ''id'') xs) \<and> length (requests s') \<le> length (requests demo_browser) + 60"
proof -
  obtain r s' where h: "nmos_senders (demo_app_env\<lparr>p_node := demo_page\<rparr>) demo_browser = (r, s')" by fastforce
  have "map_prod (\<lambda>r. case r of Val js \<Rightarrow> (case jfind ''senders'' js of Some (JArr xs) \<Rightarrow> Some (length xs) | _ \<Rightarrow> None) | _ \<Rightarrow> None) (\<lambda>s. ())
      (nmos_senders (demo_app_env\<lparr>p_node := demo_page\<rparr>) demo_browser) = (Some 1, ())" by code_simp
  then obtain js xs where "r = Val js" "jfind ''senders'' js = Some (JArr xs)" "length xs = 1"
    using h by (auto split: outcome.splits option.splits json.splits)
  then show ?thesis using browse_lists_each_once [of "demo_app_env\<lparr>p_node := demo_page\<rparr>" demo_browser js s' xs] h by blast
qed

section \<open>The connect button\<close>

lemma own_api_path:
  "Handle ce onS onR (''/x-nmos/connection/v1.1/single/receivers/'' @ e_receiverId ce @ ''/staged'') ''PATCH'' body s
    = patch_reply m_jsReceiverStaged (e_what ce) body (PatchReceiver (e_now ce) (e_ips ce) onR) s"
proof -
  have "last (''/x-nmos/connection/v1.1/single/receivers/'' @ e_receiverId ce @ ''/staged'') \<noteq> CHR ''/''" by simp
  then have "strip_slash (''/x-nmos/connection/v1.1/single/receivers/'' @ e_receiverId ce @ ''/staged'')
      = ''/x-nmos/connection/v1.1/single/receivers/'' @ e_receiverId ce @ ''/staged''" unfolding strip_slash_def by simp
  then show ?thesis by (simp add: Handle_def Let_def)
qed

lemma GetValue_int_range:
  assumes "GetValue get_int key d c = Val n" "-2147483648 \<le> d" "d \<le> 2147483647"
  shows "-2147483648 \<le> n \<and> n \<le> 2147483647"
proof -
  have "-2147483648 \<le> to_int32 m \<and> to_int32 m \<le> 2147483647" for m
    using sint_range_size [of "word_of_int m :: 32 word"] by (simp add: to_int32_def word_size)
  then have "-2147483648 \<le> m \<and> m \<le> 2147483647" if "get_int js = Val m" for js m
    using that by (cases js) (auto split: if_splits)
  then show ?thesis using assms by (fastforce simp: GetValue_def split: option.splits elim!: catchO.elims)
qed

text \<open>
  C9. The connect button: pressing it with the session description of a stream, as the sender of
  such a stream prints it, makes one request, a PATCH to the node's own connection API that is
  answered with the status shown; and when the node handles this request, in whatever state it then
  is, the receiver runs with exactly that session, one socket per leg joined to its group and the
  configured playout delay, the new resource version is due to be announced, and the reply is the
  staged document.  The hypotheses are that the parser reads back what the printer wrote, that the
  sockets open and the packet time has a size, and that the staged interfaces are texts.
\<close>

theorem connect_button:
  fixes s t :: "('p, 'r) App_scheme"
  assumes "GetValue get_int ''nmos.http_port'' 8080 (cfg s) = Val port"
    and "v_dump (p_node e) (connect_patch (GenerateSdp nSessId ses origin ips)) = Val body"
    and "v_parse ne body = Some (connect_patch (GenerateSdp nSessId ses origin ips))"
    and "conn_reachable (onSender e) (onReceiver e) t" "rx_inv (receiver t)" "e_receiverId ce = m_sReceiverId s"
    and "\<forall>leg \<in> set (legs_of (m_jsReceiverStaged t)). \<exists>ip. jfind ''interface_ip'' leg = Some (JStr ip)"
    and "session_ok ses" "plain origin" "origin \<noteq> []" "\<forall>ip \<in> set ips. plain ip \<and> ip \<noteq> []"
    and "frames_per_packet (dPacketTimeMs ses) = Some nFrames" "\<forall>i m p. 0 \<le> p_open_leg e i m p"
    and "GetValue get_int ''receiver.playout_delay_ms'' 20 (cfg t) = Val nDelay"
  shows "\<exists>rq st t'. Action e ''receiver-connect'' (obj [(''sdp'', JStr (GenerateSdp nSessId ses origin ips))]) s
      = (Val (obj [(''status'', JInt st)]), s\<lparr>requests := requests s @ [(rq, st)]\<rparr>)
    \<and> rq_host rq = ''127.0.0.1'' \<and> rq_port rq = port
    \<and> Handle ce (onSender e) (onReceiver e) (rq_path rq) (rq_method rq) (v_parse ne (rq_body rq)) t = (Val (Reply_Json 200 (m_jsReceiverStaged t')), t')
    \<and> rx_bRun (receiver t') \<and> m_session (receiver t') = ses\<lparr>sName := Trim (sName ses), vLegs := read_legs ses 0 (vLegs ses) origin ips\<rparr>
    \<and> m_nLegCount (receiver t') = length (vLegs ses) \<and> m_nPlayoutDelayMs (receiver t') = clamp nDelay 2 500
    \<and> (\<forall>i < length (vLegs ses). leg_sMulticast (m_aLegs (receiver t') ! i) = sMulticast (vLegs ses ! i) \<and> 0 \<le> nSocket (m_aLegs (receiver t') ! i))
    \<and> m_nVersion t' = m_nVersion t + 1"
proof -
  let ?sdp = "GenerateSdp nSessId ses origin ips"
  let ?path = "''/x-nmos/connection/v1.1/single/receivers/'' @ m_sReceiverId s @ ''/staged''"
  let ?rq = "\<lparr>rq_host = ''127.0.0.1'', rq_port = port, rq_method = ''PATCH'', rq_path = ?path, rq_body = body\<rparr>"
  define st where "st = (case v_http (p_node e) (c_str ''127.0.0.1'') port (request_text ?rq) of None \<Rightarrow> 0 | Some (st, r) \<Rightarrow> st)"
  have "ParseUrl (''http'' @ ''://'' @ ''127.0.0.1'' @ '':'' @ to_string port @ ?path) = Val (Some \<lparr>sHost = ''127.0.0.1'', url_nPort = port, sPath = ?path\<rparr>)"
    using ParseUrl_parts [of "''http''" "''127.0.0.1''" port] GetValue_int_range [OF assms(1)] by simp
  then have url: "ParseUrl (''http://127.0.0.1:'' @ to_string port @ ?path) = Val (Some \<lparr>sHost = ''127.0.0.1'', url_nPort = port, sPath = ?path\<rparr>)" by simp
  have patch: "obj [(''master_enable'', JBool True), activate_now, sdp_file ?sdp] = connect_patch ?sdp"
    by (simp add: connect_patch_def activate_now_def sdp_file_def)
  have sdp: "jvalue get_string ''sdp'' [] (obj [(''sdp'', JStr ?sdp)]) = Val ?sdp" by (simp add: jvalue_def obj_single)
  have act: "Action e ''receiver-connect'' (obj [(''sdp'', JStr ?sdp)]) s = (Val (obj [(''status'', JInt st)]), s\<lparr>requests := requests s @ [(?rq, st)]\<rparr>)"
    using url assms(1,2)
    by (cases "v_http (p_node e) (c_str ''127.0.0.1'') port (request_text ?rq)")
      (auto simp: Action_def Let_def receiver_connect_def sdp patch patch_receiver_def HttpJson_def HttpText_def act_simps st_def)
  obtain t' where t': "PatchReceiver (e_now ce) (e_ips ce) (onReceiver e) (connect_patch ?sdp) t = (Val (), t')"
      "rx_bRun (receiver t')" "m_session (receiver t') = ses\<lparr>sName := Trim (sName ses), vLegs := read_legs ses 0 (vLegs ses) origin ips\<rparr>"
      "m_nLegCount (receiver t') = length (vLegs ses)" "m_nPlayoutDelayMs (receiver t') = clamp nDelay 2 500" "m_nVersion t' = m_nVersion t + 1"
      "\<forall>i < length (vLegs ses). leg_sMulticast (m_aLegs (receiver t') ! i) = sMulticast (vLegs ses ! i) \<and> 0 \<le> nSocket (m_aLegs (receiver t') ! i)"
    using connect_configures_receiver [OF assms(4,5,7-14), of "e_now ce" "e_ips ce" nSessId] by blast
  have "Handle ce (onSender e) (onReceiver e) ?path ''PATCH'' (v_parse ne body) t = (Val (Reply_Json 200 (m_jsReceiverStaged t')), t')"
    using own_api_path [of ce "onSender e" "onReceiver e" "v_parse ne body" t] t'(1) assms(3,6) by (simp add: patch_reply_def)
  with act t' show ?thesis by (intro exI [of _ ?rq] exI [of _ st] exI [of _ t']) simp
qed

theorem connect_button_witness:
  "\<exists>rq st. \<exists>t' :: nat App. Action demo_app_env ''receiver-connect'' (obj [(''sdp'', JStr (GenerateSdp 9 sample_session ''10.0.0.1'' []))]) (demo_app \<lparr>m_json = JNull, m_sPath = []\<rparr>)
      = (Val (obj [(''status'', JInt st)]), (demo_app \<lparr>m_json = JNull, m_sPath = []\<rparr>)\<lparr>requests := requests (demo_app \<lparr>m_json = JNull, m_sPath = []\<rparr>) @ [(rq, st)]\<rparr>)
    \<and> rq_port rq = 8080 \<and> rx_bRun (receiver t') \<and> m_nLegCount (receiver t') = 2 \<and> m_nPlayoutDelayMs (receiver t') = 20"
proof -
  let ?s = "demo_app \<lparr>m_json = JNull, m_sPath = []\<rparr>" and ?sdp = "GenerateSdp 9 sample_session ''10.0.0.1'' []"
  have "legs_of receiver_document = [receiver_leg, receiver_leg]" "jfind ''interface_ip'' receiver_leg = Some (JStr ''auto'')" by code_simp+
  then have l: "\<forall>leg \<in> set (legs_of (m_jsReceiverStaged ?s)). \<exists>ip. jfind ''interface_ip'' leg = Some (JStr ip)" by simp
  have p: "plain ''10.0.0.1''" "length (vLegs sample_session) = 2" "frames_per_packet (dPacketTimeMs sample_session) = Some 6" "clamp 20 2 500 = (20 :: int)"
    "GetValue get_int ''receiver.playout_delay_ms'' 20 \<lparr>m_json = JNull, m_sPath = []\<rparr> = Val 20"
    "GetValue get_int ''nmos.http_port'' 8080 \<lparr>m_json = JNull, m_sPath = []\<rparr> = Val 8080" by code_simp+
  have d: "v_dump (p_node demo_app_env) js = Val []" for js by (simp add: demo_app_env_def demo_node_env_def)
  have i: "rx_inv (receiver ?s)" "\<forall>i m q. 0 \<le> p_open_leg demo_app_env i m q" by (simp_all add: init_receiver_inv demo_app_env_def)
  have r: "conn_reachable (onSender demo_app_env) (onReceiver demo_app_env) ?s" by (rule demo_app_reachable)
  show ?thesis
    using connect_button [of ?s 8080 demo_app_env 9 sample_session "''10.0.0.1''" "[]" "[]" "demo_node_env\<lparr>v_parse := \<lambda>t. Some (connect_patch ?sdp)\<rparr>" ?s
      "\<lparr>e_senderId = [], e_receiverId = m_sReceiverId ?s, e_ips = [], e_now = 7, e_label = [], e_gm = [], e_what = []\<rparr>" 6 20]
      p d i l r sample_session_ok by auto
qed

end
