(* ===== verification/Feed.thy ===== *)
theory Feed
  imports App
begin

text \<open>
  The status feed of \<^verbatim>\<open>src/src/main.cpp\<close>: once a second the state of the PTP client, the receiver and the
  sender is turned into updates of the two status monitors (\<open>Is12\<close>).  The counters it remembers
  between rounds are the record \<open>FeedLocals\<close>.  The members of the status documents it reads are read as
  the fields they were made from (\<open>status_members\<close> below).
\<close>

section \<open>The loop\<close>

record FeedLocals =
  nLastLost :: "u64 list"
  nLastLate :: u64
  nLastPlayed :: u64
  nLastSent :: u64
  nLastErrors :: u64

definition init_feed :: FeedLocals where
  "init_feed = \<lparr>nLastLost = [0, 0], nLastLate = 0, nLastPlayed = 0, nLastSent = 0, nLastErrors = 0\<rparr>"

text \<open>The monitors with the messages sent so far.\<close>

type_synonym monitors = "Is12Server \<times> sends"

definition upd :: "(Is12Server \<Rightarrow> Is12Server \<times> sends) \<Rightarrow> monitors \<Rightarrow> monitors" where
  "upd g m = (let (i, out) = g (fst m) in (i, snd m @ out))"

definition tally :: "(Is12Server \<Rightarrow> Is12Server) \<Rightarrow> monitors \<Rightarrow> monitors" where
  "tally g m = (g (fst m), snd m)"

definition feed_sync :: "int \<Rightarrow> PtpClient \<Rightarrow> monitors \<Rightarrow> monitors" where
  "feed_sync now pt m =
    (let bSynced = m_bSynced pt; sGm = GrandmasterId pt;
         nSync = (if sGm = [] then 0 else if bSynced then 1 else 3);
         msg = (if bSynced \<or> sGm = [] then [] else ''not locked to ptp'');
         m = upd (SetSyncSource (if sGm = [] then None else Some sGm)) m;
         m = upd (UpdateReceiverDomain now Is12.SYNC nSync msg) m
     in upd (UpdateSenderDomain now Is12.SYNC nSync msg) m)"

text \<open>The loop over the legs of the receiver: the loss counters and the activity of the two legs.\<close>

fun feed_legs :: "RtpReceiver \<Rightarrow> nat \<Rightarrow> LegState list \<Rightarrow> u64 list \<times> monitors \<times> bool \<times> bool \<Rightarrow> u64 list \<times> monitors \<times> bool \<times> bool" where
  "feed_legs rx nLeg [] x = x"
| "feed_legs rx nLeg (leg # legs) (lastLost, m, bPrimary, bSecondary) =
    (let n = LostPackets nLeg rx;
         lastLost = (if n < lastLost ! nLeg then lastLost[nLeg := 0] else lastLost);
         (lastLost, m) = (if lastLost ! nLeg < n then (lastLost[nLeg := n], tally (AddReceiverLost (leg_sInterface leg) (n - lastLost ! nLeg)) m) else (lastLost, m))
     in feed_legs rx (Suc nLeg) legs
          (if nLeg = 0 then (lastLost, m, bActive leg, bSecondary) else (lastLost, m, bPrimary, bActive leg)))"

definition feed_receiver :: "int \<Rightarrow> RtpReceiver \<Rightarrow> FeedLocals \<times> monitors \<Rightarrow> FeedLocals \<times> monitors" where
  "feed_receiver now rx fm =
    (let (f, m) = fm in
     if \<not> rx_bRun rx then (f, upd (UpdateReceiverDomain now STREAM 0 []) (upd (UpdateReceiverDomain now PATH 0 []) m))
     else if \<not> m_bReceiving rx then (f, upd (UpdateReceiverDomain now PATH 3 ''no rtp packets arriving'') m)
     else
       let nPlayed = m_nPlayed rx;
           lastPlayed = (if nPlayed < nLastPlayed f then 0 else nLastPlayed f);
           m = upd (UpdateReceiverDomain now PATH 1 []) m;
           m = upd (UpdateReceiverDomain now STREAM (if lastPlayed < nPlayed then 1 else 2)
                      (if lastPlayed < nPlayed then [] else ''no audio decoded'')) m;
           (lost, m, bPrimary, bSecondary) =
             feed_legs rx 0 (take 2 (take (m_nLegCount rx) (m_aLegs rx))) (nLastLost f, m, False, True);
           nLink = (if bPrimary \<and> bSecondary then 1 else if bPrimary \<or> bSecondary then 2 else 3);
           m = upd (UpdateReceiverDomain now LINK nLink
                      (if nLink = 1 then [] else if nLink = 2 then ''one leg down'' else ''all legs down'')) m;
           nLate = m_nConcealed rx;
           lastLate = (if nLate < nLastLate f then 0 else nLastLate f);
           (lastLate, m) = (if lastLate < nLate then (nLate, tally (AddReceiverLate (nLate - lastLate)) m) else (lastLate, m))
       in (f\<lparr>nLastPlayed := nPlayed, nLastLost := lost, nLastLate := lastLate\<rparr>, m))"

definition feed_sender :: "int \<Rightarrow> RtpSender \<Rightarrow> FeedLocals \<times> monitors \<Rightarrow> FeedLocals \<times> monitors" where
  "feed_sender now tx fm =
    (let (f, m) = fm in
     if \<not> tx_bRun tx then (f, upd (UpdateSenderDomain now STREAM 0 []) (upd (UpdateSenderDomain now PATH 0 []) m))
     else if m_bWaitingForPtp tx then (f, upd (UpdateSenderDomain now PATH 3 ''waiting for ptp lock'') m)
     else
       let nSent = m_nPacketsSent tx;
           lastSent = (if nSent < nLastSent f then 0 else nLastSent f);
           m = upd (UpdateSenderDomain now PATH (if lastSent < nSent then 1 else 3)
                      (if lastSent < nSent then [] else ''transmission stalled'')) m;
           m = upd (UpdateSenderDomain now STREAM (if m_bEssenceOk tx then 1 else 2)
                      (if m_bEssenceOk tx then [] else ''source exhausted'')) m;
           nErrors = m_nSendErrors tx;
           lastErrors = (if nErrors < nLastErrors f then 0 else nLastErrors f);
           (lastErrors, m) = (if lastErrors < nErrors then (nErrors, tally (AddSenderErrors ''socket_errors'' (nErrors - lastErrors)) m)
                              else (lastErrors, m))
       in (f\<lparr>nLastSent := nSent, nLastErrors := lastErrors\<rparr>, m))"

definition feed_tick :: "int \<Rightarrow> PtpClient \<times> RtpReceiver \<times> RtpSender \<Rightarrow> FeedLocals \<times> Is12Server \<Rightarrow> FeedLocals \<times> monitors" where
  "feed_tick now eng fi = (let (pt, rx, tx) = eng; (f, i) = fi in feed_sender now tx (feed_receiver now rx (f, feed_sync now pt (i, []))))"

text \<open>One round; without a node there are no monitors.  \<open>None\<close> is the access of the sender's status behind its flags.\<close>

definition feed_step :: "'p app_env \<Rightarrow> FeedLocals \<Rightarrow> 'r Node_scheme \<Rightarrow> (FeedLocals \<times> 'r Node_scheme \<times> sends) option" where
  "feed_step e f s =
    (if \<not> m_bServer s then Some (f, s, [])
     else case tx_GetStatusJson (p_log10 e) (sender s) of
         None \<Rightarrow> None
       | Some _ \<Rightarrow> (let (f, i, out) = feed_tick (p_now e) (ptp s, receiver s, sender s) (f, m_pIs12 s) in Some (f, s\<lparr>m_pIs12 := i\<rparr>, out)))"

lemma status_members:
  "jfind ''played'' (rx_GetStatusJson log10 rx) = Some (JInt (uint (m_nPlayed rx)))"
  "jfind ''legs'' (rx_GetStatusJson log10 rx) = Some (JArr (map rx_leg_json (take (m_nLegCount rx) (m_aLegs rx))))"
  "jfind ''interface'' (rx_leg_json leg) = Some (JStr (leg_sInterface leg))" "jfind ''active'' (rx_leg_json leg) = Some (JBool (bActive leg))"
  "tx_GetStatusJson log10 tx = Some js \<Longrightarrow> jfind ''waiting_for_ptp'' js = Some (JBool (m_bWaitingForPtp tx))"
  "tx_GetStatusJson log10 tx = Some js \<Longrightarrow> jfind ''packets_sent'' js = Some (JInt (uint (m_nPacketsSent tx)))"
  "tx_GetStatusJson log10 tx = Some js \<Longrightarrow> jfind ''send_errors'' js = Some (JInt (uint (m_nSendErrors tx)))"
  by (auto simp: rx_GetStatusJson_def rx_leg_json_def tx_GetStatusJson_def jfind_obj bind_eq_Some_conv)

section \<open>What a round does to the receiver's monitor\<close>

definition rx_domains :: "monitors \<Rightarrow> McDomain list" where
  "rx_domains m = aDomains (m_rxMonitor (fst m))"

definition rx_losses :: "monitors \<Rightarrow> (string, u64) omap" where
  "rx_losses m = mCounters1 (m_rxMonitor (fst m))"

lemma UpdateDomain_counters: "mCounters1 (fst (UpdateDomain now subs d st msg mon)) = mCounters1 mon"
  by (rule UpdateDomain_monitor [of now subs d st msg mon]) (simp add: set_domain_def)

lemma rx_views [simp]:
  "rx_domains (upd (UpdateReceiverDomain now d st msg) m) = (rx_domains m)[d := domain_step now st msg (rx_domains m ! d)]"
  "rx_domains (upd (UpdateSenderDomain now d st msg) m) = rx_domains m" "rx_domains (upd (SetSyncSource src) m) = rx_domains m"
  "rx_domains (tally (AddReceiverLost leg n) m) = rx_domains m" "rx_domains (tally (AddReceiverLate n) m) = rx_domains m"
  "rx_domains (tally (AddSenderErrors c n) m) = rx_domains m" "rx_domains (i, out) = aDomains (m_rxMonitor i)"
  "rx_losses (upd (UpdateReceiverDomain now d st msg) m) = rx_losses m" "rx_losses (upd (UpdateSenderDomain now d st msg) m) = rx_losses m"
  "rx_losses (upd (SetSyncSource src) m) = rx_losses m" "rx_losses (tally (AddReceiverLost leg n) m) = bump leg n (rx_losses m)"
  "rx_losses (tally (AddReceiverLate n) m) = rx_losses m" "rx_losses (tally (AddSenderErrors c n) m) = rx_losses m"
  "rx_losses (i, out) = mCounters1 (m_rxMonitor i)"
  by (simp_all add: rx_domains_def rx_losses_def upd_def tally_def UpdateReceiverDomain_def UpdateSenderDomain_def SetSyncSource_def sync_source_def
      AddReceiverLost_def AddReceiverLate_def AddSenderErrors_def Let_def case_prod_unfold UpdateDomain_domains UpdateDomain_counters)

lemma feed_sync_view [simp]:
  "rx_losses (feed_sync now pt m) = rx_losses m" "d \<noteq> Is12.SYNC \<Longrightarrow> rx_domains (feed_sync now pt m) ! d = rx_domains m ! d"
  "length (rx_domains (feed_sync now pt m)) = length (rx_domains m)"
  by (simp_all add: feed_sync_def Let_def)

lemma feed_sender_view [simp]:
  "rx_losses (snd (feed_sender now tx fm)) = rx_losses (snd fm)" "rx_domains (snd (feed_sender now tx fm)) = rx_domains (snd fm)"
  "nLastLost (fst (feed_sender now tx fm)) = nLastLost (fst fm)"
  by (cases fm, simp add: feed_sender_def Let_def case_prod_unfold)+

section \<open>Silence is reported\<close>

text \<open>The rounds of the loop: the time and the engine each round finds.\<close>

definition feed_run :: "(int \<times> PtpClient \<times> RtpReceiver \<times> RtpSender) list \<Rightarrow> FeedLocals \<times> Is12Server \<Rightarrow> FeedLocals \<times> Is12Server" where
  "feed_run ticks fi = fold (\<lambda>(now, eng) fi. let (f, i, out) = feed_tick now eng fi in (f, i)) ticks fi"

lemma feed_tick_silent:
  assumes "rx_bRun rx" "\<not> m_bReceiving rx" "length (aDomains (m_rxMonitor i)) = 4"
  shows "aDomains (m_rxMonitor (fst (snd (feed_tick now (pt, rx, tx) (f, i))))) ! PATH
      = domain_step now 3 ''no rtp packets arriving'' (aDomains (m_rxMonitor i) ! PATH)"
    "length (aDomains (m_rxMonitor (fst (snd (feed_tick now (pt, rx, tx) (f, i)))))) = 4"
proof -
  let ?m = "snd (feed_tick now (pt, rx, tx) (f, i))"
  have "rx_domains ?m = rx_domains (snd (feed_receiver now rx (f, feed_sync now pt (i, []))))"
    by (simp add: feed_tick_def)
  also have "\<dots> = (rx_domains (feed_sync now pt (i, [])))[PATH := domain_step now 3 ''no rtp packets arriving'' (rx_domains (feed_sync now pt (i, [])) ! PATH)]"
    using assms by (simp add: feed_receiver_def)
  finally have "rx_domains ?m = \<dots>" .
  then show "aDomains (m_rxMonitor (fst ?m)) ! PATH = domain_step now 3 ''no rtp packets arriving'' (aDomains (m_rxMonitor i) ! PATH)"
    "length (aDomains (m_rxMonitor (fst ?m))) = 4"
    using assms(3) unfolding rx_domains_def [symmetric] by simp_all
qed

lemma feed_run_silent:
  assumes "\<forall>(now, pt, rx, tx) \<in> set ticks. rx_bRun rx \<and> \<not> m_bReceiving rx" "length (aDomains (m_rxMonitor i)) = 4"
  shows "length (aDomains (m_rxMonitor (snd (feed_run ticks (f, i))))) = 4
    \<and> aDomains (m_rxMonitor (snd (feed_run ticks (f, i)))) ! PATH
      = run_domain (map (\<lambda>(now, eng). (now, PATH, 3, ''no rtp packets arriving'')) ticks) (aDomains (m_rxMonitor i) ! PATH)"
  using assms
proof (induction ticks arbitrary: f i)
  case (Cons x ticks)
  obtain now pt rx tx where x: "x = (now, pt, rx, tx)" by (cases x)
  obtain f1 i1 out where t: "feed_tick now (pt, rx, tx) (f, i) = (f1, i1, out)" by (cases "feed_tick now (pt, rx, tx) (f, i)")
  have s: "aDomains (m_rxMonitor i1) ! PATH = domain_step now 3 ''no rtp packets arriving'' (aDomains (m_rxMonitor i) ! PATH)" "length (aDomains (m_rxMonitor i1)) = 4"
    using feed_tick_silent [of rx i now pt tx f] Cons.prems x t by auto
  have "feed_run (x # ticks) (f, i) = feed_run ticks (f1, i1)" by (simp add: feed_run_def x t)
  then show ?case using Cons.IH [of i1 f1] Cons.prems s by (simp add: run_domain_def x)
qed (simp add: feed_run_def run_domain_def)

text \<open>
  C29. Silence is reported: when the receiver runs but receives nothing in every round of the feed
  for at least three seconds, then after the last of these rounds the path domain of the receiver's
  monitor is unhealthy, with the message that no packets are arriving, whatever the clock and the
  sender did meanwhile.
\<close>

theorem silence_is_reported:
  assumes "length (aDomains (m_rxMonitor i)) = 4" "nPendingStatus (aDomains (m_rxMonitor i) ! PATH) = -1"
    and "ticks \<noteq> []" "\<forall>(now, pt, rx, tx) \<in> set ticks. rx_bRun rx \<and> \<not> m_bReceiving rx"
    and "fst (hd ticks) + 3000000000 \<le> fst (last ticks)"
  shows "let dom = aDomains (m_rxMonitor (snd (feed_run ticks (f, i)))) ! PATH
    in nStatus dom = 3 \<and> sMessage dom = ''no rtp packets arriving''"
proof -
  let ?u = "\<lambda>(now :: int, eng :: PtpClient \<times> RtpReceiver \<times> RtpSender). (now, PATH, 3 :: int, ''no rtp packets arriving'')"
  let ?d = "aDomains (m_rxMonitor i) ! PATH"
  obtain ts now eng where ts: "ticks = ts @ [(now, eng)]" using assms(3) by (metis prod.collapse rev_exhaust)
  have run: "aDomains (m_rxMonitor (snd (feed_run ticks (f, i)))) ! PATH = domain_step now 3 ''no rtp packets arriving'' (run_domain (map ?u ts) ?d)"
    using feed_run_silent [OF assms(4,1), of f] by (simp add: ts)
  have "3 \<le> nStatus (run_domain (map ?u ts) ?d) \<or> nPendingStatus (run_domain (map ?u ts) ?d) = 3
      \<and> pendingSince (run_domain (map ?u ts) ?d) + 3000000000 \<le> now \<or> nStatus (run_domain (map ?u ts) ?d) = 3"
  proof (cases "ts = []")
    case True
    then show ?thesis using assms(5) ts by simp
  next
    case False
    have "fst (hd (map ?u ts)) = fst (hd ticks)" using False ts by (cases ts) (auto simp: case_prod_unfold)
    moreover have "\<forall>(t, d, st, msg) \<in> set (map ?u ts). st = 3" "map ?u ts \<noteq> []" using False by auto
    moreover have "fst (last ticks) = now" by (simp add: ts)
    ultimately show ?thesis using run_domain_steady [OF assms(2), of "map ?u ts" 3] assms(5) by auto
  qed
  then show ?thesis unfolding run Let_def by (auto simp: domain_step_def hold_def Let_def)
qed

theorem silence_is_reported_witness:
  "let rx = init_receiver\<lparr>rx_bRun := True\<rparr>; eng = (init_client [] 0 [], rx, init_sender);
       dom = aDomains (m_rxMonitor (snd (feed_run [(0, eng), (1000000000, eng), (3000000000, eng)] (init_feed, init_is12 [] [])))) ! PATH
   in nStatus dom = 3 \<and> sMessage dom = ''no rtp packets arriving''"
proof -
  let ?eng = "(init_client [] 0 [], init_receiver\<lparr>rx_bRun := True\<rparr>, init_sender)"
  show ?thesis
    using silence_is_reported [of "init_is12 [] []" "[(0, ?eng), (1000000000, ?eng), (3000000000, ?eng)]" init_feed]
    by (simp add: Let_def init_is12_def init_monitor_def init_domain_def init_receiver_def)
qed

section \<open>Losses are counted\<close>

definition counter :: "string \<Rightarrow> (string, u64) omap \<Rightarrow> u64" where
  "counter k m = (case map_of m k of Some n \<Rightarrow> n | None \<Rightarrow> 0)"

lemma counter_bump: "omap_ok m \<Longrightarrow> counter k' (bump k n m) = (if k' = k then counter k m + n else counter k' m)"
  by (simp add: counter_def bump_def map_of_omap_put)

lemma bump_ok: "omap_ok m \<Longrightarrow> omap_ok (bump k n m)"
  unfolding bump_def by (rule cmap.ok_put)

text \<open>What a cumulative count adds after the value \<open>old\<close>: a smaller value means that it started again.\<close>

definition growth :: "u64 \<Rightarrow> u64 \<Rightarrow> u64" where
  "growth old n = (if n < old then n else n - old)"

lemma feed_legs_step:
  assumes "nLeg < length lastLost"
  shows "feed_legs rx nLeg (leg # legs) (lastLost, m, p, q)
    = feed_legs rx (Suc nLeg) legs (lastLost[nLeg := LostPackets nLeg rx],
        (if growth (lastLost ! nLeg) (LostPackets nLeg rx) = 0 then m
         else tally (AddReceiverLost (leg_sInterface leg) (growth (lastLost ! nLeg) (LostPackets nLeg rx))) m),
        if nLeg = 0 then bActive leg else p, if nLeg = 0 then q else bActive leg)"
proof -
  let ?n = "LostPackets nLeg rx"
  consider "?n < lastLost ! nLeg" | "?n = lastLost ! nLeg" | "lastLost ! nLeg < ?n" by fastforce
  then show ?thesis
  proof cases
    case 1
    then show ?thesis using assms by (cases "?n = 0") (simp_all add: Let_def growth_def word_gt_0)
  next
    case 2
    then show ?thesis using assms by (simp add: Let_def growth_def list_update_same_conv)
  next
    case 3
    then have "\<not> ?n < lastLost ! nLeg" "?n - lastLost ! nLeg \<noteq> 0" by auto
    then show ?thesis using assms 3 by (simp add: Let_def growth_def)
  qed
qed

text \<open>One round with a running receiver: the new totals are remembered, and each leg's growth is added to the counter of its interface.\<close>

lemma feed_tick_losses:
  assumes "rx_bRun rx" "m_bReceiving rx" "m_aLegs rx = [a, b]" "m_nLegCount rx = 2" "nLastLost f = [x, y]" "omap_ok (mCounters1 (m_rxMonitor i))"
    and "leg_sInterface a \<noteq> leg_sInterface b" "feed_tick now (pt, rx, tx) (f, i) = (f', i', out)"
  shows "nLastLost f' = [nLost a, nLost b] \<and> omap_ok (mCounters1 (m_rxMonitor i'))
    \<and> counter (leg_sInterface a) (mCounters1 (m_rxMonitor i')) = counter (leg_sInterface a) (mCounters1 (m_rxMonitor i)) + growth x (nLost a)
    \<and> counter (leg_sInterface b) (mCounters1 (m_rxMonitor i')) = counter (leg_sInterface b) (mCounters1 (m_rxMonitor i)) + growth y (nLost b)"
proof -
  let ?add = "\<lambda>leg n m. if n = 0 then m else bump (leg_sInterface leg) n m"
  let ?c = "mCounters1 (m_rxMonitor i)"
  have l: "LostPackets 0 rx = nLost a" "LostPackets (Suc 0) rx = nLost b" by (simp_all add: LostPackets_def assms(3))
  have legs: "fst (feed_legs rx 0 [a, b] ([x, y], m, p, q)) = [nLost a, nLost b]
      \<and> rx_losses (fst (snd (feed_legs rx 0 [a, b] ([x, y], m, p, q)))) = ?add b (growth y (nLost b)) (?add a (growth x (nLost a)) (rx_losses m))" for m p q
    by (simp add: feed_legs_step l del: feed_legs.simps(2))
  have t: "nLastLost (fst (feed_tick now (pt, rx, tx) (f, i))) = [nLost a, nLost b]
      \<and> rx_losses (snd (feed_tick now (pt, rx, tx) (f, i))) = ?add b (growth y (nLost b)) (?add a (growth x (nLost a)) ?c)"
    unfolding feed_tick_def prod.case Let_def feed_sender_view
    using assms(1-5) legs by (simp add: feed_receiver_def Let_def case_prod_unfold del: feed_legs.simps(2))
  have c: "mCounters1 (m_rxMonitor i') = ?add b (growth y (nLost b)) (?add a (growth x (nLost a)) ?c)"
    using t assms(8) by (simp add: rx_losses_def)
  show ?thesis unfolding c using t assms(6-8) by (simp add: counter_bump bump_ok)
qed

text \<open>The totals a feed has seen of one leg, and their growth.\<close>

fun total_growth :: "u64 \<Rightarrow> u64 list \<Rightarrow> u64" where
  "total_growth old [] = 0"
| "total_growth old (n # ns) = growth old n + total_growth n ns"



end
