(* ===== verification/Ptp_Net.thy ===== *)
theory Ptp_Net
  imports Ptp_Client Cxx_Text
begin

text \<open>
  The network side of the PTP client (\<^verbatim>\<open>src/src/ptp/ptpclient.cpp\<close>): starting and stopping with the two
  sockets of each interface, and the receive loop that attributes a datagram to a time and an
  interface before it is handled.  The socket calls are readings of the environment; a datagram
  is what \<^verbatim>\<open>recvmsg\<close> delivers.
\<close>

section \<open>Sockets\<close>

record PtpNet =
  client :: PtpClient
  ptp_bRun :: bool
  m_anEventSocket :: "int list"
  m_anGeneralSocket :: "int list"
  m_anIfIndex :: "int list"

definition init_net :: PtpNet where
  "init_net = \<lparr>client = init_client [] 0 (replicate 8 0), ptp_bRun = False, m_anEventSocket = [-1, -1],
     m_anGeneralSocket = [-1, -1], m_anIfIndex = [0, 0]\<rparr>"

text \<open>
  \<open>n_mac\<close> is the hardware address the \<^verbatim>\<open>ioctl\<close> gives for an interface name of at most 15 characters,
  \<open>n_ifindex\<close> the index of an interface or 0, \<open>n_open\<close> the socket opened on a port of an interface
  or a negative value.
\<close>

record net_env =
  n_mac :: "string \<Rightarrow> bytes option"
  n_ifindex :: "string \<Rightarrow> int"
  n_open :: "u16 \<Rightarrow> string \<Rightarrow> int \<Rightarrow> int"

abbreviation "PORT_EVENT \<equiv> 319 :: u16"
abbreviation "PORT_GENERAL \<equiv> 320 :: u16"

definition CloseSockets :: "PtpNet \<Rightarrow> PtpNet" where
  "CloseSockets s =
    (let close = map (\<lambda>n. if 0 \<le> n then -1 else n)
     in s\<lparr>m_anEventSocket := close (m_anEventSocket s), m_anGeneralSocket := close (m_anGeneralSocket s)\<rparr>)"

text \<open>\<open>Stop\<close> joins both threads before it closes the sockets.\<close>

definition net_Stop :: "PtpNet \<Rightarrow> PtpNet" where
  "net_Stop s = CloseSockets (s\<lparr>ptp_bRun := False\<rparr>)"

definition own_identity :: "net_env \<Rightarrow> string \<Rightarrow> ClockIdentity \<Rightarrow> ClockIdentity" where
  "own_identity e sInterface own =
    (case n_mac e (take 15 (c_str sInterface)) of
       None \<Rightarrow> own
     | Some mac \<Rightarrow> [mac ! 0, mac ! 1, mac ! 2, 0xff, 0xfe, mac ! 3, mac ! 4, mac ! 5])"

fun open_ifs :: "net_env \<Rightarrow> (nat \<times> string) list \<Rightarrow> PtpNet \<Rightarrow> bool \<times> PtpNet" where
  "open_ifs e [] s = (True, s)"
| "open_ifs e ((nIf, sIf) # ifs) s =
    (let nIfIndex = n_ifindex e (c_str sIf) in
     if nIfIndex = 0 then (if nIf = 0 then (False, s) else open_ifs e ifs s)
     else
       let s = s\<lparr>m_anIfIndex := (m_anIfIndex s)[nIf := nIfIndex],
                 m_anEventSocket := (m_anEventSocket s)[nIf := n_open e PORT_EVENT sIf nIfIndex],
                 m_anGeneralSocket := (m_anGeneralSocket s)[nIf := n_open e PORT_GENERAL sIf nIfIndex]\<rparr>
       in if nIf = 0 \<and> (m_anEventSocket s ! 0 < 0 \<or> m_anGeneralSocket s ! 0 < 0) then (False, s)
          else open_ifs e ifs s)"

definition OpenSockets :: "net_env \<Rightarrow> PtpNet \<Rightarrow> bool \<times> PtpNet" where
  "OpenSockets e s =
    (let ifs = m_vInterfaces (client s);
         s = s\<lparr>client := (client s)\<lparr>m_ownIdentity := own_identity e (hd ifs) (m_ownIdentity (client s))\<rparr>\<rparr>
     in open_ifs e (zip [0..<length ifs] ifs) s)"

definition Run :: "net_env \<Rightarrow> string list \<Rightarrow> int \<Rightarrow> PtpNet \<Rightarrow> bool \<times> PtpNet" where
  "Run e vInterfaces nDomain s =
    (let s = net_Stop s in
     if vInterfaces = [] then (False, s)
     else
       let s = s\<lparr>client := (client s)\<lparr>m_vInterfaces := take 2 vInterfaces, m_nDomain := nDomain\<rparr>\<rparr>;
           (ok, s) = OpenSockets e s
       in if ok then (True, s\<lparr>ptp_bRun := True\<rparr>) else (False, s))"

section \<open>Receive loop\<close>

text \<open>Control messages: the kernel's receive time, the index of the ingress interface, others.\<close>

datatype cmsg = TimestampNs u64 u64 | PktInfo int | OtherCmsg

record datagram =
  d_bytes :: bytes
  d_cmsgs :: "cmsg list"
  d_from :: string
  d_realtime :: u64
  d_rt :: u64
  d_now :: int

definition ingress_of :: "int list \<Rightarrow> int \<Rightarrow> nat \<Rightarrow> nat" where
  "ingress_of anIfIndex ifindex nIngress =
     fold (\<lambda>nIf n. if anIfIndex ! nIf = ifindex then nIf else n) [0, 1] nIngress"

fun read_cmsgs :: "int list \<Rightarrow> cmsg list \<Rightarrow> u64 \<times> nat \<Rightarrow> u64 \<times> nat" where
  "read_cmsgs anIfIndex [] r = r"
| "read_cmsgs anIfIndex (TimestampNs sec ns # cs) (nRxNs, nIngress) = read_cmsgs anIfIndex cs (sec * 1000000000 + ns, nIngress)"
| "read_cmsgs anIfIndex (PktInfo i # cs) (nRxNs, nIngress) = read_cmsgs anIfIndex cs (nRxNs, ingress_of anIfIndex i nIngress)"
| "read_cmsgs anIfIndex (OtherCmsg # cs) r = read_cmsgs anIfIndex cs r"

definition rx_sockets :: "PtpNet \<Rightarrow> (int \<times> nat) list" where
  "rx_sockets s = concat (map (\<lambda>nIf.
     (if 0 \<le> m_anEventSocket s ! nIf then [(m_anEventSocket s ! nIf, nIf)] else [])
     @ (if 0 \<le> m_anGeneralSocket s ! nIf then [(m_anGeneralSocket s ! nIf, nIf)] else [])) [0, 1])"

definition receive_datagram :: "nat \<Rightarrow> datagram \<Rightarrow> PtpNet \<Rightarrow> PtpNet option" where
  "receive_datagram nInterface d s =
    (if length (d_bytes d) < 34 then Some s
     else
       let (nRxNs, nIngress) = read_cmsgs (m_anIfIndex s) (d_cmsgs d) (d_realtime d, nInterface)
       in do {
         c \<leftarrow> HandleMessage (d_bytes d) nRxNs (d_from d) nIngress (d_rt d) (d_now d) (client s);
         Some (s\<lparr>client := c\<rparr>)
       })"

text \<open>
  One turn over the sockets after \<^verbatim>\<open>select\<close>: \<open>ready\<close> gives the datagram of a socket that is
  readable.
\<close>

fun rx_turn :: "(int \<Rightarrow> datagram option) \<Rightarrow> (int \<times> nat) list \<Rightarrow> PtpNet \<Rightarrow> PtpNet option" where
  "rx_turn ready [] s = Some s"
| "rx_turn ready ((nSocket, nIf) # socks) s =
    (case ready nSocket of
       None \<Rightarrow> rx_turn ready socks s
     | Some d \<Rightarrow> do { s \<leftarrow> receive_datagram nIf d s; rx_turn ready socks s })"

section \<open>Properties\<close>

lemma ingress_less: "n < 2 \<Longrightarrow> ingress_of a i n < 2"
  by (simp add: ingress_of_def)

lemma read_cmsgs_ingress: "snd r < 2 \<Longrightarrow> snd (read_cmsgs a cs r) < 2"
  by (induction a cs r rule: read_cmsgs.induct) (simp_all add: ingress_less)

lemma receive_datagram_safe:
  assumes "ptp_reachable (client s)" "nIf < 2" "length (d_bytes d) \<le> 512"
  shows "\<exists>c. receive_datagram nIf d s = Some (s\<lparr>client := c\<rparr>) \<and> ptp_reachable c"
proof (cases "length (d_bytes d) < 34")
  case True
  then show ?thesis using assms(1) by (intro exI [of _ "client s"]) (simp add: receive_datagram_def)
next
  case False
  obtain t n where r: "read_cmsgs (m_anIfIndex s) (d_cmsgs d) (d_realtime d, nIf) = (t, n)" by fastforce
  then have n: "n < 2" using read_cmsgs_ingress [of "(d_realtime d, nIf)"] assms(2) by (metis snd_conv)
  have len: "34 \<le> length (d_bytes d)" using False by simp
  obtain c where c: "HandleMessage (d_bytes d) t (d_from d) n (d_rt d) (d_now d) (client s) = Some c"
    using HandleMessage_inv [OF len n ptp_reachable_inv [OF assms(1)]] by blast
  then have "ptp_step (client s) c" using len assms(3) n by (intro ptp_step.datagram)
  then have "ptp_reachable c" using assms(1) by (rule ptp_reachable.step [rotated])
  then show ?thesis using False r c by (auto simp: receive_datagram_def)
qed

lemma rx_turn_safe:
  assumes "\<forall>(n, i) \<in> set socks. i < 2" "\<And>n d. ready n = Some d \<Longrightarrow> length (d_bytes d) \<le> 512"
  shows "ptp_reachable (client s) \<Longrightarrow> \<exists>c. rx_turn ready socks s = Some (s\<lparr>client := c\<rparr>) \<and> ptp_reachable c"
  using assms
proof (induction ready socks s rule: rx_turn.induct)
  case (1 ready s)
  then show ?case by (intro exI [of _ "client s"]) simp
next
  case (2 ready nSocket nIf socks s)
  show ?case
  proof (cases "ready nSocket")
    case None
    then show ?thesis using 2 by simp
  next
    case (Some d)
    obtain c where c: "receive_datagram nIf d s = Some (s\<lparr>client := c\<rparr>)" "ptp_reachable c"
      using receive_datagram_safe [of s nIf d] 2 Some by auto
    then obtain c' where "rx_turn ready socks (s\<lparr>client := c\<rparr>) = Some (s\<lparr>client := c\<rparr>\<lparr>client := c'\<rparr>) \<and> ptp_reachable c'"
      using "2.IH"(2) [OF Some, of "s\<lparr>client := c\<rparr>"] "2.prems" by auto
    then show ?thesis using Some c(1) by auto
  qed
qed

lemma rx_sockets_ifs: "(n, i) \<in> set (rx_sockets s) \<Longrightarrow> i < 2"
  by (auto simp: rx_sockets_def split: if_splits)

text \<open>
  C33. The receive loop of the PTP client is safe on any input: whatever datagrams of up to the
  512 bytes of its buffer arrive on its sockets, with whatever control messages, a turn of the
  loop accesses no byte outside them and no network index outside the two, and leaves a state
  that the client can reach.
\<close>

theorem rx_loop_safe:
  assumes "ptp_reachable (client s)" "\<And>n d. ready n = Some d \<Longrightarrow> length (d_bytes d) \<le> 512"
  shows "\<exists>s'. rx_turn ready (rx_sockets s) s = Some s' \<and> ptp_reachable (client s')"
  using rx_turn_safe [of "rx_sockets s" ready s] rx_sockets_ifs assms by fastforce

theorem rx_loop_safe_witness:
  "\<exists>s'. rx_turn (\<lambda>n. Some \<lparr>d_bytes = replicate 40 11, d_cmsgs = [PktInfo 7, OtherCmsg], d_from = ''10.0.0.1'', d_realtime = 0, d_rt = 0, d_now = 0\<rparr>)
     (rx_sockets (init_net\<lparr>m_anEventSocket := [3, 4]\<rparr>)) (init_net\<lparr>m_anEventSocket := [3, 4]\<rparr>) = Some s' \<and> ptp_reachable (client s')"
  by (rule rx_loop_safe) (auto simp: init_net_def intro: ptp_reachable.start)

text \<open>The state after opening differs in the sockets and indices of the interfaces tried only.\<close>

lemma open_ifs_client: "client (snd (open_ifs e ifs s)) = client s" "ptp_bRun (snd (open_ifs e ifs s)) = ptp_bRun s"
  by (induction e ifs s rule: open_ifs.induct) (simp_all add: Let_def)

lemma open_ifs_later:
  assumes "fst (open_ifs e ifs s)" "0 \<notin> fst ` set ifs"
  shows "m_anEventSocket (snd (open_ifs e ifs s)) ! 0 = m_anEventSocket s ! 0 \<and> m_anGeneralSocket (snd (open_ifs e ifs s)) ! 0 = m_anGeneralSocket s ! 0"
  using assms by (induction e ifs s rule: open_ifs.induct) (auto simp: Let_def split: if_splits)

text \<open>
  Starting the client: when \<open>Run\<close> succeeds on a fresh client, it listens on both ports of the
  primary interface, its clock identity is the EUI-64 made of the hardware address, it is in
  the domain asked for and at most two interfaces are used, and the state is one that the client
  can reach; a stop closes every socket.
\<close>

theorem Run_starts:
  assumes "Run e vInterfaces nDomain init_net = (True, s)"
  shows "ptp_bRun s \<and> 0 \<le> m_anEventSocket s ! 0 \<and> 0 \<le> m_anGeneralSocket s ! 0
    \<and> client s = init_client vInterfaces nDomain (own_identity e (hd vInterfaces) (replicate 8 0))
    \<and> (\<forall>n \<in> set (m_anEventSocket (net_Stop s) @ m_anGeneralSocket (net_Stop s)). n < 0)"
proof -
  obtain i ifs where v: "vInterfaces = i # ifs" using assms by (cases vInterfaces) (auto simp: Run_def Let_def)
  let ?ifs = "take 2 vInterfaces"
  let ?s0 = "init_net\<lparr>client := init_client vInterfaces nDomain (own_identity e i (replicate 8 0))\<rparr>"
  let ?r = "open_ifs e (zip [0..<length ?ifs] ?ifs) ?s0"
  have stop: "net_Stop init_net = init_net" by (simp add: net_Stop_def CloseSockets_def init_net_def Let_def)
  have r: "fst ?r" "s = (snd ?r)\<lparr>ptp_bRun := True\<rparr>"
    using assms v unfolding Run_def Let_def stop OpenSockets_def
    by (auto simp: init_net_def init_client_def case_prod_unfold split: if_splits)
  have z: "zip [0..<length ?ifs] ?ifs = (0, i) # zip [1..<length ?ifs] (take 1 ifs)"
    using v by (cases ifs) (simp_all add: upt_rec numeral_2_eq_2)
  have "0 \<notin> fst ` set (zip [1..<length ?ifs] (take 1 ifs))" by (auto dest: set_zip_leftD)
  then have "0 \<le> m_anEventSocket (snd ?r) ! 0 \<and> 0 \<le> m_anGeneralSocket (snd ?r) ! 0"
    using r(1) open_ifs_later [of e "zip [1..<length ?ifs] (take 1 ifs)"] unfolding z by (auto simp: Let_def split: if_splits)
  moreover have "client (snd ?r) = client ?s0" by (rule open_ifs_client)
  ultimately show ?thesis using r(2) v by (auto simp: net_Stop_def CloseSockets_def Let_def)
qed

theorem Run_starts_witness:
  "\<exists>s. Run \<lparr>n_mac = \<lambda>i. Some [2, 0, 0, 1, 2, 3], n_ifindex = \<lambda>i. if i = ''eth0'' then 2 else 0, n_open = \<lambda>p i n. 5\<rparr> [''eth0'', ''eth1''] 0 init_net = (True, s)
    \<and> m_ownIdentity (client s) = [2, 0, 0, 0xff, 0xfe, 1, 2, 3]"
proof -
  let ?e = "\<lparr>n_mac = \<lambda>i. Some [2, 0, 0, 1, 2, 3], n_ifindex = \<lambda>i. if i = ''eth0'' then 2 else 0, n_open = \<lambda>p i n. 5\<rparr>"
  have "fst (Run ?e [''eth0'', ''eth1''] 0 init_net)" by code_simp
  then obtain s where s: "Run ?e [''eth0'', ''eth1''] 0 init_net = (True, s)" by (cases "Run ?e [''eth0'', ''eth1''] 0 init_net") auto
  from Run_starts [OF this] have "m_ownIdentity (client s) = own_identity ?e ''eth0'' (replicate 8 0)" by (simp add: init_client_def)
  moreover have "own_identity ?e ''eth0'' (replicate 8 0) = [2, 0, 0, 0xff, 0xfe, 1, 2, 3]" by code_simp
  ultimately show ?thesis using s by auto
qed

end
