(* ===== verification/System.thy ===== *)
theory System
  imports Actions Feed Ptp_Net
begin

text \<open>
  The whole program: its threads interleave on the state of \<open>App\<close>.  A step is a request to the
  connection API or to the user interface, a message of a controller, a round of the status feed, a
  step of the registration thread, or a step of one of the engine's threads.  In every state that
  the program can reach, each component is in a state that it can reach on its own, so that what the
  component theories show of those states holds in the program.
\<close>

section \<open>Steps\<close>

text \<open>
  The readings of the environment may differ from step to step.  The threads of the receiver and
  the sender keep their local variables; a step may take any that fit the shared state.
\<close>

inductive app_reachable :: "('p, 'r) App_scheme \<Rightarrow> bool" where
  init: "docs s = (sender_document, sender_document, receiver_document, receiver_document) \<Longrightarrow> sender s = init_sender
    \<Longrightarrow> receiver s = init_receiver \<Longrightarrow> m_pIs12 s = init_is12 [] [] \<Longrightarrow> ptp_reachable (ptp s) \<Longrightarrow> app_reachable s"
| start: "app_reachable s \<Longrightarrow> startup e s = (Val (), s') \<Longrightarrow> app_reachable s'"
| connection_api: "app_reachable s \<Longrightarrow> (\<And>js. body = Some js \<Longrightarrow> json_ok js)
    \<Longrightarrow> Handle ce (onSender (e :: 'p app_env)) (onReceiver e) sUri sMethod body s = (r, s') \<Longrightarrow> app_reachable s'"
| user_interface: "app_reachable s
    \<Longrightarrow> HandleApi we (Some (\<lambda>s. (StatusJson e s, s))) (Some (on_config e)) (Some (Action e)) sUri sMethod sBody s = (r', s') \<Longrightarrow> app_reachable s'"
| web_start: "app_reachable s \<Longrightarrow> app_reachable (snd (web_Start listens sFilesDir s))"
| clients: "app_reachable s \<Longrightarrow> app_reachable (s\<lparr>m_setClients := C\<rparr>)"
| controller_ready: "app_reachable s \<Longrightarrow> app_reachable (s\<lparr>m_pIs12 := WsReady conn (m_pIs12 s)\<rparr>)"
| controller_gone: "app_reachable s \<Longrightarrow> app_reachable (s\<lparr>m_pIs12 := WsClose conn (m_pIs12 s)\<rparr>)"
| controller_message: "app_reachable s \<Longrightarrow> app_reachable (s\<lparr>m_pIs12 := fst (WsData nodeId version what conn nBits msg (m_pIs12 s))\<rparr>)"
| status_feed: "app_reachable s \<Longrightarrow> feed_step (e :: 'p app_env) f s = Some (f', s', out) \<Longrightarrow> app_reachable s'"
| registration: "app_reachable s \<Longrightarrow> reg_step ne registries reg s = (r'', s') \<Longrightarrow> app_reachable s'"
| receive: "app_reachable s \<Longrightarrow> rx_reachable p (receiver s) \<Longrightarrow> \<forall>(nLeg, d) \<in> set ready. nLeg < m_nLegCount (receiver s)
    \<Longrightarrow> RxTurn ready now (receiver s) = Some rx \<Longrightarrow> app_reachable (s\<lparr>receiver := rx\<rparr>)"
| play: "app_reachable s \<Longrightarrow> rx_reachable p (receiver s) \<Longrightarrow> play_step powf pe p (receiver s) = Some (p', rx, audio)
    \<Longrightarrow> app_reachable (s\<lparr>receiver := rx, alsa := dev\<rparr>)"
| send: "app_reachable s \<Longrightarrow> tx_reachable l (sender s) \<Longrightarrow> send_step c_sin pow powf se l (sender s) = Some (l', tx, packets)
    \<Longrightarrow> app_reachable (s\<lparr>sender := tx\<rparr>)"
| clock: "app_reachable s \<Longrightarrow> ptp_step (ptp s) pt \<Longrightarrow> app_reachable (s\<lparr>ptp := pt\<rparr>)"

section \<open>Parts of the engine\<close>

text \<open>
  What the program relies on in a part of its engine that it configures and that runs on its own:
  its moves compose, and they keep it in its reachable states.
\<close>

locale engine_part =
  fixes moves :: "'s \<Rightarrow> 's \<Rightarrow> bool" and reached :: "'s \<Rightarrow> bool"
  assumes same: "moves s s" and trans: "moves s t \<Longrightarrow> moves t u \<Longrightarrow> moves s u" and stays: "moves s t \<Longrightarrow> reached s \<Longrightarrow> reached t"
begin

lemma keeps_moves: "(\<And>t. moves (part t) (part (snd (m t)))) \<Longrightarrow> keeps (\<lambda>t. moves p (part t)) m"
  by (rule keepsI) (rule trans)

end

lemma rx_steps_trans: "rx_steps b c \<Longrightarrow> rx_steps a b \<Longrightarrow> rx_steps a c"
  by (induction rule: rx_steps.induct) (auto intro: rx_steps.intros)

lemma ptp_steps_reachable: "ptp_step\<^sup>*\<^sup>* s t \<Longrightarrow> ptp_reachable s \<Longrightarrow> ptp_reachable t"
  by (induction rule: rtranclp_induct) (auto intro: ptp_reachable.step)

interpretation sender_part: engine_part tx_steps "\<lambda>tx. \<exists>l. tx_reachable l tx"
  by unfold_locales (auto intro: tx_steps.same tx_steps_trans tx_steps_reachable)

interpretation receiver_part: engine_part rx_steps "\<lambda>rx. \<exists>p. rx_reachable p rx"
  by unfold_locales (auto intro: rx_steps.same rx_steps_trans rx_steps_reachable)

interpretation clock_part: engine_part "ptp_step\<^sup>*\<^sup>*" ptp_reachable
  by unfold_locales (auto intro: ptp_steps_reachable)

lemmas part_same = sender_part.same receiver_part.same clock_part.same
lemmas part_trans = sender_part.trans receiver_part.trans clock_part.trans

section \<open>What a step may change\<close>

definition calm :: "'r Node_scheme \<Rightarrow> 'r Node_scheme \<Rightarrow> bool" where
  "calm s t \<longleftrightarrow> tx_steps (sender s) (sender t) \<and> rx_steps (receiver s) (receiver t) \<and> ptp_step\<^sup>*\<^sup>* (ptp s) (ptp t) \<and> m_pIs12 t = m_pIs12 s"

definition quiet :: "'r Node_scheme \<Rightarrow> 'r Node_scheme \<Rightarrow> bool" where
  "quiet s t \<longleftrightarrow> docs t = docs s \<and> calm s t"

lemma calm_refl [simp]: "calm s s" "quiet s s"
  by (simp_all add: calm_def quiet_def part_same)

named_theorems calm_intros \<open>operations that leave the documents and the monitors alone\<close>

lemma calm_modify: "(\<And>t. sender (f t) = sender t \<and> receiver (f t) = receiver t \<and> ptp (f t) = ptp t \<and> m_pIs12 (f t) = m_pIs12 t) \<Longrightarrow> keeps (calm s) (modifyS f)"
  by (rule keeps_modify) (simp add: calm_def)

lemma quiet_modify: "(\<And>t. docs (f t) = docs t \<and> sender (f t) = sender t \<and> receiver (f t) = receiver t \<and> ptp (f t) = ptp t \<and> m_pIs12 (f t) = m_pIs12 t) \<Longrightarrow> keeps (quiet s) (modifyS f)"
  by (rule keeps_modify) (simp add: quiet_def calm_def)

lemma sender_side_quiet:
  fixes s t :: "'r Node_scheme"
  assumes "sender_side s t"
  shows "quiet s t"
proof -
  have "t\<lparr>cfg := cfg s, written := written s, sender := sender s, m_nVersion := m_nVersion s\<rparr> = s" using assms by (simp add: sender_side_def)
  then have "receiver t = receiver s" "m_pIs12 t = m_pIs12 s" "ptp t = ptp s"
    by (metis Node.Node.select_convs(3) Node.Node.surjective ConnectionApi.update_convs(1-4), metis Node.Node.select_convs(5) Node.Node.surjective ConnectionApi.update_convs(1-4),
        metis Node.Node.select_convs(2) Node.Node.surjective ConnectionApi.update_convs(1-4))
  then show ?thesis using sender_side_docs [OF assms] assms by (simp add: quiet_def calm_def sender_side_def rx_steps.same)
qed

lemma quiet_trans: "quiet s t \<Longrightarrow> quiet t u \<Longrightarrow> quiet s u"
  by (auto simp: quiet_def calm_def intro: part_trans)

lemma quietI: "(\<And>t. quiet t (snd (m t))) \<Longrightarrow> keeps (quiet s) m"
  by (rule keepsI) (blast intro: quiet_trans)

lemma quiet_callbacks [calm_intros]:
  fixes s :: "'r Node_scheme"
  shows "keeps (quiet s) (ApplySender e)" "keeps (quiet s) (onSender e b)" "keeps (quiet s) (onReceiver e b ses)" "keeps (quiet s) apply_monitor"
    "keeps (quiet s) (toggle_leg i)" "keeps (quiet s) (update_config js)" "keeps (quiet s) (set_config path v)"
proof -
  show "keeps (quiet s) (ApplySender e)"
  proof (rule quietI)
    fix t :: "'r Node_scheme"
    obtain tx where "snd (ApplySender e t) = t\<lparr>sender := tx\<rparr>" "tx_steps (sender t) tx" using ApplySender_effect [of e t] by blast
    then show "quiet t (snd (ApplySender e t))" by (simp add: quiet_def calm_def docs_def rx_steps.same)
  qed
  show "keeps (quiet s) (onSender e b)" by (rule quietI) (rule sender_side_quiet [OF onSender_effect])
  show "keeps (quiet s) (onReceiver e b ses)"
  proof (rule quietI)
    fix t :: "'r Node_scheme"
    obtain rx where "snd (onReceiver e b ses t) = t\<lparr>receiver := rx\<rparr>" "rx_steps (receiver t) rx" using onReceiver_effect [of e b ses t] by blast
    then show "quiet t (snd (onReceiver e b ses t))" by (simp add: quiet_def calm_def docs_def tx_steps.same)
  qed
  show "keeps (quiet s) apply_monitor"
  proof (rule keepsI)
    fix t :: "'r Node_scheme" assume t: "quiet s t"
    have "keeps (quiet s) (modifyS (\<lambda>t. t\<lparr>receiver := SetMonitor l r (receiver t)\<rparr>))" for l r
      by (rule keeps_modify) (auto simp: quiet_def calm_def docs_def intro: rx_steps.monitor)
    then show "quiet s (snd (apply_monitor t))" unfolding apply_monitor_def by (intro keepsD [of "quiet s", OF _ t] keeps_intros)
  qed
  show "keeps (quiet s) (toggle_leg i)"
  proof (rule keepsI)
    fix t :: "'r Node_scheme" assume t: "quiet s t"
    have "keeps (quiet s) (modifyS (\<lambda>t. t\<lparr>sender := SetLegEnabled i b (sender t)\<rparr>))" for b
      by (rule keeps_modify) (auto simp: quiet_def calm_def docs_def intro: tx_steps.switch)
    then show "quiet s (snd (toggle_leg i t))" unfolding toggle_leg_def by (intro keepsD [of "quiet s", OF _ t] keeps_intros)
  qed
  show "keeps (quiet s) (update_config js)" "keeps (quiet s) (set_config path v)"
    by (rule quietI, simp add: update_config_def set_config_def Let_def case_prod_unfold quiet_def calm_def docs_def part_same)+
qed

lemma quiet_on_config [calm_intros]:
  fixes s :: "('p, 'r) App_scheme"
  shows "keeps (quiet s) (on_config e js)"
proof -
  have bump: "keeps (quiet s) (modifyS BumpVersion)" by (rule quiet_modify) (simp add: BumpVersion_def docs_def)
  have domain: "keeps (quiet s) (modifyS (\<lambda>t. t\<lparr>ptp := SetDomain n (ptp t)\<rparr>))" for n by (rule keeps_modify) (auto simp: quiet_def calm_def docs_def intro: rtranclp.rtrancl_into_rtrancl ptp_step.domain)
  have device: "keeps (quiet s) (modifyS (open_device e d))" for d by (rule quiet_modify) (simp add: open_device_def docs_def)
  have "keeps (quiet s) (apply_changes e ms)" for ms
    by (induction ms rule: list.induct) (auto intro!: keeps_intros calm_intros domain device)
  then show ?thesis unfolding on_config_def by (intro keeps_intros calm_intros bump)
qed

lemma HttpJson_quiet: "keeps (quiet s) (HttpText ne sMethod url sBody)" "keeps (quiet s) (HttpJson ne sMethod url body)"
proof -
  show "keeps (quiet s) (HttpText ne sMethod url sBody)"
  proof (rule quietI)
    fix t :: "'a Node_scheme"
    obtain rqs where "snd (HttpText ne sMethod url sBody t) = t\<lparr>requests := rqs\<rparr>"
      using HttpText_state [of ne sMethod url sBody t] by (cases "HttpText ne sMethod url sBody t") auto
    then show "quiet t (snd (HttpText ne sMethod url sBody t))" by (simp add: quiet_def calm_def docs_def part_same)
  qed
  show "keeps (quiet s) (HttpJson ne sMethod url body)"
  proof (rule quietI)
    fix t :: "'a Node_scheme"
    obtain rqs where "snd (HttpJson ne sMethod url body t) = t\<lparr>requests := rqs\<rparr>"
      using HttpJson_state [of ne sMethod url body t] by (cases "HttpJson ne sMethod url body t") auto
    then show "quiet t (snd (HttpJson ne sMethod url body t))" by (simp add: quiet_def calm_def docs_def part_same)
  qed
qed

lemma quiet_state: "s' = s\<lparr>requests := rqs\<rparr> \<Longrightarrow> quiet s s'"
  by (simp add: quiet_def calm_def docs_def part_same)

lemma quiet_action [calm_intros]:
  fixes s :: "('p, 'r) App_scheme"
  shows "keeps (quiet s) (Action e sAction jsBody)"
proof (rule quietI)
  fix t :: "('p, 'r) App_scheme"
  show "quiet t (snd (Action e sAction jsBody t))"
    using safelyD [OF safely_action [of e sAction jsBody], of t]
    by (auto simp: asks_def quiet_def calm_def docs_def part_same)
qed

lemma quiet_upload:
  fixes s :: "'r Web_scheme"
  shows "keeps (quiet s) (upload we name sBody)"
proof -
  have "keeps (quiet s) (modifyS (\<lambda>t. let path = m_sFilesDir t @ ''/'' @ name in if w_opens we path then t\<lparr>files := files t @ [(path, sBody)]\<rparr> else t))"
    by (rule quiet_modify) (simp add: docs_def Let_def)
  then show ?thesis unfolding upload_def SendJson_def by (intro keeps_intros)
qed

lemma quiet_user_interface:
  fixes s :: "('p, 'r) App_scheme"
  shows "keeps (quiet s) (HandleApi we (Some (\<lambda>s. (StatusJson e s, s))) (Some (on_config e)) (Some (Action e)) sUri sMethod sBody)"
proof (rule HandleApi_keeps)
  show "keeps (quiet s) f" if "Some (\<lambda>s. (StatusJson e s, s)) = Some f" for f
    using that by (auto simp: keeps_def)
qed (use calm_intros quiet_upload in auto)

lemma quiet_registration:
  fixes s :: "'r Node_scheme"
  shows "keeps (quiet s) (reg_step ne registries l)"
proof (rule quietI)
  fix t :: "'r Node_scheme"
  have post: "keeps (quiet t) (Post ne url r)" for url r
  proof (rule quietI)
    fix u :: "'r Node_scheme"
    show "quiet u (snd (Post ne url r u))" using Post_state [of ne url r u] quiet_state by (metis prod.collapse)
  qed
  have run: "quiet t (snd (m t))" if "keeps (quiet t) m" for m :: "('r Node_scheme, RegLocals) act" using keepsD [OF that] by simp
  have "quiet t (snd (reg_top registries l t))"
  proof (cases "node_bRun t")
    case True
    show ?thesis unfolding reg_top_def Let_def
      by (simp only: True not_True_eq_False if_False) (intro keepsD [of "quiet t", OF _ calm_refl(2)] conjI impI keeps_intros)
  qed (simp add: reg_top_def returnS_def)
  moreover have "quiet t (snd (heartbeat ne l t))"
  proof -
    have "keeps (quiet t) (\<lambda>u. (Val (h r u), u))" for h :: "json option \<times> int \<Rightarrow> 'r Node_scheme \<Rightarrow> RegLocals" and r by (simp add: keeps_def)
    then show ?thesis unfolding heartbeat_def by (intro run keeps_bind HttpJson_quiet)
  qed
  moreover have "quiet t (snd (reg_posted ok url g l t))" for ok url g
    by (cases g) (simp_all add: reg_posted_def quiet_def calm_def docs_def part_same)
  moreover have "quiet t (snd (bindS (Post ne url r) (\<lambda>ok. returnS (h ok)) t))" for url r and h :: "bool \<Rightarrow> RegLocals"
    by (intro run keeps_intros post)
  moreover have "quiet t (snd (bindS (if b then HttpJson ne m url x else returnS (None, 0)) (\<lambda>_. returnS l') t))" for b m url x and l' :: RegLocals
    by (intro run keeps_intros HttpJson_quiet)
  moreover have "quiet t (t\<lparr>m_sRegistry := x, m_sRegistryStatus := y\<rparr>)" for x y
    by (simp add: quiet_def calm_def docs_def part_same)
  ultimately show "quiet t (snd (reg_step ne registries l t))"
    by (cases "reg_pc l") (auto simp: reg_step_def split: list.split)
qed

lemma calm_weaken:
  assumes "\<And>t. quiet t (snd (m t))"
  shows "keeps (calm s) m"
proof -
  have "keeps (\<lambda>t. tx_steps (sender s) (sender t)) m" "keeps (\<lambda>t. rx_steps (receiver s) (receiver t)) m" "keeps (\<lambda>t. ptp_step\<^sup>*\<^sup>* (ptp s) (ptp t)) m"
    using assms by (intro sender_part.keeps_moves receiver_part.keeps_moves clock_part.keeps_moves; simp add: quiet_def calm_def)+
  then show ?thesis using assms by (auto simp: keeps_def calm_def quiet_def)
qed

lemma calm_patches:
  fixes s :: "'r Node_scheme"
  shows "keeps (calm s) (PatchSender nNow vIps (onSender e) js)" "keeps (calm s) (PatchReceiver nNow vIps (onReceiver e) js)"
proof -
  have weaken: "keeps (calm s) m" if "\<And>t. keeps (quiet t) m" for m :: "('r Node_scheme, unit) act"
    by (rule calm_weaken) (rule keepsD [OF that calm_refl(2)])
  note cb = weaken [OF quiet_callbacks(2)] weaken [OF quiet_callbacks(3)] and set = weaken [OF quiet_callbacks(7)]
  have switch: "keeps (calm s) (modifyS (\<lambda>t. t\<lparr>sender := SetLegEnabled i b (sender t)\<rparr>))" for i b
    by (rule keeps_modify) (auto simp: calm_def intro: tx_steps.switch)
  have en: "keeps (calm s) (case x of Some (JBool b) \<Rightarrow> thenS (set_config p (JBool b)) (modifyS (\<lambda>s. s\<lparr>sender := SetLegEnabled i b (sender s)\<rparr>))
      | _ \<Rightarrow> returnS ())" for x p i
    by (auto intro!: keeps_intros set switch split: option.split json.split)
  have app: "keeps (calm s) (apply_destination legs i)" "keeps (calm s) (apply_port legs)" "keeps (calm s) (apply_enabled legs i)" for legs i
    unfolding apply_destination_def apply_port_def apply_enabled_def by (intro keeps_intros set en)+
  have legs: "keeps (calm s) (\<lambda>s. let (r, legs) = for_legs (actual_sender_leg vIps (cfg s)) 0 (legs_of (m_jsSenderActive s))
      in (r, s\<lparr>m_jsSenderActive := set_legs legs (m_jsSenderActive s)\<rparr>))"
    "keeps (calm s) (\<lambda>s. let (r, legs) = for_legs (actual_receiver_leg vIps) 0 (legs_of (m_jsReceiverActive s))
      in (r, s\<lparr>m_jsReceiverActive := set_legs legs (m_jsReceiverActive s)\<rparr>))"
    "keeps (calm s) (\<lambda>s. (receiver_session b (m_jsReceiverActive s), s))" for b
    by (simp_all add: keeps_def Let_def case_prod_unfold calm_def)
  have tx: "keeps (calm s) (ActivateSender nNow vIps (onSender e))"
  proof (rule keepsI)
    fix t :: "'r Node_scheme" assume t: "calm s t"
    show "calm s (snd (ActivateSender nNow vIps (onSender e) t))"
      unfolding ActivateSender_def Let_def
      by (intro keepsD [of "calm s", OF _ t]) (intro keeps_intros app legs [unfolded Let_def] cb calm_modify, simp_all)
  qed
  have rx: "keeps (calm s) (ActivateReceiver nNow vIps (onReceiver e))"
  proof (rule keepsI)
    fix t :: "'r Node_scheme" assume t: "calm s t"
    show "calm s (snd (ActivateReceiver nNow vIps (onReceiver e) t))"
      unfolding ActivateReceiver_def
      by (intro keepsD [of "calm s", OF _ t]) (intro keeps_intros legs cb calm_modify, simp_all)
  qed
  show "keeps (calm s) (PatchSender nNow vIps (onSender e) js)" unfolding PatchSender_def by (intro keeps_intros tx calm_modify) simp
  show "keeps (calm s) (PatchReceiver nNow vIps (onReceiver e) js)" unfolding PatchReceiver_def by (intro keeps_intros rx calm_modify) simp
qed

section \<open>Every component stays in its reachable states\<close>

definition sound :: "'r Node_scheme \<Rightarrow> bool" where
  "sound s \<longleftrightarrow> active_readable s \<and> (\<exists>l. tx_reachable l (sender s)) \<and> (\<exists>p. rx_reachable p (receiver s)) \<and> ptp_reachable (ptp s) \<and> (\<exists>rid sid. is12_reachable rid sid (m_pIs12 s))"

lemma sound_calm:
  assumes "sound s" "calm s t" "active_readable t"
  shows "sound t"
  using assms sender_part.stays receiver_part.stays clock_part.stays unfolding sound_def calm_def by metis

lemma sound_quiet: "sound s \<Longrightarrow> quiet s t \<Longrightarrow> sound t"
  using sound_calm [of s t] readable_docs [of t s] by (auto simp: quiet_def sound_def)

lemma sound_step: "sound s \<Longrightarrow> keeps (quiet s) m \<Longrightarrow> m s = (r, t) \<Longrightarrow> sound t"
  using keepsD [of "quiet s" m s] sound_quiet [of s t] by simp

lemma keeps_sound: "(\<And>t. keeps (quiet t) m) \<Longrightarrow> keeps sound m"
  by (rule keepsI) (metis sound_step prod.collapse)

lemma node_Start_effect:
  assumes "node_Start ne port ifs s = Some (ok, t)"
  shows "sender t = sender s" "receiver t = receiver s" "ptp t = ptp s"
    and "docs t = docs s \<and> m_pIs12 t = m_pIs12 s
      \<or> docs t = (sender_document, sender_document, receiver_document, receiver_document) \<and> m_pIs12 t = init_is12 (m_sReceiverId t) (m_sSenderId t)"
  using assms by (cases "v_listens ne"; auto simp: node_Start_def node_Stop_def docs_def Let_def bind_eq_Some_conv)+

lemma readable_initial: "docs s = (sender_document, sender_document, receiver_document, receiver_document) \<Longrightarrow> active_readable s"
  by (rule conn_reachable_readable [OF conn_reachable.start, of _ "\<lambda>_. returnS ()" "\<lambda>_ _. returnS ()"]) (simp_all add: outside_def returnS_def)

lemma startup_sound:
  fixes s :: "('p, 'r) App_scheme"
  assumes "sound s" "startup e s = (r, t)"
  shows "sound t"
proof -
  have device: "keeps sound (modifyS (open_device e d))" for d
    by (rule keeps_sound, rule quiet_modify) (simp add: open_device_def docs_def)
  have node: "keeps sound (\<lambda>s :: ('p, 'r) App_scheme. case node_Start (p_node e) port ifs s of None \<Rightarrow> (Undef, s) | Some (ok, s) \<Rightarrow> (Val (), s))" for port ifs
  proof (rule keepsI)
    fix u :: "('p, 'r) App_scheme" assume u: "sound u"
    show "sound (snd (case node_Start (p_node e) port ifs u of None \<Rightarrow> (Undef, u) | Some (ok, s) \<Rightarrow> (Val (), s)))"
    proof (cases "node_Start (p_node e) port ifs u")
      case (Some x)
      obtain ok v where x: "x = (ok, v)" by fastforce
      have "sound v" using node_Start_effect [of "p_node e" port ifs u ok v] u Some x readable_docs [of v u] readable_initial [of v] is12_reachable.start
        unfolding sound_def by metis
      then show ?thesis by (simp add: Some x)
    qed (simp add: u)
  qed
  have last: "keeps sound (\<lambda>s :: ('p, 'r) App_scheme. bindS (evalS (GetValue get_bool ''nmos.enabled'' True (cfg s))) (\<lambda>enabled.
     whenS enabled (
       bindS (evalS (GetValue get_int ''nmos.http_port'' 8080 (cfg s))) (\<lambda>port.
       bindS (evalS (Interfaces (cfg s))) (\<lambda>ifs. (\<lambda>s.
         case node_Start (p_node e) port ifs s of None \<Rightarrow> (Undef, s) | Some (ok, s) \<Rightarrow> (Val (), s)))))) s)"
  proof (rule keepsI)
    fix u :: "('p, 'r) App_scheme" assume u: "sound u"
    show "sound (snd (bindS (evalS (GetValue get_bool ''nmos.enabled'' True (cfg u))) (\<lambda>enabled.
     whenS enabled (
       bindS (evalS (GetValue get_int ''nmos.http_port'' 8080 (cfg u))) (\<lambda>port.
       bindS (evalS (Interfaces (cfg u))) (\<lambda>ifs. (\<lambda>s.
         case node_Start (p_node e) port ifs s of None \<Rightarrow> (Undef, s) | Some (ok, s) \<Rightarrow> (Val (), s)))))) u))"
      by (intro keepsD [of sound, OF _ u] keeps_intros node)
  qed
  have "sound (snd (startup e s))" unfolding startup_def
    by (intro keepsD [of sound, OF _ assms(1)] keeps_bind keeps_then keeps_simple device last keeps_sound calm_intros)
  then show ?thesis using assms(2) by simp
qed

section \<open>The status feed\<close>

definition monitored :: "monitors \<Rightarrow> bool" where
  "monitored m \<longleftrightarrow> (\<exists>rid sid. is12_reachable rid sid (fst m))"

named_theorems feed_intros \<open>what a round does to the monitors they can do themselves\<close>

lemma monitored_upd [feed_intros]:
  "monitored m \<Longrightarrow> d < 4 \<Longrightarrow> monitored (upd (UpdateReceiverDomain now d st msg) m)"
  "monitored m \<Longrightarrow> d < 4 \<Longrightarrow> monitored (upd (UpdateSenderDomain now d st msg) m)"
  "monitored m \<Longrightarrow> monitored (upd (SetSyncSource src) m)"
  "monitored m \<Longrightarrow> monitored (tally (AddReceiverLost leg n) m)"
  "monitored m \<Longrightarrow> monitored (tally (AddReceiverLate n) m)"
  "monitored m \<Longrightarrow> monitored (tally (AddSenderErrors c n) m)"
  unfolding monitored_def upd_def tally_def
  by (simp_all add: case_prod_unfold Let_def) (blast intro: is12_reachable.intros)+

lemma monitored_if [feed_intros]: "monitored m \<Longrightarrow> monitored m' \<Longrightarrow> monitored (if b then m else m')"
  by simp

lemma monitored_legs: "monitored m \<Longrightarrow> monitored (fst (snd (feed_legs rx i legs (lost, m, a, b))))"
proof (induction legs arbitrary: i lost m a b)
  case (Cons leg legs)
  have "monitored (tally (AddReceiverLost (leg_sInterface leg) n) m)" for n using Cons.prems by (rule monitored_upd)
  then show ?case by (simp add: Let_def Cons.IH Cons.prems del: split_paired_All)
qed simp

lemma monitored_receiver: "monitored m \<Longrightarrow> monitored (snd (feed_receiver now rx (f, m)))"
  unfolding feed_receiver_def Let_def by (simp add: case_prod_unfold monitored_upd monitored_legs)

lemma monitored_sender: "monitored m \<Longrightarrow> monitored (snd (feed_sender now tx (f, m)))"
  unfolding feed_sender_def Let_def by (simp add: case_prod_unfold monitored_upd)

lemma monitored_tick: "monitored (i, []) \<Longrightarrow> monitored (snd (feed_tick now eng (f, i)))"
proof -
  assume "monitored (i, [])"
  then have "monitored (feed_sync now (fst eng) (i, []))" unfolding feed_sync_def Let_def by (intro monitored_upd) simp_all
  then have "monitored (snd (feed_receiver now (fst (snd eng)) (f, feed_sync now (fst eng) (i, []))))" by (rule monitored_receiver)
  then have "monitored (snd (feed_sender now (snd (snd eng)) (feed_receiver now (fst (snd eng)) (f, feed_sync now (fst eng) (i, [])))))"
    by (metis monitored_sender prod.collapse)
  then show ?thesis by (simp add: feed_tick_def case_prod_unfold)
qed

section \<open>The program\<close>

lemma app_reachable_sound: "app_reachable s \<Longrightarrow> sound s"
proof (induction rule: app_reachable.induct)
  case (init s)
  then show ?case unfolding sound_def using readable_initial tx_reachable.fresh rx_reachable.fresh is12_reachable.start by metis
next
  case (start s e s')
  then show ?case using startup_sound by blast
next
  case (connection_api s body ce e sUri sMethod r s')
  let ?m = "Handle ce (onSender e) (onReceiver e) sUri sMethod body"
  have "keeps (calm s) ?m" by (intro Handle_keeps calm_patches)
  moreover have "keeps active_readable ?m" using connection_api.hyps(2) by (intro Handle_keeps patches_readable [OF callbacks_outside]) auto
  ultimately have "calm s s'" "active_readable s'"
    using keepsD [of "calm s" ?m s] keepsD [of active_readable ?m s] connection_api.hyps(3) connection_api.IH by (simp_all add: sound_def)
  then show ?case using sound_calm connection_api.IH by blast
next
  case (user_interface s we e sUri sMethod sBody r' s')
  then show ?case using sound_step [OF _ quiet_user_interface] by blast
next
  case (status_feed s e f f' s' out)
  let ?i = "fst (snd (feed_tick (p_now e) (ptp s, receiver s, sender s) (f, m_pIs12 s)))"
  have "\<exists>rid sid. is12_reachable rid sid ?i" using monitored_tick status_feed.IH by (auto simp: monitored_def sound_def)
  moreover have "s' = s \<or> s' = s\<lparr>m_pIs12 := ?i\<rparr>" using status_feed.hyps(2)
    by (auto simp: feed_step_def Let_def case_prod_unfold split: if_splits option.splits)
  moreover have "active_readable (s\<lparr>m_pIs12 := ?i\<rparr>)" using status_feed.IH readable_docs [of "s\<lparr>m_pIs12 := ?i\<rparr>" s] by (simp add: sound_def docs_def)
  ultimately show ?case using status_feed.IH unfolding sound_def by (elim disjE) simp_all
next
  case (registration s ne registries reg r'' s')
  then show ?case using sound_step [OF _ quiet_registration] by blast
next
  case (receive s p ready now rx)
  have "rx_reachable p rx" using receive.hyps(2-4) by (rule rx_reachable.receive)
  then show ?case using receive.IH readable_docs [of "s\<lparr>receiver := rx\<rparr>" s] by (auto simp: sound_def docs_def)
next
  case (play s p powf pe p' rx audio dev)
  have "rx_reachable p' rx" using play.hyps(2,3) by (rule rx_reachable.play)
  then show ?case using play.IH readable_docs [of "s\<lparr>receiver := rx, alsa := dev\<rparr>" s] by (auto simp: sound_def docs_def)
next
  case (send s l c_sin pow powf se l' tx packets)
  have "tx_reachable l' tx" using send.hyps(2,3) by (rule tx_reachable.send)
  then show ?case using send.IH readable_docs [of "s\<lparr>sender := tx\<rparr>" s] by (auto simp: sound_def docs_def)
qed (auto simp: sound_def active_readable_def conn_inv_def web_Start_def web_Stop_def Let_def intro: is12_reachable.intros ptp_reachable.step)



end
