(* ===== verification/Lifecycle.thy ===== *)
theory Lifecycle
  imports System
begin

text \<open>
  The life of the process, \<^verbatim>\<open>src/src/main.cpp\<close>: from the command line to the running servers, and the
  shutdown after the signal.
\<close>

section \<open>Start\<close>

definition home_dir :: "string option \<Rightarrow> string" where
  "home_dir home = (case home of Some h \<Rightarrow> h | None \<Rightarrow> ''/tmp'')"

definition config_path :: "string list \<Rightarrow> string option \<Rightarrow> string" where
  "config_path argv home = (case argv of _ # a # _ \<Rightarrow> a | _ \<Rightarrow> home_dir home @ ''/pi-audio-node.json'')"

definition files_dir :: "string option \<Rightarrow> Config \<Rightarrow> string outcome" where
  "files_dir home c =
     bindO (GetValue get_string ''web.audio_files_path'' [] c) (\<lambda>sFilesDir.
       Val (if sFilesDir = [] then home_dir home @ ''/audio-files'' else sFilesDir))"

text \<open>
  The start of the process.  \<open>file\<close> is what a configuration file holds, \<open>listens\<close> whether the web
  server can listen on a port.  The result has the environment with the two directories that the
  configuration names, which the callbacks use from then on.
\<close>

definition program_start ::
  "(string \<Rightarrow> json option option) \<Rightarrow> net_env \<Rightarrow> 'p app_env \<Rightarrow> string list \<Rightarrow> string option \<Rightarrow> (int \<Rightarrow> bool) \<Rightarrow> ('p, 'r) App_scheme
    \<Rightarrow> (PtpNet \<times> 'p app_env \<times> ('p, 'r) App_scheme) outcome" where
  "program_start file ne e argv home listens s =
     bindO (Load file (config_path argv home)) (\<lambda>c.
     bindO (files_dir home c) (\<lambda>sFilesDir.
     bindO (Interfaces c) (\<lambda>ifs.
     bindO (GetValue get_int ''ptp.domain'' 0 c) (\<lambda>nDomain.
       let net = snd (Run ne ifs nDomain init_net);
           (r, s) = startup (e\<lparr>p_filesDir := sFilesDir\<rparr>) (s\<lparr>cfg := c, ptp := client net\<rparr>)
       in bindO r (\<lambda>_.
          bindO (GetValue get_string ''web.webui_path'' ''webui'' (cfg s)) (\<lambda>sWebRoot.
          bindO (GetValue get_int ''web.port'' 80 (cfg s)) (\<lambda>port.
            Val (net, e\<lparr>p_filesDir := sFilesDir, p_webRoot := sWebRoot\<rparr>, snd (web_Start (listens port) sFilesDir s)))))))))"

section \<open>Shutdown\<close>

definition shutdown :: "PtpNet \<times> ('p, 'r) App_scheme \<Rightarrow> PtpNet \<times> ('p, 'r) App_scheme" where
  "shutdown ns =
    (let (net, s) = ns;
         s = node_Stop (web_Stop s)
     in (net_Stop net, s\<lparr>sender := tx_Stop (sender s), receiver := rx_Stop (receiver s)\<rparr>))"

section \<open>Properties\<close>

lemma Run_client:
  assumes "ifs \<noteq> []"
  shows "client (snd (Run ne ifs nDomain init_net)) = init_client ifs nDomain (own_identity ne (hd ifs) (replicate 8 0))"
proof -
  have "net_Stop init_net = init_net" by (simp add: net_Stop_def CloseSockets_def init_net_def Let_def)
  then show ?thesis using assms by (simp add: Run_def Let_def OpenSockets_def case_prod_unfold open_ifs_client init_net_def init_client_def)
qed

lemma default_values:
  fixes c :: Config
  assumes "m_json c = Defaults"
  shows "GetValue get_string ''web.audio_files_path'' [] c = Val []" "GetValue get_int ''ptp.domain'' 0 c = Val 0"
    "Interfaces c = Val [''eth0'', ''eth1'']" "GetValue get_string ''receiver.alsa_device'' ''default'' c = Val ''default:CARD=sndrpihifiberry''"
    "GetValue get_int ''receiver.monitor_left'' (-1) c = Val (-1)" "GetValue get_int ''receiver.monitor_right'' (-1) c = Val (-1)"
    "GetValue get_bool ''nmos.enabled'' True c = Val True" "GetValue get_int ''nmos.http_port'' 8080 c = Val 8080"
    "GetValue get_string ''web.webui_path'' ''webui'' c = Val ''/usr/local/share/pi-audio-node/webui''" "GetValue get_int ''web.port'' 80 c = Val 80"
    "bindO (jref ''sender'' (m_json c)) (jvalue get_bool ''enabled'' False) = Val False"
proof -
  have c: "c = \<lparr>m_json = Defaults, m_sPath = m_sPath c\<rparr>" using assms by simp
  show "GetValue get_string ''web.audio_files_path'' [] c = Val []" by (subst c) code_simp
  show "GetValue get_int ''ptp.domain'' 0 c = Val 0" by (subst c) code_simp
  show "Interfaces c = Val [''eth0'', ''eth1'']" by (subst c) code_simp
  show "GetValue get_string ''receiver.alsa_device'' ''default'' c = Val ''default:CARD=sndrpihifiberry''" by (subst c) code_simp
  show "GetValue get_int ''receiver.monitor_left'' (-1) c = Val (-1)" by (subst c) code_simp
  show "GetValue get_int ''receiver.monitor_right'' (-1) c = Val (-1)" by (subst c) code_simp
  show "GetValue get_bool ''nmos.enabled'' True c = Val True" by (subst c) code_simp
  show "GetValue get_int ''nmos.http_port'' 8080 c = Val 8080" by (subst c) code_simp
  show "GetValue get_string ''web.webui_path'' ''webui'' c = Val ''/usr/local/share/pi-audio-node/webui''" by (subst c) code_simp
  show "GetValue get_int ''web.port'' 80 c = Val 80" by (subst c) code_simp
  show "bindO (jref ''sender'' (m_json c)) (jvalue get_bool ''enabled'' False) = Val False" by (subst assms) code_simp
qed

lemma Load_defaults: "\<forall>js. file path \<noteq> Some (Some js) \<Longrightarrow> Load file path = Val \<lparr>m_json = Defaults, m_sPath = path\<rparr>"
proof -
  have "MergeDefaults (JObj []) Defaults = Val Defaults" by code_simp
  moreover assume "\<forall>js. file path \<noteq> Some (Some js)"
  ultimately show ?thesis by (auto simp: Load_def split: option.split)
qed

definition md5_digests :: "node_env \<Rightarrow> bool" where
  "md5_digests ne \<longleftrightarrow> (\<forall>x. length (v_md5 ne x) = 32 \<and> set (v_md5 ne x) \<subseteq> set HEX)"

lemma node_Start_total:
  assumes "md5_digests ne"
  obtains t where "node_Start ne port ifs s = Some (v_listens ne, t)" "cfg t = cfg s" "node_bRun t = v_listens ne" "node_nPort t = port"
    "node_vInterfaces t = ifs" "sender t = sender s" "receiver t = receiver s"
proof -
  have "\<exists>u. MakeUuid (v_md5 ne) x = Some u" for x using MakeUuid_format [of "v_md5 ne" x] assms by (auto simp: md5_digests_def)
  then have "\<forall>x. \<exists>u. MakeUuid (v_md5 ne) x = Some u" by blast
  then obtain u where "\<forall>x. MakeUuid (v_md5 ne) x = Some (u x)" by (rule choice [THEN exE])
  then have u: "MakeUuid (v_md5 ne) x = Some (u x)" for x by blast
  then obtain t where t: "node_Start ne port ifs s = Some (v_listens ne, t)" by (cases "v_listens ne") (auto simp: node_Start_def Let_def)
  then show ?thesis using u by (intro that [of t]) (auto simp: node_Start_def node_Stop_def Let_def split: if_splits)
qed

lemma ApplySender_stops:
  assumes "m_json (cfg s) = Defaults"
  shows "ApplySender e s = (Val (), s\<lparr>sender := tx_Stop (sender s)\<rparr>)"
proof -
  obtain js where "jref ''sender'' (m_json (cfg s)) = Val js" "jvalue get_bool ''enabled'' False js = Val False"
    using default_values(11) [OF assms] by (cases "jref ''sender'' (m_json (cfg s))") auto
  then show ?thesis by (simp add: ApplySender_def act_simps)
qed

lemma startup_defaults:
  fixes s :: "('p, 'r) App_scheme"
  assumes "m_json (cfg s) = Defaults" "md5_digests (p_node e)"
  obtains t where "startup e s = (Val (), t)" "cfg t = cfg s" "node_bRun t = v_listens (p_node e)" "node_nPort t = 8080"
    "node_vInterfaces t = [''eth0'', ''eth1'']" "sender t = tx_Stop (sender s)" "receiver t = SetMonitor (-1) (-1) (receiver s)"
proof -
  let ?a = "open_device e ''default:CARD=sndrpihifiberry'' s"
  let ?b = "?a\<lparr>receiver := SetMonitor (-1) (-1) (receiver s)\<rparr>"
  let ?c = "?b\<lparr>sender := tx_Stop (sender s)\<rparr>"
  have cfg: "cfg ?a = cfg s" "receiver ?a = receiver s" "sender ?b = sender s" by (simp_all add: open_device_def)
  obtain t where t: "node_Start (p_node e) 8080 [''eth0'', ''eth1''] ?c = Some (v_listens (p_node e), t)" "cfg t = cfg ?c"
      "node_bRun t = v_listens (p_node e)" "node_nPort t = 8080" "node_vInterfaces t = [''eth0'', ''eth1'']" "sender t = sender ?c" "receiver t = receiver ?c"
    using node_Start_total [OF assms(2)] by blast
  have "ApplySender e ?b = (Val (), ?c)" using ApplySender_stops [of ?b e] assms(1) cfg by simp
  then have "startup e s = (Val (), t)"
    using t(1) default_values [OF assms(1)] cfg by (simp add: startup_def apply_monitor_def act_simps)
  then show ?thesis using that t cfg by simp
qed



end
